(* ===== verification/Prelude.thy ===== *)
theory Prelude
  imports Main "HOL-Library.Word" "HOL-Library.AList" "HOL-Library.Monad_Syntax"
begin

text \<open>
  Shared vocabulary of the development: the machine integers of the Rust sources and the
  arithmetic of their standard library, the outcome types of fallible and possibly
  non-returning functions, list iteration in these outcome types, and the generic lemmas on
  lists, words and association lists the components use.

  The release profile of \<^verbatim>\<open>src/Cargo.toml\<close> builds with \<^verbatim>\<open>overflow-checks = false\<close> and
  \<^verbatim>\<open>panic = "abort"\<close>. Hence plain \<open>+\<close>, \<open>-\<close> and \<open>*\<close> on \<^verbatim>\<open>u64\<close> wrap around, as they do on
  \<open>64 word\<close>, and a function that panics does not return. A function that can loop for ever or
  panic has an \<open>option\<close> result whose \<open>None\<close> is "does not return".
\<close>

named_theorems pharos_simps
  \<open>rewrites of lookups, projections and fork dispatch that several components share\<close>

named_theorems u64_arith
  \<open>machine arithmetic as arithmetic on natural numbers\<close>

section \<open>Machine integers\<close>

type_synonym u8 = "8 word"
type_synonym u32 = "32 word"
type_synonym u64 = "64 word"

text \<open>\<^verbatim>\<open>[u8; 32]\<close> ordered byte by byte is the big-endian 256-bit number.\<close>

type_synonym hash256 = "256 word"
type_synonym root = hash256

definition saturating_add :: "u64 \<Rightarrow> u64 \<Rightarrow> u64" where
  "saturating_add a b = (if unat a + unat b < 2 ^ 64 then a + b else - 1)"

definition saturating_sub :: "u64 \<Rightarrow> u64 \<Rightarrow> u64" where
  "saturating_sub a b = (if a < b then 0 else a - b)"

definition saturating_mul :: "u64 \<Rightarrow> u64 \<Rightarrow> u64" where
  "saturating_mul a b = (if unat a * unat b < 2 ^ 64 then a * b else - 1)"

definition checked_add :: "u64 \<Rightarrow> u64 \<Rightarrow> u64 option" where
  "checked_add a b = (if unat a + unat b < 2 ^ 64 then Some (a + b) else None)"

text \<open>Evaluation works on binary integers rather than on unary natural numbers.\<close>

lemma unat_bound_uint:
  "unat a + unat b < 2 ^ 64 \<longleftrightarrow> uint a + uint b < 2 ^ 64"
  "unat a * unat b < 2 ^ 64 \<longleftrightarrow> uint a * uint b < 2 ^ 64"
  unfolding uint_nat of_nat_add [symmetric] of_nat_mult [symmetric]
  by (simp_all only: flip: of_nat_less_iff [where ?'a = int]) simp_all

lemma saturating_code [code]:
  "saturating_add a b = (if uint a + uint b < 18446744073709551616 then a + b else - 1)"
  "saturating_mul a b = (if uint a * uint b < 18446744073709551616 then a * b else - 1)"
  "checked_add a b = (if uint a + uint b < 18446744073709551616 then Some (a + b) else None)"
  unfolding saturating_add_def saturating_mul_def checked_add_def unat_bound_uint by simp_all

lemma unat_minus_1_u64 [u64_arith]: "unat (- 1 :: u64) = 2 ^ 64 - 1"
  by (simp add: unsigned_minus_1_eq_mask mask_eq_exp_minus_1)

lemma unat_saturating_add [u64_arith]: "unat (saturating_add a b) = min (unat a + unat b) (2 ^ 64 - 1)"
  by (simp add: saturating_add_def unat_word_ariths unat_minus_1_u64)

lemma unat_saturating_sub [simp, u64_arith]: "unat (saturating_sub a b) = unat a - unat b"
  by (auto simp: saturating_sub_def word_less_nat_alt unat_sub_if')

lemma saturating_sub_le: "saturating_sub a b \<le> a"
  by (simp add: word_le_nat_alt)

lemma unat_saturating_mul [u64_arith]: "unat (saturating_mul a b) = min (unat a * unat b) (2 ^ 64 - 1)"
  by (simp add: saturating_mul_def unat_word_ariths unat_minus_1_u64)

lemma checked_add_Some: "checked_add a b = Some c \<longleftrightarrow> unat a + unat b < 2 ^ 64 \<and> c = a + b"
  by (auto simp: checked_add_def)

lemma checked_add_unat: "checked_add a b = Some c \<Longrightarrow> unat c = unat a + unat b"
  by (auto simp: checked_add_def unat_word_ariths split: if_splits)

lemma u64_less_bound [simp]: "unat (x :: u64) < 18446744073709551616"
  using unsigned_less [of x, where ?'a = nat] by simp

lemma unat_add_u64: "unat a + unat b < 2 ^ 64 \<Longrightarrow> unat (a + b :: u64) = unat a + unat b"
  by (simp add: unat_word_ariths)

lemma unat_mult_u64: "unat a * unat b < 2 ^ 64 \<Longrightarrow> unat (a * b :: u64) = unat a * unat b"
  by (simp add: unat_word_ariths)

lemma unat_Suc_u64: "unat (a :: u64) + 1 < 2 ^ 64 \<Longrightarrow> unat (a + 1) = unat a + 1"
  using unat_add_u64 [of a 1] by simp

lemma unat_word_of_nat_below: "k < unat (n :: u64) \<Longrightarrow> unat (word_of_nat k :: u64) = k"
proof -
  assume "k < unat n"
  also have "unat n < 2 ^ LENGTH(64)" by (rule unsigned_less)
  finally show ?thesis by (simp add: unat_of_nat)
qed

section \<open>Outcomes\<close>

text \<open>
  \<open>('e, 'a) result\<close> is Rust's \<^verbatim>\<open>Result<T, E>\<close>: \<open>Inl\<close> an error, \<open>Inr\<close> a value. A handler that
  takes \<^verbatim>\<open>&mut self\<close> and returns a \<^verbatim>\<open>Result\<close> gives the pair of the result and the state it
  leaves behind, so that what an error path has already written stays visible.
\<close>

type_synonym ('e, 'a) result = "'e + 'a"

definition bind_result :: "('e, 'a) result \<Rightarrow> ('a \<Rightarrow> ('e, 'b) result) \<Rightarrow> ('e, 'b) result" where
  "bind_result m f = (case m of Inl e \<Rightarrow> Inl e | Inr a \<Rightarrow> f a)"

lemma bind_result_simps [simp]:
  "bind_result (Inl e) f = Inl e"
  "bind_result (Inr a) f = f a"
  by (simp_all add: bind_result_def)

lemma bind_result_Inr: "bind_result m f = Inr b \<longleftrightarrow> (\<exists>a. m = Inr a \<and> f a = Inr b)"
  by (cases m) auto

lemma bind_result_cong [fundef_cong]:
  "m = m' \<Longrightarrow> (\<And>a. m' = Inr a \<Longrightarrow> f a = g a) \<Longrightarrow> bind_result m f = bind_result m' g"
  by (cases m') auto

definition ok_or :: "'a option \<Rightarrow> 'e \<Rightarrow> ('e, 'a) result" where
  "ok_or x e = (case x of None \<Rightarrow> Inl e | Some a \<Rightarrow> Inr a)"

lemma ok_or_simps [simp]:
  "ok_or None e = Inl e"
  "ok_or (Some a) e = Inr a"
  by (simp_all add: ok_or_def)

lemma ok_or_Inr: "ok_or x e = Inr a \<longleftrightarrow> x = Some a"
  by (cases x) auto

definition unwrap_or :: "'a option \<Rightarrow> 'a \<Rightarrow> 'a" where
  "unwrap_or x d = (case x of None \<Rightarrow> d | Some a \<Rightarrow> a)"

lemma unwrap_or_simps [simp]:
  "unwrap_or None d = d"
  "unwrap_or (Some a) d = a"
  by (simp_all add: unwrap_or_def)

text \<open>\<^verbatim>\<open>xs.get(i)\<close>: bounds-checked indexing.\<close>

definition nth_opt :: "'a list \<Rightarrow> nat \<Rightarrow> 'a option" where
  "nth_opt xs i = (if i < length xs then Some (xs ! i) else None)"

lemma nth_opt_Some [simp]: "nth_opt xs i = Some x \<longleftrightarrow> i < length xs \<and> xs ! i = x"
  by (simp add: nth_opt_def)

lemma nth_opt_None [simp]: "nth_opt xs i = None \<longleftrightarrow> length xs \<le> i"
  by (auto simp: nth_opt_def)

lemma nth_opt_in_range [simp]: "i < length xs \<Longrightarrow> nth_opt xs i = Some (xs ! i)"
  by simp

section \<open>Iteration\<close>

text \<open>\<open>for x in xs\<close> over a state, where the body may not return.\<close>

fun foldM :: "('a \<Rightarrow> 's \<Rightarrow> 's option) \<Rightarrow> 'a list \<Rightarrow> 's \<Rightarrow> 's option" where
  "foldM f [] s = Some s"
| "foldM f (x # xs) s = do { s' \<leftarrow> f x s; foldM f xs s' }"

text \<open>\<open>for x in xs\<close> over a state, where the body may return early with an error.\<close>

fun foldE :: "('a \<Rightarrow> 's \<Rightarrow> ('e, 's) result) \<Rightarrow> 'a list \<Rightarrow> 's \<Rightarrow> ('e, 's) result" where
  "foldE f [] s = Inr s"
| "foldE f (x # xs) s = bind_result (f x s) (foldE f xs)"

text \<open>\<open>xs.filter(p)\<close> for a predicate that may not return.\<close>

fun filterM :: "('a \<Rightarrow> bool option) \<Rightarrow> 'a list \<Rightarrow> 'a list option" where
  "filterM p [] = Some []"
| "filterM p (x # xs) =
     (case p x of None \<Rightarrow> None
      | Some b \<Rightarrow> (case filterM p xs of None \<Rightarrow> None
                 | Some ys \<Rightarrow> Some (if b then x # ys else ys)))"

text \<open>\<open>xs.map(f).collect()\<close> for a function that may not return.\<close>

fun mapM :: "('a \<Rightarrow> 'b option) \<Rightarrow> 'a list \<Rightarrow> 'b list option" where
  "mapM f [] = Some []"
| "mapM f (x # xs) = do { y \<leftarrow> f x; ys \<leftarrow> mapM f xs; Some (y # ys) }"

text \<open>\<open>xs.map(f).collect::<Result<_, _>>()\<close>, and a loop that pushes \<^verbatim>\<open>f(x)?\<close>.\<close>

fun map_result :: "('a \<Rightarrow> ('e, 'b) result) \<Rightarrow> 'a list \<Rightarrow> ('e, 'b list) result" where
  "map_result f [] = Inr []"
| "map_result f (x # xs) =
     bind_result (f x) (\<lambda>y. bind_result (map_result f xs) (\<lambda>ys. Inr (y # ys)))"

lemma map_result_Inr: "map_result f xs = Inr ys \<longleftrightarrow> list_all2 (\<lambda>x y. f x = Inr y) xs ys"
  by (induction xs arbitrary: ys) (auto simp: bind_result_Inr list_all2_Cons1)

lemma mapM_total:
  "(\<And>x. x \<in> set xs \<Longrightarrow> f x = Some (g x)) \<Longrightarrow> mapM f xs = Some (map g xs)"
  by (induction xs) auto

lemma mapM_Some_iff: "mapM f xs = Some ys \<longleftrightarrow> list_all2 (\<lambda>x y. f x = Some y) xs ys"
  by (induction xs arbitrary: ys) (auto simp: bind_eq_Some_conv list_all2_Cons1)

lemma mapM_cong [fundef_cong]:
  "xs = ys \<Longrightarrow> (\<And>x. x \<in> set ys \<Longrightarrow> f x = g x) \<Longrightarrow> mapM f xs = mapM g ys"
  by (induction ys arbitrary: xs) auto

lemma length_mapM: "mapM f xs = Some ys \<Longrightarrow> length ys = length xs"
  by (simp add: mapM_Some_iff list_all2_lengthD)

lemma mapM_append:
  "mapM f (xs @ ys) = do { us \<leftarrow> mapM f xs; vs \<leftarrow> mapM f ys; Some (us @ vs) }"
  by (induction xs) (auto split: bind_splits)

lemma filterM_total:
  "(\<And>x. x \<in> set xs \<Longrightarrow> p x = Some (q x)) \<Longrightarrow> filterM p xs = Some (filter q xs)"
  by (induction xs) auto

lemma filterM_returns:
  "(\<And>x. x \<in> set xs \<Longrightarrow> \<exists>b. p x = Some b) \<Longrightarrow> \<exists>ys. filterM p xs = Some ys"
  by (induction xs) (force split: option.splits)+

lemma foldM_cong [fundef_cong]:
  "xs = ys \<Longrightarrow> s = t \<Longrightarrow> (\<And>x u. x \<in> set ys \<Longrightarrow> f x u = g x u) \<Longrightarrow> foldM f xs s = foldM g ys t"
proof (induction xs arbitrary: ys s t)
  case (Cons x xs)
  then show ?case by (cases "f x s") auto
qed simp

text \<open>Recursive calls of a \<open>partial_function\<close> may occur in the body of such a loop.\<close>

lemma foldM_mono [partial_function_mono]:
  assumes "\<And>x s. mono_option (\<lambda>F. f F x s)"
  shows "mono_option (\<lambda>F. foldM (f F) xs s)"
proof (induction xs arbitrary: s)
  case (Cons x xs)
  show ?case unfolding foldM.simps by (intro bind_mono assms Cons.IH)
qed (simp add: option.const_mono)

lemma foldM_invariant:
  assumes "foldM f xs s = Some t" and "P s"
    and "\<And>x u v. x \<in> set xs \<Longrightarrow> P u \<Longrightarrow> f x u = Some v \<Longrightarrow> P v"
  shows "P t"
  using assms
proof (induction xs arbitrary: s)
  case (Cons x xs)
  from Cons.prems(1) obtain v where v: "f x s = Some v" "foldM f xs v = Some t"
    by (auto simp: bind_eq_Some_conv)
  from Cons.prems(3) [of x s v] Cons.prems(2) v(1) have "P v" by simp
  with v(2) show ?case using Cons.prems(3) by (intro Cons.IH) auto
qed simp

lemma foldM_returns:
  assumes "\<And>x u. x \<in> set xs \<Longrightarrow> P u \<Longrightarrow> \<exists>v. f x u = Some v \<and> P v" and "P s"
  shows "\<exists>t. foldM f xs s = Some t \<and> P t"
  using assms
proof (induction xs arbitrary: s)
  case (Cons x xs)
  from Cons.prems(1) [of x s] Cons.prems(2) obtain v where v: "f x s = Some v" "P v" by auto
  have "\<exists>t. foldM f xs v = Some t \<and> P t"
    using Cons.prems(1) v(2) by (intro Cons.IH) auto
  with v show ?case by simp
qed simp

lemma foldE_invariant:
  assumes "foldE f xs s = Inr t" and "P s"
    and "\<And>x u v. x \<in> set xs \<Longrightarrow> P u \<Longrightarrow> f x u = Inr v \<Longrightarrow> P v"
  shows "P t"
  using assms
proof (induction xs arbitrary: s)
  case (Cons x xs)
  from Cons.prems(1) obtain v where v: "f x s = Inr v" "foldE f xs v = Inr t"
    by (auto simp: bind_result_Inr)
  from Cons.prems(3) [of x s v] Cons.prems(2) v(1) have "P v" by simp
  with v(2) show ?case using Cons.prems(3) by (intro Cons.IH) auto
qed simp

text \<open>
  Functions that may return an error and may also panic or diverge: \<open>None\<close> does not return,
  \<open>Some (Inl e)\<close> is the error, \<open>Some (Inr a)\<close> the value.
\<close>

definition bind_try :: "('e, 'a) result option \<Rightarrow> ('a \<Rightarrow> ('e, 'b) result option) \<Rightarrow> ('e, 'b) result option" where
  "bind_try m f = (case m of None \<Rightarrow> None | Some (Inl e) \<Rightarrow> Some (Inl e) | Some (Inr a) \<Rightarrow> f a)"

fun fold_try :: "('a \<Rightarrow> 's \<Rightarrow> ('e, 's) result option) \<Rightarrow> 'a list \<Rightarrow> 's \<Rightarrow> ('e, 's) result option" where
  "fold_try f [] s = Some (Inr s)"
| "fold_try f (x # xs) s = bind_try (f x s) (fold_try f xs)"

lemma bind_try_simps [simp]:
  "bind_try None f = None"
  "bind_try (Some (Inl e)) f = Some (Inl e)"
  "bind_try (Some (Inr a)) f = f a"
  by (simp_all add: bind_try_def)

lemma bind_try_Inr: "bind_try m f = Some (Inr b) \<longleftrightarrow> (\<exists>a. m = Some (Inr a) \<and> f a = Some (Inr b))"
  by (auto simp: bind_try_def split: option.splits sum.splits)

lemma bind_try_None: "bind_try m f = None \<longleftrightarrow> m = None \<or> (\<exists>a. m = Some (Inr a) \<and> f a = None)"
  by (auto simp: bind_try_def split: option.splits sum.splits)

lemma bind_try_bind:
  "bind_try m f = Option.bind m (\<lambda>r. case r of Inl e \<Rightarrow> Some (Inl e) | Inr a \<Rightarrow> f a)"
  by (cases m) (auto simp: bind_try_def split: sum.splits)

lemma bind_try_mono [partial_function_mono]:
  assumes "mono_option A" and "\<And>y. mono_option (\<lambda>F. B F y)"
  shows "mono_option (\<lambda>F. bind_try (A F) (\<lambda>y. B F y))"
proof -
  have "mono_option (\<lambda>F. case r of Inl e \<Rightarrow> Some (Inl e) | Inr a \<Rightarrow> B F a)" for r
    by (cases r) (simp_all add: option.const_mono assms(2))
  then show ?thesis
    unfolding bind_try_bind by (intro bind_mono assms(1))
qed

lemma fold_try_invariant:
  assumes "fold_try f xs s = Some (Inr t)" and "P s"
    and "\<And>x u v. x \<in> set xs \<Longrightarrow> P u \<Longrightarrow> f x u = Some (Inr v) \<Longrightarrow> P v"
  shows "P t"
  using assms
proof (induction xs arbitrary: s)
  case (Cons x xs)
  from Cons.prems(1) obtain v where v: "f x s = Some (Inr v)" "fold_try f xs v = Some (Inr t)"
    by (auto simp: bind_try_Inr)
  from Cons.prems(3) [of x s v] Cons.prems(2) v(1) have "P v" by simp
  with v(2) show ?case using Cons.prems(3) by (intro Cons.IH) auto
qed simp

text \<open>
  \<^verbatim>\<open>Iterator::max_by_key\<close>: the last of the elements with the greatest key; \<open>None\<close> on an
  empty iterator.
\<close>

fun max_by_key :: "('a \<Rightarrow> 'k :: linorder) \<Rightarrow> 'a list \<Rightarrow> 'a option" where
  "max_by_key key [] = None"
| "max_by_key key (x # xs) = Some (fold (\<lambda>y best. if key best \<le> key y then y else best) xs x)"

lemma fold_max_by_key:
  "let m = fold (\<lambda>y best. if key best \<le> key y then y else best) xs x
   in m \<in> insert x (set xs) \<and> key x \<le> key m \<and> (\<forall>y \<in> set xs. key y \<le> key m)"
  for key :: "'a \<Rightarrow> 'k :: linorder"
proof (induction xs arbitrary: x)
  case (Cons y xs)
  show ?case
  proof (cases "key x \<le> key y")
    case True
    then show ?thesis using Cons.IH [of y] by (auto simp: Let_def)
  next
    case False
    then show ?thesis using Cons.IH [of x] by (auto simp: Let_def)
  qed
qed simp

lemma max_by_key_Some:
  assumes "max_by_key key xs = Some m"
  shows "m \<in> set xs" and "\<And>x. x \<in> set xs \<Longrightarrow> key x \<le> key m"
  using assms fold_max_by_key [of key _ _] by (cases xs; fastforce simp: Let_def)+

lemma max_by_key_None [simp]: "max_by_key key xs = None \<longleftrightarrow> xs = []"
  by (cases xs) simp_all

text \<open>\<open>xs.windows(2)\<close> all strictly increasing.\<close>

fun strictly_sorted :: "'a :: linorder list \<Rightarrow> bool" where
  "strictly_sorted (x # y # xs) = (x < y \<and> strictly_sorted (y # xs))"
| "strictly_sorted _ = True"

lemma strictly_sorted_iff: "strictly_sorted xs \<longleftrightarrow> sorted_wrt (<) xs"
proof (induction xs rule: strictly_sorted.induct)
  case (1 x y xs)
  then show ?case by (auto dest: order.strict_trans)
qed auto

lemma strictly_sorted_distinct: "strictly_sorted xs \<Longrightarrow> distinct xs"
  by (simp add: strictly_sorted_iff strict_sorted_iff)

section \<open>Sums\<close>

lemma unat_sum_list_u64:
  "(\<Sum>x\<leftarrow>xs. unat (f x)) < 2 ^ 64 \<Longrightarrow> unat (\<Sum>x\<leftarrow>xs. f x :: u64) = (\<Sum>x\<leftarrow>xs. unat (f x))"
proof (induction xs)
  case (Cons x xs)
  have "(\<Sum>x\<leftarrow>xs. unat (f x)) < 2 ^ 64"
    using Cons.prems unfolding list.map sum_list.Cons by linarith
  note Cons.IH [OF this]
  then show ?case using unat_add_u64 [of "f x" "\<Sum>x\<leftarrow>xs. f x"] Cons.prems
    unfolding list.map sum_list.Cons by simp
qed simp

lemma sum_exclusive_le:
  fixes k :: nat
  assumes "distinct cs" and "\<And>c. c \<in> set cs \<Longrightarrow> q c \<Longrightarrow> p"
    and "\<And>c d. c \<in> set cs \<Longrightarrow> d \<in> set cs \<Longrightarrow> q c \<Longrightarrow> q d \<Longrightarrow> c = d"
  shows "(\<Sum>c\<leftarrow>cs. if q c then k else 0) \<le> (if p then k else 0)"
  using assms
proof (induction cs)
  case (Cons c cs)
  show ?case
  proof (cases "q c")
    case True
    then have "\<not> q d" if "d \<in> set cs" for d using Cons.prems(1) Cons.prems(3) [of c d] that by auto
    then have "(\<Sum>c\<leftarrow>cs. if q c then k else 0) = 0" by (auto simp: sum_list_eq_0_iff)
    with True Cons.prems(2) [of c] show ?thesis by simp
  next
    case False
    have "(\<Sum>c\<leftarrow>cs. if q c then k else 0) \<le> (if p then k else 0)"
      using Cons.prems by (intro Cons.IH) auto
    with False show ?thesis by simp
  qed
qed simp

lemma sum_disjoint_filters_le:
  fixes g :: "'a \<Rightarrow> nat"
  assumes "distinct cs" and "\<And>c x. c \<in> set cs \<Longrightarrow> q c x \<Longrightarrow> p x"
    and "\<And>c d x. c \<in> set cs \<Longrightarrow> d \<in> set cs \<Longrightarrow> q c x \<Longrightarrow> q d x \<Longrightarrow> c = d"
  shows "(\<Sum>c\<leftarrow>cs. \<Sum>x\<leftarrow>filter (q c) xs. g x) \<le> (\<Sum>x\<leftarrow>filter p xs. g x)"
proof (induction xs)
  case (Cons x xs)
  have "(\<Sum>c\<leftarrow>cs. \<Sum>x\<leftarrow>filter (q c) (x # xs). g x)
          = (\<Sum>c\<leftarrow>cs. (if q c x then g x else 0) + (\<Sum>x\<leftarrow>filter (q c) xs. g x))"
    by (intro arg_cong [of _ _ sum_list] map_cong) auto
  also have "\<dots> = (\<Sum>c\<leftarrow>cs. if q c x then g x else 0) + (\<Sum>c\<leftarrow>cs. \<Sum>x\<leftarrow>filter (q c) xs. g x)"
    by (rule sum_list_addf)
  also have "\<dots> \<le> (if p x then g x else 0) + (\<Sum>x\<leftarrow>filter p xs. g x)"
    using assms Cons.IH by (intro add_mono sum_exclusive_le) blast+
  also have "\<dots> = (\<Sum>x\<leftarrow>filter p (x # xs). g x)" by simp
  finally show ?case .
qed simp

end
