(* ===== verification/Bytes.thy ===== *)
theory Bytes
  imports Prelude
begin

text \<open>
  Byte strings of machine words: \<^verbatim>\<open>to_le_bytes\<close>, \<^verbatim>\<open>from_le_bytes\<close> and the 32-byte
  array behind \<^verbatim>\<open>Hash256\<close>, the integer and hash helpers built on them in
  \<^verbatim>\<open>src/crates/pharos-stf/src/phase0/helpers.rs\<close> and
  \<^verbatim>\<open>src/crates/pharos-utils/src/hash.rs\<close>.  SHA-256 itself is the \<^verbatim>\<open>sha2\<close> crate: a
  parameter \<open>sha\<close> of every definition that hashes.
\<close>

unbundle bit_operations_syntax

section \<open>Bytes of words\<close>

definition le_bytes :: "nat \<Rightarrow> 'a :: len word \<Rightarrow> u8 list" where
  "le_bytes n w = map (\<lambda>i. ucast (drop_bit (8 * i) w)) [0..<n]"

primrec from_le_bytes :: "u8 list \<Rightarrow> 'a :: len word" where
  "from_le_bytes [] = 0"
| "from_le_bytes (b # bs) = ucast b OR push_bit 8 (from_le_bytes bs)"

definition be_bytes :: "nat \<Rightarrow> 'a :: len word \<Rightarrow> u8 list" where
  "be_bytes n w = rev (le_bytes n w)"

definition hash_bytes :: "hash256 \<Rightarrow> u8 list" where
  "hash_bytes h = be_bytes 32 h"

definition hash_of_bytes :: "u8 list \<Rightarrow> hash256" where
  "hash_of_bytes bs = from_le_bytes (rev bs)"

text \<open>\<^verbatim>\<open>arr[..k].copy_from_slice(bs)\<close> into a zeroed array of \<open>n\<close> bytes.\<close>

definition pad_right :: "nat \<Rightarrow> u8 list \<Rightarrow> u8 list" where
  "pad_right n bs = bs @ replicate (n - length bs) 0"

type_synonym sha256 = "u8 list \<Rightarrow> hash256"

definition hash_concat :: "sha256 \<Rightarrow> hash256 \<Rightarrow> hash256 \<Rightarrow> hash256" where
  "hash_concat sha a b = sha (hash_bytes a @ hash_bytes b)"

definition uint_to_bytes :: "u64 \<Rightarrow> u8 list" where
  "uint_to_bytes n = le_bytes 8 n"

definition bytes_to_uint64 :: "u8 list \<Rightarrow> u64" where
  "bytes_to_uint64 data = from_le_bytes (pad_right 8 (take 8 data))"

definition xor_hash :: "hash256 \<Rightarrow> hash256 \<Rightarrow> hash256" where
  "xor_hash a b = hash_of_bytes (map2 (XOR) (hash_bytes a) (hash_bytes b))"

section \<open>Round trips\<close>

lemma length_le_bytes [simp]: "length (le_bytes n w) = n"
  by (simp add: le_bytes_def)

lemma length_be_bytes [simp]: "length (be_bytes n w) = n"
  by (simp add: be_bytes_def)

lemma length_hash_bytes [simp]: "length (hash_bytes h) = 32"
  by (simp add: hash_bytes_def)

lemma length_pad_right [simp]: "length (pad_right n bs) = max n (length bs)"
  by (auto simp: pad_right_def)

lemma bit_from_le_bytes:
  "bit (from_le_bytes bs :: 'a :: len word) i \<longleftrightarrow>
     i < LENGTH('a) \<and> i div 8 < length bs \<and> bit (bs ! (i div 8)) (i mod 8)"
proof (induction bs arbitrary: i)
  case (Cons b bs)
  show ?case
  proof (cases "i < 8")
    case True
    then show ?thesis
      by (auto simp: bit_simps dest: bit_imp_le_length)
  next
    case False
    then have "i div 8 = Suc ((i - 8) div 8)" "(i - 8) mod 8 = i mod 8"
      by (auto simp: le_div_geq le_mod_geq)
    moreover have "\<not> bit b i"
      using False by (auto dest: bit_imp_le_length)
    ultimately show ?thesis
      using False Cons.IH [of "i - 8"] by (auto simp: bit_simps)
  qed
qed simp

lemma bit_le_bytes_nth:
  "k < n \<Longrightarrow> bit (le_bytes n w ! k) j \<longleftrightarrow> j < 8 \<and> bit w (8 * k + j)"
  by (auto simp: le_bytes_def bit_simps)

lemma from_le_bytes_le_bytes:
  assumes "LENGTH('a) \<le> 8 * n"
  shows "from_le_bytes (le_bytes n (w :: 'a :: len word)) = w"
proof (rule bit_word_eqI)
  fix i assume i: "i < LENGTH('a)"
  with assms have "i div 8 < n" by (simp add: less_mult_imp_div_less mult.commute)
  with i show "bit (from_le_bytes (le_bytes n w) :: 'a word) i \<longleftrightarrow> bit w i"
    by (simp add: bit_from_le_bytes bit_le_bytes_nth)
qed

lemma le_bytes_from_le_bytes:
  assumes "8 * length bs \<le> LENGTH('a)"
  shows "le_bytes (length bs) (from_le_bytes bs :: 'a :: len word) = bs"
proof (rule nth_equalityI)
  fix k assume "k < length (le_bytes (length bs) (from_le_bytes bs :: 'a word))"
  then have k: "k < length bs" by simp
  show "le_bytes (length bs) (from_le_bytes bs :: 'a word) ! k = bs ! k"
  proof (rule bit_word_eqI)
    fix j assume "j < LENGTH(8)"
    then have "j < 8" by simp
    moreover from this k assms have "8 * k + j < LENGTH('a)" by linarith
    ultimately show "bit (le_bytes (length bs) (from_le_bytes bs :: 'a word) ! k) j = bit (bs ! k) j"
      using k by (simp add: bit_le_bytes_nth bit_from_le_bytes)
  qed
qed simp

lemma hash_of_bytes_hash_bytes [simp]: "hash_of_bytes (hash_bytes h) = h"
  by (simp add: hash_of_bytes_def hash_bytes_def be_bytes_def from_le_bytes_le_bytes)

lemma hash_bytes_hash_of_bytes: "length bs = 32 \<Longrightarrow> hash_bytes (hash_of_bytes bs) = bs"
  using le_bytes_from_le_bytes [of "rev bs", where ?'a = 256]
  by (simp add: hash_of_bytes_def hash_bytes_def be_bytes_def)

lemma hash_bytes_inject [simp]: "hash_bytes a = hash_bytes b \<longleftrightarrow> a = b"
  by (metis hash_of_bytes_hash_bytes)

lemma bytes_to_uint64_uint_to_bytes: "bytes_to_uint64 (uint_to_bytes n) = n"
  by (simp add: bytes_to_uint64_def uint_to_bytes_def pad_right_def from_le_bytes_le_bytes)

lemma uint_to_bytes_bytes_to_uint64: "length bs = 8 \<Longrightarrow> uint_to_bytes (bytes_to_uint64 bs) = bs"
  using le_bytes_from_le_bytes [of bs, where ?'a = 64]
  by (simp add: bytes_to_uint64_def uint_to_bytes_def pad_right_def)

lemma xor_hash_eq: "xor_hash a b = a XOR b"
proof -
  have "map2 (XOR) (hash_bytes a) (hash_bytes b) = hash_bytes (a XOR b)"
  proof (rule nth_equalityI)
    fix k assume "k < length (map2 (XOR) (hash_bytes a) (hash_bytes b))"
    then have "k < 32" by simp
    then show "map2 (XOR) (hash_bytes a) (hash_bytes b) ! k = hash_bytes (a XOR b) ! k"
      by (intro bit_word_eqI) (simp add: hash_bytes_def be_bytes_def rev_nth bit_le_bytes_nth bit_xor_iff)
  qed simp
  then show ?thesis by (simp add: xor_hash_def)
qed

end
