(* ===== verification/Ssz_Merkle.thy ===== *)
theory Ssz_Merkle
  imports Bytes
begin

text \<open>
  Merkleization and single-leaf Merkle proofs of \<^verbatim>\<open>src/crates/pharos-ssz\<close>:
  \<^verbatim>\<open>tree_hash.rs\<close>, \<^verbatim>\<open>gindex.rs\<close> and \<^verbatim>\<open>merkle_proof.rs\<close>.

  The bottom-up level loop of \<^verbatim>\<open>merkleize_padded_inner\<close>, which never materialises the
  padding, is proved equal to the root of the fully padded binary tree.  Proofs built
  by \<^verbatim>\<open>build_single_proof_from_leaves\<close> verify, and a leaf other than the committed one
  verifies only together with a collision of the hash.  \<open>None\<close> stands for a failed
  \<^verbatim>\<open>assert!\<close>; lengths (\<^verbatim>\<open>usize\<close>) are naturals, and the theorems bound them by
  \<open>2 ^ 63\<close>, the largest power of two the target's \<^verbatim>\<open>usize\<close> holds.
\<close>

unbundle bit_operations_syntax

section \<open>Merkleization\<close>

primrec zero_hashes :: "sha256 \<Rightarrow> nat \<Rightarrow> hash256" where
  "zero_hashes sha 0 = 0"
| "zero_hashes sha (Suc d) = hash_concat sha (zero_hashes sha d) (zero_hashes sha d)"

definition zero_hash :: "sha256 \<Rightarrow> nat \<Rightarrow> hash256 option" where
  "zero_hash sha depth = (if depth < 64 then Some (zero_hashes sha depth) else None)"

fun next_pow_of_two :: "nat \<Rightarrow> nat" where
  "next_pow_of_two n = (if n \<le> 1 then 1 else 2 * next_pow_of_two ((n + 1) div 2))"

declare next_pow_of_two.simps [simp del]

fun trailing_zeros :: "nat \<Rightarrow> nat" where
  "trailing_zeros n = (if n = 0 then 64 else if odd n then 0 else Suc (trailing_zeros (n div 2)))"

declare trailing_zeros.simps [simp del]

fun pack_bytes_to_chunks :: "u8 list \<Rightarrow> hash256 list" where
  "pack_bytes_to_chunks [] = []"
| "pack_bytes_to_chunks (b # bs) =
     hash_of_bytes (pad_right 32 (take 32 (b # bs))) # pack_bytes_to_chunks (drop 31 bs)"

text \<open>One pass of the level loop at height \<open>depth\<close>; an odd last node is paired with a zero subtree.\<close>

fun merkle_level :: "sha256 \<Rightarrow> nat \<Rightarrow> hash256 list \<Rightarrow> hash256 list option" where
  "merkle_level sha depth (a # b # xs) =
     do { ys \<leftarrow> merkle_level sha depth xs; Some (hash_concat sha a b # ys) }"
| "merkle_level sha depth [a] = do { z \<leftarrow> zero_hash sha depth; Some [hash_concat sha a z] }"
| "merkle_level sha depth [] = Some []"

definition merkleize_padded_inner :: "sha256 \<Rightarrow> hash256 list \<Rightarrow> nat \<Rightarrow> hash256 option" where
  "merkleize_padded_inner sha chunks padded_len =
     (let total_depth = trailing_zeros padded_len in
      if chunks = [] then zero_hash sha total_depth
      else do {
        current \<leftarrow> foldM (merkle_level sha) [0..<total_depth] chunks;
        (case current of [] \<Rightarrow> None | r # _ \<Rightarrow> Some r)
      })"

definition merkleize :: "sha256 \<Rightarrow> hash256 list \<Rightarrow> hash256 option" where
  "merkleize sha chunks =
     (if chunks = [] then zero_hash sha 0
      else merkleize_padded_inner sha chunks (next_pow_of_two (length chunks)))"

definition merkleize_padded :: "sha256 \<Rightarrow> hash256 list \<Rightarrow> nat \<Rightarrow> hash256 option" where
  "merkleize_padded sha chunks limit =
     (if limit < length chunks then None
      else if chunks = [] \<and> limit = 0 then zero_hash sha 0
      else merkleize_padded_inner sha chunks (next_pow_of_two (max limit 1)))"

definition mix_in_length :: "sha256 \<Rightarrow> hash256 \<Rightarrow> u64 \<Rightarrow> hash256" where
  "mix_in_length sha r len = sha (hash_bytes r @ pad_right 32 (le_bytes 8 len))"

definition mix_in_selector :: "sha256 \<Rightarrow> hash256 \<Rightarrow> u8 \<Rightarrow> hash256" where
  "mix_in_selector sha r selector = sha (hash_bytes r @ pad_right 32 [selector])"

text \<open>\<^verbatim>\<open>tree_hash_root\<close> of the basic types, and of byte strings longer than one chunk.\<close>

definition uint64_root :: "u64 \<Rightarrow> hash256" where
  "uint64_root n = hash_of_bytes (pad_right 32 (le_bytes 8 n))"

definition bool_root :: "bool \<Rightarrow> hash256" where
  "bool_root b = hash_of_bytes (pad_right 32 [if b then 1 else 0])"

definition fixed_bytes_root :: "sha256 \<Rightarrow> u8 list \<Rightarrow> hash256 option" where
  "fixed_bytes_root sha bs = merkleize sha (pack_bytes_to_chunks bs)"

section \<open>Generalized indices\<close>

fun bit_length :: "nat \<Rightarrow> nat" where
  "bit_length n = (if n = 0 then 0 else Suc (bit_length (n div 2)))"

declare bit_length.simps [simp del]

definition get_generalized_index_length :: "u64 \<Rightarrow> nat option" where
  "get_generalized_index_length g = (if g < 1 then None else Some (bit_length (unat g) - 1))"

definition get_generalized_index_bit :: "u64 \<Rightarrow> nat \<Rightarrow> bool" where
  "get_generalized_index_bit g pos \<longleftrightarrow> drop_bit pos g AND 1 = 1"

definition generalized_index_sibling :: "u64 \<Rightarrow> u64" where
  "generalized_index_sibling g = g XOR 1"

definition generalized_index_parent :: "u64 \<Rightarrow> u64" where
  "generalized_index_parent g = g div 2"

definition generalized_index_child :: "u64 \<Rightarrow> bool \<Rightarrow> u64" where
  "generalized_index_child g right_side = g * 2 + (if right_side then 1 else 0)"

definition concat_generalized_indices :: "u64 \<Rightarrow> u64 \<Rightarrow> u64 option" where
  "concat_generalized_indices parent child =
     (if parent < 1 then None else do {
        child_depth \<leftarrow> get_generalized_index_length child;
        let next_pow = push_bit child_depth 1;
        let child_path_bits = child XOR next_pow;
        Some (parent * next_pow + child_path_bits)
      })"

section \<open>Proofs\<close>

record merkle_proof =
  mp_leaf :: hash256
  mp_branch :: "hash256 list"
  mp_index :: u64

text \<open>The loop of \<^verbatim>\<open>verify_merkle_proof\<close> on the pair of \<^verbatim>\<open>current\<close> and \<^verbatim>\<open>index\<close>.\<close>

fun branch_root :: "sha256 \<Rightarrow> hash256 list \<Rightarrow> hash256 \<Rightarrow> u64 \<Rightarrow> hash256" where
  "branch_root sha [] current index = current"
| "branch_root sha (sibling # branch) current index =
     branch_root sha branch
       (if index AND 1 = 1 then hash_concat sha sibling current else hash_concat sha current sibling)
       (index div 2)"

definition verify_merkle_proof :: "sha256 \<Rightarrow> hash256 \<Rightarrow> merkle_proof \<Rightarrow> bool option" where
  "verify_merkle_proof sha r p =
     do {
       depth \<leftarrow> get_generalized_index_length (mp_index p);
       Some (if length (mp_branch p) \<noteq> depth then False
             else branch_root sha (mp_branch p) (mp_leaf p) (mp_index p) = r)
     }"

fun chunk_pairs :: "sha256 \<Rightarrow> hash256 list \<Rightarrow> hash256 list" where
  "chunk_pairs sha (a # b # xs) = hash_concat sha a b # chunk_pairs sha xs"
| "chunk_pairs sha _ = []"

lemma length_chunk_pairs [simp]: "length (chunk_pairs sha xs) = length xs div 2"
  by (induction sha xs rule: chunk_pairs.induct) auto

function proof_branch :: "sha256 \<Rightarrow> hash256 list \<Rightarrow> nat \<Rightarrow> hash256 list" where
  "proof_branch sha cur_layer cur_pos =
     (if length cur_layer \<le> 1 then []
      else cur_layer ! (cur_pos XOR 1)
           # proof_branch sha (chunk_pairs sha cur_layer) (cur_pos div 2))"
  by auto
termination by (relation "measure (\<lambda>(sha, layer, pos). length layer)") auto

declare proof_branch.simps [simp del]

definition build_single_proof_from_leaves ::
  "sha256 \<Rightarrow> hash256 list \<Rightarrow> u64 \<Rightarrow> merkle_proof option" where
  "build_single_proof_from_leaves sha leaves index =
     (let n = next_pow_of_two (max (length leaves) 1) in
      if \<not> (n \<le> unat index \<and> unat index - n < n) then None
      else
        let leaf_pos = unat index - n;
            layer = leaves @ replicate (n - length leaves) 0
        in Some \<lparr>mp_leaf = layer ! leaf_pos,
                 mp_branch = proof_branch sha layer leaf_pos,
                 mp_index = index\<rparr>)"

section \<open>The reference tree\<close>

text \<open>The root of a perfect binary tree of height \<open>d\<close> over \<open>2 ^ d\<close> leaves, by splitting in half.\<close>

primrec tree_root :: "sha256 \<Rightarrow> nat \<Rightarrow> hash256 list \<Rightarrow> hash256" where
  "tree_root sha 0 xs = hd xs"
| "tree_root sha (Suc d) xs =
     hash_concat sha (tree_root sha d (take (2 ^ d) xs)) (tree_root sha d (drop (2 ^ d) xs))"

definition pad_chunks :: "sha256 \<Rightarrow> nat \<Rightarrow> nat \<Rightarrow> hash256 list \<Rightarrow> hash256 list" where
  "pad_chunks sha k n xs = xs @ replicate (n - length xs) (zero_hashes sha k)"

lemma chunk_pairs_append:
  "even (length xs) \<Longrightarrow> chunk_pairs sha (xs @ ys) = chunk_pairs sha xs @ chunk_pairs sha ys"
  by (induction sha xs rule: chunk_pairs.induct) auto

lemma chunk_pairs_take:
  "chunk_pairs sha (take (2 * n) xs) = take n (chunk_pairs sha xs)"
proof (induction sha xs arbitrary: n rule: chunk_pairs.induct)
  case (1 sha a b xs)
  then show ?case by (cases n) auto
qed (auto simp: take_Cons')

lemma chunk_pairs_drop:
  "chunk_pairs sha (drop (2 * n) xs) = drop n (chunk_pairs sha xs)"
proof (induction sha xs arbitrary: n rule: chunk_pairs.induct)
  case (1 sha a b xs)
  then show ?case by (cases n) auto
qed (auto simp: drop_Cons')

lemma chunk_pairs_replicate:
  "chunk_pairs sha (replicate (2 * n) z) = replicate n (hash_concat sha z z)"
  by (induction n) auto

lemma tree_root_Suc_pairs:
  "length xs = 2 ^ Suc d \<Longrightarrow> tree_root sha (Suc d) xs = tree_root sha d (chunk_pairs sha xs)"
proof (induction d arbitrary: xs)
  case 0
  then obtain a b where "xs = [a, b]"
    by (auto simp: length_Suc_conv numeral_2_eq_2)
  then show ?case by simp
next
  case (Suc d)
  have half: "length (take (2 ^ Suc d) xs) = 2 ^ Suc d" "length (drop (2 ^ Suc d) xs) = 2 ^ Suc d"
    using Suc.prems by simp_all
  have "tree_root sha (Suc (Suc d)) xs =
          hash_concat sha (tree_root sha d (chunk_pairs sha (take (2 ^ Suc d) xs)))
            (tree_root sha d (chunk_pairs sha (drop (2 ^ Suc d) xs)))"
    using Suc.IH [OF half(1)] Suc.IH [OF half(2)] by (simp only: tree_root.simps(2) [of sha "Suc d"])
  then show ?case
    using chunk_pairs_take [of sha "2 ^ d" xs] chunk_pairs_drop [of sha "2 ^ d" xs] by simp
qed

section \<open>Level loop and padded tree agree\<close>

lemma merkle_level_pad:
  assumes "k < 64" and "length xs \<le> 2 * n"
  shows "\<exists>ys. merkle_level sha k xs = Some ys \<and> length ys = (length xs + 1) div 2
          \<and> chunk_pairs sha (pad_chunks sha k (2 * n) xs) = pad_chunks sha (Suc k) n ys"
  using assms
proof (induction sha k xs arbitrary: n rule: merkle_level.induct)
  case (1 sha depth a b xs)
  from 1 obtain m where n: "n = Suc m" by (cases n) auto
  with 1 have "length xs \<le> 2 * m" by simp
  from 1(1) [OF \<open>depth < 64\<close> this] obtain ys
    where "merkle_level sha depth xs = Some ys" "length ys = (length xs + 1) div 2"
      "chunk_pairs sha (pad_chunks sha depth (2 * m) xs) = pad_chunks sha (Suc depth) m ys" by auto
  then show ?case by (simp add: n pad_chunks_def)
next
  case (2 sha depth a)
  then obtain m where n: "n = Suc m" by (cases n) auto
  have "replicate (2 * n - Suc 0) (zero_hashes sha depth)
          = zero_hashes sha depth # replicate (2 * m) (zero_hashes sha depth)"
    by (simp add: n)
  with 2 show ?case by (simp add: pad_chunks_def zero_hash_def n chunk_pairs_replicate)
next
  case (3 sha depth)
  then show ?case by (simp add: pad_chunks_def chunk_pairs_replicate)
qed

lemma tree_root_zero_hashes:
  "tree_root sha d (replicate (2 ^ d) (zero_hashes sha k)) = zero_hashes sha (k + d)"
proof (induction d)
  case (Suc d)
  have "min (2 ^ d) (2 ^ d + 2 ^ d) = (2 :: nat) ^ d" by simp
  then show ?case using Suc by (simp add: mult_2 min.commute)
qed simp

lemma merkle_levels_root:
  assumes "xs \<noteq> []" and "length xs \<le> 2 ^ d" and "k + d \<le> 64"
  shows "\<exists>r rs. foldM (merkle_level sha) [k..<k + d] xs = Some (r # rs)
          \<and> r = tree_root sha d (pad_chunks sha k (2 ^ d) xs)"
  using assms
proof (induction d arbitrary: k xs)
  case 0
  then obtain a where "xs = [a]" by (cases xs) auto
  then show ?case by (simp add: pad_chunks_def)
next
  case (Suc d)
  have "k < 64" "length xs \<le> 2 * 2 ^ d" using Suc.prems by simp_all
  from merkle_level_pad [OF this, of sha] obtain ys where ys: "merkle_level sha k xs = Some ys"
    "length ys = (length xs + 1) div 2"
    "chunk_pairs sha (pad_chunks sha k (2 * 2 ^ d) xs) = pad_chunks sha (Suc k) (2 ^ d) ys"
    by auto
  have "ys \<noteq> []" "length ys \<le> 2 ^ d" "Suc k + d \<le> 64"
    using ys(2) Suc.prems by (cases xs; fastforce)+
  from Suc.IH [OF this] obtain r rs
    where r: "foldM (merkle_level sha) [Suc k..<Suc k + d] ys = Some (r # rs)"
      "r = tree_root sha d (pad_chunks sha (Suc k) (2 ^ d) ys)" by auto
  have "[k..<k + Suc d] = k # [Suc k..<Suc k + d]" by (simp add: upt_rec)
  moreover have "tree_root sha (Suc d) (pad_chunks sha k (2 ^ Suc d) xs) = r"
    using tree_root_Suc_pairs [of "pad_chunks sha k (2 ^ Suc d) xs" d sha] Suc.prems(2) ys(3) r(2)
    by (simp add: pad_chunks_def)
  ultimately show ?case using ys(1) r(1) by auto
qed

lemma trailing_zeros_power: "trailing_zeros (2 ^ d) = d"
  by (induction d) (simp_all add: trailing_zeros.simps)

lemma next_pow_of_two_le_1 [simp]: "n \<le> 1 \<Longrightarrow> next_pow_of_two n = 1"
  by (subst next_pow_of_two.simps) simp

lemma next_pow_of_two_ex:
  "\<exists>d. next_pow_of_two n = 2 ^ d \<and> n \<le> 2 ^ d \<and> (\<forall>e. n \<le> 2 ^ e \<longrightarrow> d \<le> e)"
proof (induction n rule: next_pow_of_two.induct)
  case (1 n)
  show ?case
  proof (cases "n \<le> 1")
    case True
    then show ?thesis by (intro exI [of _ 0]) simp
  next
    case False
    with 1 obtain d where d: "next_pow_of_two ((n + 1) div 2) = 2 ^ d" "(n + 1) div 2 \<le> 2 ^ d"
      "\<And>e. (n + 1) div 2 \<le> 2 ^ e \<Longrightarrow> d \<le> e" by auto
    have "Suc d \<le> e" if "n \<le> 2 ^ e" for e
    proof (cases e)
      case (Suc f)
      with that have "(n + 1) div 2 \<le> 2 ^ f" by simp
      with d(3) Suc show ?thesis by simp
    qed (use that False in simp)
    moreover have "n \<le> 2 * 2 ^ d" using d(2) by simp
    ultimately show ?thesis using d(1) False
      by (intro exI [of _ "Suc d"]) (subst next_pow_of_two.simps, simp)
  qed
qed

lemma merkleize_padded_inner_root:
  assumes "length chunks \<le> 2 ^ d" and "d < 64"
  shows "merkleize_padded_inner sha chunks (2 ^ d)
           = Some (tree_root sha d (pad_chunks sha 0 (2 ^ d) chunks))"
proof (cases "chunks = []")
  case True
  with assms show ?thesis
    by (simp add: merkleize_padded_inner_def trailing_zeros_power zero_hash_def pad_chunks_def
        tree_root_zero_hashes [where k = 0, simplified])
next
  case False
  with merkle_levels_root [of chunks d 0 sha] assms show ?thesis
    by (auto simp: merkleize_padded_inner_def trailing_zeros_power)
qed

section \<open>Proof branches\<close>

lemma and_one_eq_one_iff: "index AND 1 = 1 \<longleftrightarrow> odd (unat index)" for index :: u64
  by (simp add: and_one_eq word_unat_eq_iff unat_mod odd_iff_mod_2_eq_one)

lemma nat_xor_one: "(n :: nat) XOR 1 = (if even n then n + 1 else n - 1)"
proof (cases "even n")
  case True
  then obtain m where "n = 2 * m" by auto
  then show ?thesis by (cases "m = 0") (simp_all add: xor_nat_unfold [of "2 * m" "Suc 0"])
next
  case False
  then obtain m where "n = 2 * m + 1" by (auto elim: oddE)
  then show ?thesis by (simp add: xor_nat_unfold [of "Suc (2 * m)" "Suc 0"])
qed

lemma chunk_pairs_nth:
  "2 * i + 1 < length xs \<Longrightarrow> chunk_pairs sha xs ! i = hash_concat sha (xs ! (2 * i)) (xs ! (2 * i + 1))"
proof (induction sha xs arbitrary: i rule: chunk_pairs.induct)
  case (1 sha a b xs)
  then show ?case by (cases i) auto
qed auto

text \<open>The node above position \<open>pos\<close> is hashed from \<open>pos\<close> and its sibling, in the order the parity gives.\<close>

lemma chunk_pairs_parent:
  assumes "even (length xs)" and "pos < length xs"
  shows "chunk_pairs sha xs ! (pos div 2) =
           (if odd pos then hash_concat sha (xs ! (pos XOR 1)) (xs ! pos)
            else hash_concat sha (xs ! pos) (xs ! (pos XOR 1)))"
proof (cases "even pos")
  case True
  then obtain i where i: "pos = 2 * i" by auto
  with assms have "2 * i + 1 < length xs" by (auto elim!: evenE)
  then show ?thesis using i chunk_pairs_nth [of i xs sha] by (simp only: nat_xor_one) simp
next
  case False
  then obtain i where i: "pos = 2 * i + 1" by (auto elim: oddE)
  then show ?thesis using assms(2) chunk_pairs_nth [of i xs sha] by (simp only: nat_xor_one) simp
qed

lemma branch_root_proof_branch:
  assumes "length layer = 2 ^ d" and "unat index = 2 ^ d + pos" and "pos < 2 ^ d"
  shows "length (proof_branch sha layer pos) = d
         \<and> branch_root sha (proof_branch sha layer pos) (layer ! pos) index = tree_root sha d layer"
  using assms
proof (induction d arbitrary: layer index pos)
  case 0
  then obtain a where "layer = [a]" by (auto simp: length_Suc_conv)
  with 0 show ?case by (simp add: proof_branch.simps)
next
  case (Suc d)
  let ?up = "chunk_pairs sha layer"
  have len: "length ?up = 2 ^ d" and idx: "unat (index div 2) = 2 ^ d + pos div 2"
    and pos: "pos div 2 < 2 ^ d" using Suc.prems by (simp_all add: unat_div)
  have "odd (unat index) \<longleftrightarrow> odd pos" using Suc.prems(2) by simp
  moreover have "?up ! (pos div 2) =
           (if odd pos then hash_concat sha (layer ! (pos XOR 1)) (layer ! pos)
            else hash_concat sha (layer ! pos) (layer ! (pos XOR 1)))"
    using Suc.prems by (intro chunk_pairs_parent) simp_all
  moreover have "proof_branch sha layer pos
                   = layer ! (pos XOR 1) # proof_branch sha ?up (pos div 2)"
    using Suc.prems(1) by (subst proof_branch.simps) (simp add: not_le Suc_lessI)
  moreover have "tree_root sha (Suc d) layer = tree_root sha d ?up"
    using Suc.prems(1) by (rule tree_root_Suc_pairs)
  ultimately show ?case using Suc.IH [OF len idx pos]
    by (cases "odd pos") (simp_all add: and_one_eq_one_iff)
qed

lemma bit_length_power_add: "k < 2 ^ d \<Longrightarrow> bit_length (2 ^ d + k) = Suc d"
proof (induction d arbitrary: k)
  case 0
  then show ?case by (simp add: bit_length.simps)
next
  case (Suc d)
  have "(2 ^ Suc d + k) div 2 = 2 ^ d + k div 2" by simp
  moreover have "k div 2 < 2 ^ d" using Suc.prems by simp
  ultimately show ?case using Suc.IH [of "k div 2"] by (subst bit_length.simps) simp
qed

text \<open>
  The byte strings that climbing a branch hashes, from the leaf up.  Two branches of equal length that
  reach one root are equal, or two of these strings, at one height, are a collision of the hash.
\<close>

fun branch_inputs :: "sha256 \<Rightarrow> hash256 list \<Rightarrow> hash256 \<Rightarrow> u64 \<Rightarrow> u8 list list" where
  "branch_inputs sha [] current index = []"
| "branch_inputs sha (sibling # branch) current index =
     (let input = if index AND 1 = 1 then hash_bytes sibling @ hash_bytes current
                  else hash_bytes current @ hash_bytes sibling
      in input # branch_inputs sha branch (sha input) (index div 2))"

definition collision_between :: "sha256 \<Rightarrow> u8 list list \<Rightarrow> u8 list list \<Rightarrow> bool" where
  "collision_between sha xs ys \<longleftrightarrow> list_ex (\<lambda>(x, y). x \<noteq> y \<and> sha x = sha y) (zip xs ys)"

lemma collision_between_simps [simp]:
  "\<not> collision_between sha [] ys"
  "collision_between sha (x # xs) (y # ys) \<longleftrightarrow> x \<noteq> y \<and> sha x = sha y \<or> collision_between sha xs ys"
  by (simp_all add: collision_between_def)

lemma hash_bytes_append_inject: "hash_bytes a @ hash_bytes b = hash_bytes c @ hash_bytes d \<longleftrightarrow> a = c \<and> b = d"
  by (metis append_eq_append_conv hash_bytes_inject length_hash_bytes)

lemma branch_root_binding:
  assumes "length bs = length cs" and "branch_root sha bs x index = branch_root sha cs y index"
  shows "(x = y \<and> bs = cs) \<or> collision_between sha (branch_inputs sha bs x index) (branch_inputs sha cs y index)"
  using assms
proof (induction bs cs arbitrary: x y index rule: list_induct2)
  case (Cons b bs c cs)
  let ?i = "\<lambda>s x. if index AND 1 = 1 then hash_bytes s @ hash_bytes x else hash_bytes x @ hash_bytes s"
  have "branch_root sha bs (sha (?i b x)) (index div 2) = branch_root sha cs (sha (?i c y)) (index div 2)"
    using Cons.prems by (simp add: hash_concat_def split: if_splits)
  from Cons.IH [OF this] show ?case
    by (auto simp: Let_def hash_bytes_append_inject)
qed simp

section \<open>Properties\<close>

text \<open>C38: \<^verbatim>\<open>merkleize_padded\<close> computes the root of the perfect binary tree whose leaves are the
  chunks followed by zero chunks up to the least power of two that holds the limit, although it never
  builds the padding; it panics only when there are more chunks than the limit.\<close>

theorem merkleize_padded_is_padded_tree:
  assumes "length chunks \<le> limit" and "limit \<le> 2 ^ 63"
  shows "\<exists>d. next_pow_of_two limit = 2 ^ d \<and> limit \<le> 2 ^ d \<and> (\<forall>e. limit \<le> 2 ^ e \<longrightarrow> d \<le> e)
           \<and> merkleize_padded sha chunks limit
               = Some (tree_root sha d (chunks @ replicate (2 ^ d - length chunks) 0))"
proof -
  from next_pow_of_two_ex [of limit] obtain d
    where d: "next_pow_of_two limit = 2 ^ d" "limit \<le> 2 ^ d" "\<And>e. limit \<le> 2 ^ e \<Longrightarrow> d \<le> e" by auto
  have "d < 64" using d(3) [OF assms(2)] by simp
  have inner: "merkleize_padded_inner sha chunks (2 ^ d)
                 = Some (tree_root sha d (chunks @ replicate (2 ^ d - length chunks) 0))"
    using merkleize_padded_inner_root [of chunks d sha] \<open>d < 64\<close> assms(1) d(2)
    by (simp add: pad_chunks_def)
  have zero: "d = 0" if "limit = 0" using d(3) [of 0] that by simp
  have "next_pow_of_two (max limit 1) = 2 ^ d"
    using d(1) zero by (cases "limit = 0") (simp_all add: max_absorb1)
  then have "merkleize_padded sha chunks limit
               = Some (tree_root sha d (chunks @ replicate (2 ^ d - length chunks) 0))"
    using inner zero assms(1) by (auto simp: merkleize_padded_def zero_hash_def)
  with d show ?thesis by auto
qed

text \<open>Witness: three chunks under limit 4.\<close>

theorem merkleize_padded_is_padded_tree_witness:
  "merkleize_padded (\<lambda>bs. hash_of_bytes (take 32 bs)) [1, 2, 3] 4 = Some 1"
proof -
  let ?sha = "\<lambda>bs. hash_of_bytes (take 32 bs)"
  have "length [1, 2, 3 :: hash256] \<le> 4" "4 \<le> (2 :: nat) ^ 63" by simp_all
  from merkleize_padded_is_padded_tree [OF this, of ?sha] obtain d where d: "next_pow_of_two 4 = 2 ^ d"
    "merkleize_padded ?sha [1, 2, 3] 4
       = Some (tree_root ?sha d ([1, 2, 3] @ replicate (2 ^ d - length [1, 2, 3 :: hash256]) 0))"
    by blast
  from d(1) have "(2 :: nat) ^ d = 2 ^ 2" by (simp add: next_pow_of_two.simps)
  then have "d = 2" by (subst (asm) power_inject_exp) simp_all
  with d(2) show ?thesis by (simp add: eval_nat_numeral hash_concat_def)
qed

text \<open>C39: \<^verbatim>\<open>build_single_proof_from_leaves\<close> panics exactly when the index is not a position of the padded
  leaf layer; otherwise the proof carries the leaf at that position, or the zero hash at a position of
  the padding, and verifies against \<^verbatim>\<open>merkleize\<close> of the leaves.  The doc comment of the function says that
  it panics at the padding positions too; the assertion in its body does not test for them.\<close>

theorem built_proof_verifies:
  fixes leaves :: "hash256 list"
  defines "n \<equiv> next_pow_of_two (length leaves)"
  assumes "leaves \<noteq> []" and "length leaves \<le> 2 ^ 62"
  shows "case build_single_proof_from_leaves sha leaves index of
           None \<Rightarrow> unat index < n \<or> 2 * n \<le> unat index
         | Some p \<Rightarrow> n \<le> unat index \<and> unat index < 2 * n
             \<and> mp_leaf p = (if unat index - n < length leaves then leaves ! (unat index - n) else 0)
             \<and> (\<exists>r. merkleize sha leaves = Some r \<and> verify_merkle_proof sha r p = Some True)"
proof -
  have n: "next_pow_of_two (max (length leaves) (Suc 0)) = n" using assms(2) by (cases leaves) (simp_all add: n_def)
  show ?thesis
  proof (cases "n \<le> unat index \<and> unat index < 2 * n")
    case False
    then have "build_single_proof_from_leaves sha leaves index = None"
      by (auto simp: build_single_proof_from_leaves_def n Let_def)
    then show ?thesis using False by auto
  next
    case True
    from next_pow_of_two_ex [of "length leaves"] obtain d
      where d: "n = 2 ^ d" "length leaves \<le> 2 ^ d" "\<And>e. length leaves \<le> 2 ^ e \<Longrightarrow> d \<le> e"
      by (auto simp: n_def)
    have "d < 64" using d(3) [OF assms(3)] by simp
    define layer where "layer = leaves @ replicate (2 ^ d - length leaves) 0"
    define pos where "pos = unat index - 2 ^ d"
    have len: "length layer = 2 ^ d" using d(2) by (simp add: layer_def)
    have idx: "unat index = 2 ^ d + pos" "pos < 2 ^ d" using True d(1) unfolding pos_def by linarith+
    let ?p = "\<lparr>mp_leaf = layer ! pos, mp_branch = proof_branch sha layer pos, mp_index = index\<rparr>"
    have "merkleize sha leaves = Some (tree_root sha d layer)"
      using merkleize_padded_inner_root [OF d(2) \<open>d < 64\<close>] assms(2) d(1)
      by (simp add: merkleize_def pad_chunks_def layer_def flip: n_def)
    moreover have "get_generalized_index_length index = Some d"
      using idx bit_length_power_add [OF idx(2)]
      by (auto simp: get_generalized_index_length_def word_less_nat_alt)
    then have "verify_merkle_proof sha (tree_root sha d layer) ?p = Some True"
      using branch_root_proof_branch [OF len idx, of sha] by (simp add: verify_merkle_proof_def)
    moreover have "layer ! pos = (if pos < length leaves then leaves ! pos else 0)"
      using idx(2) len by (simp add: layer_def nth_append)
    moreover have "build_single_proof_from_leaves sha leaves index = Some ?p"
      using d(1) idx by (simp add: build_single_proof_from_leaves_def n Let_def layer_def)
    ultimately show ?thesis using True d(1) unfolding pos_def by simp
  qed
qed

theorem built_proof_verifies_witness:
  "\<exists>p q r. build_single_proof_from_leaves (\<lambda>bs. hash_of_bytes (take 32 bs)) [7, 8, 9] 6 = Some p
     \<and> mp_leaf p = 9 \<and> verify_merkle_proof (\<lambda>bs. hash_of_bytes (take 32 bs)) r p = Some True
     \<and> build_single_proof_from_leaves (\<lambda>bs. hash_of_bytes (take 32 bs)) [7, 8, 9] 7 = Some q
     \<and> mp_leaf q = 0 \<and> verify_merkle_proof (\<lambda>bs. hash_of_bytes (take 32 bs)) r q = Some True"
proof -
  have n: "next_pow_of_two (length [7, 8, 9 :: hash256]) = 4" by (simp add: next_pow_of_two.simps)
  show ?thesis
    using built_proof_verifies [of "[7, 8, 9]" 6 "\<lambda>bs. hash_of_bytes (take 32 bs)", unfolded n]
      built_proof_verifies [of "[7, 8, 9]" 7 "\<lambda>bs. hash_of_bytes (take 32 bs)", unfolded n]
    by (auto split: option.splits)
qed

text \<open>Merkle proofs are binding: when two proofs for one generalized index verify against
  the same root, they carry the same leaf and the same branch, or, at some height, the two climbs
  hash different byte strings to the same digest.\<close>

theorem verified_proofs_agree:
  assumes "verify_merkle_proof sha r p = Some True"
    and "verify_merkle_proof sha r q = Some True"
    and "mp_index p = mp_index q"
  shows "(mp_leaf p = mp_leaf q \<and> mp_branch p = mp_branch q)
       \<or> collision_between sha (branch_inputs sha (mp_branch p) (mp_leaf p) (mp_index p))
                               (branch_inputs sha (mp_branch q) (mp_leaf q) (mp_index q))"
  using assms branch_root_binding [of "mp_branch p" "mp_branch q" sha "mp_leaf p" "mp_index p" "mp_leaf q"]
  by (auto simp: verify_merkle_proof_def bind_eq_Some_conv split: if_splits)

theorem verified_proofs_agree_witness:
  "let sha = (\<lambda>bs. hash_of_bytes (take 32 bs));
       p = \<lparr>mp_leaf = 5, mp_branch = [6], mp_index = 2\<rparr>;
       q = \<lparr>mp_leaf = 5, mp_branch = [7], mp_index = 2\<rparr> in
   verify_merkle_proof sha 5 p = Some True \<and> verify_merkle_proof sha 5 q = Some True
   \<and> collision_between sha (branch_inputs sha (mp_branch p) (mp_leaf p) (mp_index p))
                           (branch_inputs sha (mp_branch q) (mp_leaf q) (mp_index q))"
proof -
  let ?sha = "\<lambda>bs. hash_of_bytes (take 32 bs)"
  let ?p = "\<lambda>b. \<lparr>mp_leaf = 5, mp_branch = [b], mp_index = 2\<rparr>"
  have v: "verify_merkle_proof ?sha 5 (?p b) = Some True" for b
    by (simp add: verify_merkle_proof_def get_generalized_index_length_def bit_length.simps
        hash_concat_def and_one_eq_one_iff)
  show ?thesis unfolding Let_def using verified_proofs_agree [OF v v, of 6 7] v by simp
qed

end
