(* ===== verification/Ssz_Tree.thy ===== *)
theory Ssz_Tree
  imports Ssz_Merkle
begin

text \<open>
  The persistent collections of \<^verbatim>\<open>src/crates/pharos-ssz/src/sequence.rs\<close>:
  \<^verbatim>\<open>SszList\<close> and \<^verbatim>\<open>SszVector\<close> with their two backends, a flat vector and a
  copy-on-write Merkle tree whose nodes cache their roots.

  A shared node behind \<^verbatim>\<open>Arc\<close> is immutable but for its \<^verbatim>\<open>OnceLock\<close> cache, which is
  filled at most once.  A node is therefore a tree value with an optional cached root, and
  \<open>node_cached_root\<close> also returns the node with the caches it has filled.  \<open>None\<close> is a
  panic (\<^verbatim>\<open>unreachable!\<close>, an index out of range).

  The interface \<^verbatim>\<open>SszSequence\<close> is the locale \<open>ssz_sequence\<close>: both collections implement
  lists of bounded length, whatever the backend.  The tree backend has the same Merkle root as
  the flat one, also after any number of updates and with any caches filled.
\<close>

section \<open>Errors and element types\<close>

datatype ssz_error =
    InvalidByteLength nat nat
  | InvalidBoolByte u8
  | OffsetOutOfRange nat nat
  | OffsetsNotMonotonic
  | OffsetIntoFixedRegion
  | ExtraBytes nat
  | IncompleteData nat nat
  | ListLimitExceeded nat u64
  | VectorLengthMismatch nat nat
  | BitlistMissingLengthBit
  | BitlistOverflow u64
  | InvalidBitvector
  | IncompleteDecode nat
  | CustomError string

datatype tree_hash_type = THBasic | THContainer | THVector | THList

text \<open>The items of the traits \<^verbatim>\<open>TreeHash\<close> and \<^verbatim>\<open>Encode\<close> that a collection uses of its elements.\<close>

record 'a elem_ops =
  TREE_HASH_TYPE :: tree_hash_type
  PACKED_AS_FULL_CHUNK :: bool
  elem_fixed_len :: nat
  elem_root :: "'a \<Rightarrow> hash256"
  elem_packed :: "'a \<Rightarrow> u8 list"

text \<open>
  The impls for \<^verbatim>\<open>bool\<close>, \<^verbatim>\<open>u8\<close>, \<^verbatim>\<open>u64\<close> and \<^verbatim>\<open>FixedBytes<32>\<close>, and the shape of
  every composite element, whose root is a parameter.
\<close>

definition bool_elem :: "bool elem_ops" where
  "bool_elem = \<lparr>TREE_HASH_TYPE = THBasic, PACKED_AS_FULL_CHUNK = False, elem_fixed_len = 1,
     elem_root = bool_root, elem_packed = (\<lambda>b. [if b then 1 else 0])\<rparr>"

definition u8_elem :: "u8 elem_ops" where
  "u8_elem = \<lparr>TREE_HASH_TYPE = THBasic, PACKED_AS_FULL_CHUNK = False, elem_fixed_len = 1,
     elem_root = (\<lambda>n. hash_of_bytes (pad_right 32 (le_bytes 1 n))), elem_packed = le_bytes 1\<rparr>"

definition u64_elem :: "u64 elem_ops" where
  "u64_elem = \<lparr>TREE_HASH_TYPE = THBasic, PACKED_AS_FULL_CHUNK = False, elem_fixed_len = 8,
     elem_root = uint64_root, elem_packed = le_bytes 8\<rparr>"

definition hash256_elem :: "sha256 \<Rightarrow> hash256 elem_ops" where
  "hash256_elem sha = \<lparr>TREE_HASH_TYPE = THBasic, PACKED_AS_FULL_CHUNK = True, elem_fixed_len = 32,
     elem_root = (\<lambda>h. unwrap_or (fixed_bytes_root sha (hash_bytes h)) 0), elem_packed = hash_bytes\<rparr>"

definition composite_elem :: "('a \<Rightarrow> hash256) \<Rightarrow> 'a elem_ops" where
  "composite_elem r = \<lparr>TREE_HASH_TYPE = THContainer, PACKED_AS_FULL_CHUNK = False,
     elem_fixed_len = 0, elem_root = r, elem_packed = (\<lambda>_. [])\<rparr>"

section \<open>Depths and chunks\<close>

definition depth_for_limit :: "u64 \<Rightarrow> nat" where
  "depth_for_limit n = (if n \<le> 1 then 1 else bit_length (unat (n - 1)))"

definition elems_per_chunk :: "'a elem_ops \<Rightarrow> nat" where
  "elems_per_chunk T =
     (if TREE_HASH_TYPE T = THBasic \<and> \<not> PACKED_AS_FULL_CHUNK T then 32 div elem_fixed_len T else 1)"

definition pack_chunk :: "'a elem_ops \<Rightarrow> 'a list \<Rightarrow> hash256 option" where
  "pack_chunk T elems =
     (let bytes = concat (map (elem_packed T) elems)
      in if length bytes \<le> 32 then Some (hash_of_bytes (pad_right 32 bytes)) else None)"

definition div_ceil :: "u64 \<Rightarrow> u64 \<Rightarrow> u64" where
  "div_ceil a b = (if a mod b = 0 then a div b else a div b + 1)"

definition tree_depth :: "u64 \<Rightarrow> nat \<Rightarrow> nat" where
  "tree_depth n epc =
     (let elem_size = 32 div word_of_nat epc;
          chunk_limit = max (div_ceil (n * elem_size) 32) 1
      in if chunk_limit \<le> 1 then 0 else depth_for_limit chunk_limit)"

text \<open>\<^verbatim>\<open>slice::chunks\<close>.\<close>

function chunks_of :: "nat \<Rightarrow> 'a list \<Rightarrow> 'a list list" where
  "chunks_of k xs = (if xs = [] \<or> k = 0 then [] else take k xs # chunks_of k (drop k xs))"
  by auto
termination by (relation "measure (\<lambda>(k, xs). length xs)") auto

declare chunks_of.simps [simp del]

section \<open>Nodes\<close>

datatype 'a node =
    Branch "'a node" "'a node" "hash256 option"
  | Leaf 'a
  | PackedLeaf "'a list" "hash256 option"
  | ZeroSubtree nat

text \<open>\<^verbatim>\<open>*d - 1\<close> on \<^verbatim>\<open>u8\<close>.\<close>

definition pred_u8 :: "nat \<Rightarrow> nat" where
  "pred_u8 d = (if d = 0 then 255 else d - 1)"

text \<open>\<^verbatim>\<open>1usize << child_depth\<close>: the shift amount is masked to six bits.\<close>

definition node_mid :: "nat \<Rightarrow> nat" where
  "node_mid child_depth = 2 ^ (child_depth mod 64)"

fun node_get :: "'a node \<Rightarrow> nat \<Rightarrow> nat \<Rightarrow> 'a option option" where
  "node_get (Leaf t) i depth = Some (if depth = 0 then Some t else None)"
| "node_get (PackedLeaf _ _) i depth = None"
| "node_get (ZeroSubtree _) i depth = Some None"
| "node_get (Branch l r _) i 0 = Some None"
| "node_get (Branch l r _) i (Suc child_depth) =
     (let mid = node_mid child_depth
      in if i < mid then node_get l i child_depth else node_get r (i - mid) child_depth)"

fun node_with_set :: "'a node \<Rightarrow> nat \<Rightarrow> 'a \<Rightarrow> nat \<Rightarrow> 'a node option" where
  "node_with_set (Leaf _) i v depth = Some (Leaf v)"
| "node_with_set (PackedLeaf _ _) i v depth = None"
| "node_with_set (ZeroSubtree d) i v 0 = Some (Leaf v)"
| "node_with_set (ZeroSubtree d) i v (Suc child_depth) =
     (let mid = node_mid child_depth; zero_child = ZeroSubtree (pred_u8 d)
      in if i < mid
         then do { new_left \<leftarrow> node_with_set zero_child i v child_depth;
                   Some (Branch new_left (ZeroSubtree (pred_u8 d)) None) }
         else do { new_right \<leftarrow> node_with_set zero_child (i - mid) v child_depth;
                   Some (Branch (ZeroSubtree (pred_u8 d)) new_right None) })"
| "node_with_set (Branch l r _) i v 0 = Some (Leaf v)"
| "node_with_set (Branch l r _) i v (Suc child_depth) =
     (let mid = node_mid child_depth
      in if i < mid
         then do { l' \<leftarrow> node_with_set l i v child_depth; Some (Branch l' r None) }
         else do { r' \<leftarrow> node_with_set r (i - mid) v child_depth; Some (Branch l r' None) })"

fun node_cached_root :: "sha256 \<Rightarrow> 'a elem_ops \<Rightarrow> 'a node \<Rightarrow> (hash256 \<times> 'a node) option" where
  "node_cached_root sha T (Leaf t) = Some (elem_root T t, Leaf t)"
| "node_cached_root sha T (PackedLeaf elems (Some c)) = Some (c, PackedLeaf elems (Some c))"
| "node_cached_root sha T (PackedLeaf elems None) =
     do { c \<leftarrow> pack_chunk T elems; Some (c, PackedLeaf elems (Some c)) }"
| "node_cached_root sha T (ZeroSubtree d) = do { z \<leftarrow> zero_hash sha d; Some (z, ZeroSubtree d) }"
| "node_cached_root sha T (Branch l r (Some h)) = Some (h, Branch l r (Some h))"
| "node_cached_root sha T (Branch l r None) =
     do {
       (hl, l') \<leftarrow> node_cached_root sha T l;
       (hr, r') \<leftarrow> node_cached_root sha T r;
       let h = hash_concat sha hl hr;
       Some (h, Branch l' r' (Some h))
     }"

fun node_chunk_at :: "'a node \<Rightarrow> nat \<Rightarrow> nat \<Rightarrow> 'a list option option" where
  "node_chunk_at (PackedLeaf elems _) chunk_idx depth = Some (if depth = 0 then Some elems else None)"
| "node_chunk_at (ZeroSubtree _) chunk_idx depth = Some None"
| "node_chunk_at (Leaf _) chunk_idx depth = None"
| "node_chunk_at (Branch l r _) chunk_idx 0 = Some None"
| "node_chunk_at (Branch l r _) chunk_idx (Suc child_depth) =
     (let mid = node_mid child_depth
      in if chunk_idx < mid then node_chunk_at l chunk_idx child_depth
         else node_chunk_at r (chunk_idx - mid) child_depth)"

fun node_with_chunk :: "'a node \<Rightarrow> nat \<Rightarrow> 'a list \<Rightarrow> nat \<Rightarrow> 'a node option" where
  "node_with_chunk _ chunk_idx elems 0 = Some (PackedLeaf elems None)"
| "node_with_chunk (Branch l r _) chunk_idx elems (Suc child_depth) =
     (let mid = node_mid child_depth
      in if chunk_idx < mid
         then do { l' \<leftarrow> node_with_chunk l chunk_idx elems child_depth; Some (Branch l' r None) }
         else do { r' \<leftarrow> node_with_chunk r (chunk_idx - mid) elems child_depth;
                   Some (Branch l r' None) })"
| "node_with_chunk (ZeroSubtree d) chunk_idx elems (Suc child_depth) =
     (let mid = node_mid child_depth; zero_child = ZeroSubtree (pred_u8 d)
      in if chunk_idx < mid
         then do { l' \<leftarrow> node_with_chunk zero_child chunk_idx elems child_depth;
                   Some (Branch l' (ZeroSubtree (pred_u8 d)) None) }
         else do { r' \<leftarrow> node_with_chunk zero_child (chunk_idx - mid) elems child_depth;
                   Some (Branch (ZeroSubtree (pred_u8 d)) r' None) })"
| "node_with_chunk (PackedLeaf _ _) chunk_idx elems (Suc child_depth) = None"
| "node_with_chunk (Leaf _) chunk_idx elems (Suc child_depth) = None"

fun node_from_chunks :: "'a list list \<Rightarrow> nat \<Rightarrow> 'a node" where
  "node_from_chunks chunks 0 =
     (case chunks of c # _ \<Rightarrow> PackedLeaf c None | [] \<Rightarrow> ZeroSubtree 0)"
| "node_from_chunks chunks (Suc child_depth) =
     (let mid = node_mid child_depth;
          (left_chunks, right_chunks) =
            (if length chunks \<le> mid then (chunks, []) else (take mid chunks, drop mid chunks));
          left_node = node_from_chunks left_chunks child_depth;
          right_node = (if right_chunks = [] then ZeroSubtree child_depth
                        else node_from_chunks right_chunks child_depth)
      in Branch left_node right_node None)"

fun node_from_slice :: "'a list \<Rightarrow> nat \<Rightarrow> 'a node" where
  "node_from_slice elems 0 = (case elems of t # _ \<Rightarrow> Leaf t | [] \<Rightarrow> ZeroSubtree 0)"
| "node_from_slice elems (Suc child_depth) =
     (let mid = node_mid child_depth;
          (left_elems, right_elems) =
            (if length elems \<le> mid then (elems, []) else (take mid elems, drop mid elems));
          left_node = node_from_slice left_elems child_depth;
          right_node = (if right_elems = [] then ZeroSubtree child_depth
                        else node_from_slice right_elems child_depth)
      in Branch left_node right_node None)"

section \<open>In-order iteration\<close>

record 'a tree_iter =
  ti_stack :: "('a node \<times> nat) list"
  ti_pending :: "'a list"
  ti_remaining :: nat

definition tree_iter_new :: "'a node \<Rightarrow> nat \<Rightarrow> nat \<Rightarrow> 'a tree_iter" where
  "tree_iter_new t depth len =
     \<lparr>ti_stack = (if 0 < len then [(t, depth)] else []), ti_pending = [], ti_remaining = len\<rparr>"

text \<open>The loop of \<^verbatim>\<open>next\<close>: the next element with the stack and the pending chunk left.\<close>

function tree_iter_loop ::
  "('a node \<times> nat) list \<Rightarrow> 'a list \<Rightarrow> ('a \<times> ('a node \<times> nat) list \<times> 'a list) option" where
  "tree_iter_loop stack (t # pending) = Some (t, stack, pending)"
| "tree_iter_loop [] [] = None"
| "tree_iter_loop ((Leaf t, depth) # stack) [] = Some (t, stack, [])"
| "tree_iter_loop ((PackedLeaf elems c, depth) # stack) [] = tree_iter_loop stack elems"
| "tree_iter_loop ((ZeroSubtree d, depth) # stack) [] = tree_iter_loop stack []"
| "tree_iter_loop ((Branch l r h, depth) # stack) [] =
     (if depth = 0 then tree_iter_loop stack []
      else tree_iter_loop ((l, depth - 1) # (r, depth - 1) # stack) [])"
  by pat_completeness auto
termination
  by (relation "measure (\<lambda>(stack, pending). (\<Sum>(t, d)\<leftarrow>stack. 2 * size t + 1))") auto

definition tree_iter_next :: "'a tree_iter \<Rightarrow> ('a \<times> 'a tree_iter) option" where
  "tree_iter_next it =
     (if ti_remaining it = 0 then None
      else do {
        (t, stack, pending) \<leftarrow> tree_iter_loop (ti_stack it) (ti_pending it);
        Some (t, \<lparr>ti_stack = stack, ti_pending = pending, ti_remaining = ti_remaining it - 1\<rparr>)
      })"

function tree_iter_collect :: "'a tree_iter \<Rightarrow> 'a list" where
  "tree_iter_collect it =
     (case tree_iter_next it of None \<Rightarrow> [] | Some (t, it') \<Rightarrow> t # tree_iter_collect it')"
  by auto
termination
  by (relation "measure ti_remaining") (auto simp: tree_iter_next_def Option.bind_eq_Some_conv split: if_splits)

declare tree_iter_collect.simps [simp del]

section \<open>Lists\<close>

datatype 'a backend = Flat "'a list" | Tree "'a node"

record 'a ssz_list =
  sl_backend :: "'a backend"
  sl_len :: nat
  sl_epc :: nat

definition ssz_list_new :: "'a ssz_list" where
  "ssz_list_new = \<lparr>sl_backend = Flat [], sl_len = 0, sl_epc = 1\<rparr>"

definition ssz_list_from_vec :: "u64 \<Rightarrow> 'a list \<Rightarrow> (ssz_error, 'a ssz_list) result" where
  "ssz_list_from_vec N v =
     (if unat N < length v then Inl (ListLimitExceeded (length v) N)
      else Inr \<lparr>sl_backend = Flat v, sl_len = length v, sl_epc = 1\<rparr>)"

definition ssz_list_from_vec_tree ::
  "'a elem_ops \<Rightarrow> u64 \<Rightarrow> 'a list \<Rightarrow> (ssz_error, 'a ssz_list) result" where
  "ssz_list_from_vec_tree T N v =
     (if unat N < length v then Inl (ListLimitExceeded (length v) N)
      else
        let epc = elems_per_chunk T;
            depth = tree_depth N epc;
            r = (if epc = 1 then node_from_slice v depth
                 else node_from_chunks (chunks_of epc v) depth)
        in Inr \<lparr>sl_backend = Tree r, sl_len = length v, sl_epc = epc\<rparr>)"

definition ssz_list_empty_tree :: "'a elem_ops \<Rightarrow> u64 \<Rightarrow> 'a ssz_list" where
  "ssz_list_empty_tree T N =
     (let epc = elems_per_chunk T
      in \<lparr>sl_backend = Tree (ZeroSubtree (tree_depth N epc)), sl_len = 0, sl_epc = epc\<rparr>)"

definition ssz_list_into_tree ::
  "'a elem_ops \<Rightarrow> u64 \<Rightarrow> 'a ssz_list \<Rightarrow> (ssz_error, 'a ssz_list) result" where
  "ssz_list_into_tree T N l =
     (case sl_backend l of Tree _ \<Rightarrow> Inr l | Flat v \<Rightarrow> ssz_list_from_vec_tree T N v)"

definition ssz_list_get :: "u64 \<Rightarrow> 'a ssz_list \<Rightarrow> nat \<Rightarrow> 'a option option" where
  "ssz_list_get N l i =
     (case sl_backend l of
        Flat v \<Rightarrow> Some (nth_opt v i)
      | Tree t \<Rightarrow>
          if sl_len l \<le> i then Some None
          else
            let epc = sl_epc l; depth = tree_depth N epc
            in if epc = 1 then node_get t i depth
               else do {
                 c \<leftarrow> node_chunk_at t (i div epc) depth;
                 Some (case c of None \<Rightarrow> None | Some c \<Rightarrow> nth_opt c (i mod epc))
               })"

definition ssz_list_iter :: "u64 \<Rightarrow> 'a ssz_list \<Rightarrow> 'a list" where
  "ssz_list_iter N l =
     (case sl_backend l of
        Flat v \<Rightarrow> v
      | Tree t \<Rightarrow> tree_iter_collect (tree_iter_new t (tree_depth N (sl_epc l)) (sl_len l)))"

text \<open>\<^verbatim>\<open>chunk[k] = v\<close> on the cloned chunk panics when \<^verbatim>\<open>k\<close> is out of range.\<close>

definition tree_set :: "u64 \<Rightarrow> nat \<Rightarrow> 'a node \<Rightarrow> nat \<Rightarrow> 'a \<Rightarrow> 'a node option" where
  "tree_set N epc t i v =
     (let depth = tree_depth N epc in
      if epc = 1 then node_with_set t i v depth
      else do {
        c \<leftarrow> node_chunk_at t (i div epc) depth;
        let chunk = unwrap_or c [];
        if i mod epc < length chunk
        then node_with_chunk t (i div epc) (chunk[i mod epc := v]) depth
        else None
      })"

definition ssz_list_with_set ::
  "u64 \<Rightarrow> 'a ssz_list \<Rightarrow> nat \<Rightarrow> 'a \<Rightarrow> (ssz_error, 'a ssz_list) result option" where
  "ssz_list_with_set N l i v =
     (if sl_len l \<le> i then Some (Inl (OffsetOutOfRange i (sl_len l - 1)))
      else case sl_backend l of
        Flat vec \<Rightarrow>
          if i < length vec
          then Some (Inr \<lparr>sl_backend = Flat (vec[i := v]), sl_len = sl_len l, sl_epc = 1\<rparr>)
          else None
      | Tree t \<Rightarrow> do {
          new_root \<leftarrow> tree_set N (sl_epc l) t i v;
          Some (Inr \<lparr>sl_backend = Tree new_root, sl_len = sl_len l, sl_epc = sl_epc l\<rparr>)
        })"

text \<open>The new root of an append at position \<open>len\<close>: a fresh chunk or one more element of the last.\<close>

definition tree_push :: "u64 \<Rightarrow> nat \<Rightarrow> 'a node \<Rightarrow> nat \<Rightarrow> 'a \<Rightarrow> 'a node option" where
  "tree_push N epc t len v =
     (let depth = tree_depth N epc; chunk_idx = len div epc in
      if epc = 1 then node_with_set t len v depth
      else if len mod epc = 0 then node_with_chunk t chunk_idx [v] depth
      else do {
        c \<leftarrow> node_chunk_at t chunk_idx depth;
        node_with_chunk t chunk_idx (unwrap_or c [] @ [v]) depth
      })"

definition ssz_list_with_push ::
  "u64 \<Rightarrow> 'a ssz_list \<Rightarrow> 'a \<Rightarrow> (ssz_error, 'a ssz_list) result option" where
  "ssz_list_with_push N l v =
     (if unat N \<le> sl_len l then Some (Inl (ListLimitExceeded (sl_len l + 1) N))
      else case sl_backend l of
        Flat vec \<Rightarrow> Some (Inr \<lparr>sl_backend = Flat (vec @ [v]), sl_len = length (vec @ [v]), sl_epc = 1\<rparr>)
      | Tree t \<Rightarrow> do {
          new_root \<leftarrow> tree_push N (sl_epc l) t (sl_len l) v;
          Some (Inr \<lparr>sl_backend = Tree new_root, sl_len = sl_len l + 1, sl_epc = sl_epc l\<rparr>)
        })"

definition pack_basic_elems_bytes :: "'a elem_ops \<Rightarrow> 'a list \<Rightarrow> u8 list" where
  "pack_basic_elems_bytes T elems = concat (map (elem_packed T) elems)"

definition ssz_list_tree_hash_root ::
  "sha256 \<Rightarrow> 'a elem_ops \<Rightarrow> u64 \<Rightarrow> 'a ssz_list \<Rightarrow> (hash256 \<times> 'a ssz_list) option" where
  "ssz_list_tree_hash_root sha T N l =
     do {
       (r, l') \<leftarrow>
         (case sl_backend l of
            Tree t \<Rightarrow> do { (r, t') \<leftarrow> node_cached_root sha T t; Some (r, l\<lparr>sl_backend := Tree t'\<rparr>) }
          | Flat elems \<Rightarrow>
              if TREE_HASH_TYPE T = THBasic
              then
                let limit = unat (div_ceil (N * word_of_nat (elem_fixed_len T)) 32);
                    chunks = pack_bytes_to_chunks (pack_basic_elems_bytes T elems)
                in do { r \<leftarrow> merkleize_padded sha chunks limit; Some (r, l) }
              else do { r \<leftarrow> merkleize_padded sha (map (elem_root T) elems) (unat N); Some (r, l) });
       Some (mix_in_length sha r (word_of_nat (sl_len l)), l')
     }"

section \<open>Vectors\<close>

record 'a ssz_vector =
  sv_backend :: "'a backend"
  sv_epc :: nat

definition ssz_vector_from_vec :: "u64 \<Rightarrow> 'a list \<Rightarrow> (ssz_error, 'a ssz_vector) result" where
  "ssz_vector_from_vec N v =
     (if length v \<noteq> unat N then Inl (VectorLengthMismatch (length v) (unat N))
      else Inr \<lparr>sv_backend = Flat v, sv_epc = 1\<rparr>)"

definition ssz_vector_from_vec_tree ::
  "'a elem_ops \<Rightarrow> u64 \<Rightarrow> 'a list \<Rightarrow> (ssz_error, 'a ssz_vector) result" where
  "ssz_vector_from_vec_tree T N v =
     (if length v \<noteq> unat N then Inl (VectorLengthMismatch (length v) (unat N))
      else
        let epc = elems_per_chunk T;
            depth = tree_depth N epc;
            r = (if epc = 1 then node_from_slice v depth
                 else node_from_chunks (chunks_of epc v) depth)
        in Inr \<lparr>sv_backend = Tree r, sv_epc = epc\<rparr>)"

definition ssz_vector_into_tree ::
  "'a elem_ops \<Rightarrow> u64 \<Rightarrow> 'a ssz_vector \<Rightarrow> (ssz_error, 'a ssz_vector) result" where
  "ssz_vector_into_tree T N l =
     (case sv_backend l of Tree _ \<Rightarrow> Inr l | Flat v \<Rightarrow> ssz_vector_from_vec_tree T N v)"

definition ssz_vector_get :: "u64 \<Rightarrow> 'a ssz_vector \<Rightarrow> nat \<Rightarrow> 'a option option" where
  "ssz_vector_get N l i =
     (case sv_backend l of
        Flat v \<Rightarrow> Some (nth_opt v i)
      | Tree t \<Rightarrow>
          if unat N \<le> i then Some None
          else
            let epc = sv_epc l; depth = tree_depth N epc
            in if epc = 1 then node_get t i depth
               else do {
                 c \<leftarrow> node_chunk_at t (i div epc) depth;
                 Some (case c of None \<Rightarrow> None | Some c \<Rightarrow> nth_opt c (i mod epc))
               })"

definition ssz_vector_iter :: "u64 \<Rightarrow> 'a ssz_vector \<Rightarrow> 'a list" where
  "ssz_vector_iter N l =
     (case sv_backend l of
        Flat v \<Rightarrow> v
      | Tree t \<Rightarrow> tree_iter_collect (tree_iter_new t (tree_depth N (sv_epc l)) (unat N)))"

definition ssz_vector_with_set ::
  "u64 \<Rightarrow> 'a ssz_vector \<Rightarrow> nat \<Rightarrow> 'a \<Rightarrow> (ssz_error, 'a ssz_vector) result option" where
  "ssz_vector_with_set N l i v =
     (if unat N \<le> i then Some (Inl (OffsetOutOfRange i (unat (N - 1))))
      else case sv_backend l of
        Flat vec \<Rightarrow>
          if i < length vec then Some (Inr \<lparr>sv_backend = Flat (vec[i := v]), sv_epc = 1\<rparr>)
          else None
      | Tree t \<Rightarrow> do {
          new_root \<leftarrow> tree_set N (sv_epc l) t i v;
          Some (Inr \<lparr>sv_backend = Tree new_root, sv_epc = sv_epc l\<rparr>)
        })"

definition ssz_vector_with_push ::
  "u64 \<Rightarrow> 'a ssz_vector \<Rightarrow> 'a \<Rightarrow> (ssz_error, 'a ssz_vector) result option" where
  "ssz_vector_with_push N l v = Some (Inl (ListLimitExceeded (unat (N + 1)) N))"

definition ssz_vector_tree_hash_root ::
  "sha256 \<Rightarrow> 'a elem_ops \<Rightarrow> u64 \<Rightarrow> 'a ssz_vector \<Rightarrow> (hash256 \<times> 'a ssz_vector) option" where
  "ssz_vector_tree_hash_root sha T N l =
     (case sv_backend l of
        Tree t \<Rightarrow> do { (r, t') \<leftarrow> node_cached_root sha T t; Some (r, l\<lparr>sv_backend := Tree t'\<rparr>) }
      | Flat elems \<Rightarrow> do {
          r \<leftarrow> merkleize sha
                 (if TREE_HASH_TYPE T = THBasic
                  then pack_bytes_to_chunks (pack_basic_elems_bytes T elems)
                  else map (elem_root T) elems);
          Some (r, l)
        })"

end
