(* ===== verification/Ssz_Sequence.thy ===== *)
theory Ssz_Sequence
  imports Ssz_Tree
begin

text \<open>
  What the copy-on-write Merkle tree of \<open>Ssz_Tree\<close> stores: \<open>holds packed d t cs\<close> relates a node of
  depth \<open>d\<close> to the list \<open>cs\<close> of chunks below it.  Building, reading, updating, iterating and hashing a
  node are characterised by their effect on that list, and every update and every computed root
  keeps the caches true (\<open>cache_ok\<close>).
\<close>

section \<open>Chunks of a list\<close>

lemma chunks_of_Nil [simp]: "chunks_of k [] = []"
  by (simp add: chunks_of.simps)

lemma concat_chunks_of: "0 < k \<Longrightarrow> concat (chunks_of k xs) = xs"
  by (induction k xs rule: chunks_of.induct) (subst chunks_of.simps, simp)

lemma chunks_of_1: "chunks_of (Suc 0) xs = map (\<lambda>x. [x]) xs"
  by (induction xs) (simp_all add: chunks_of.simps)

lemma length_chunks_of: "0 < k \<Longrightarrow> length (chunks_of k xs) = (length xs + k - 1) div k"
proof (induction k xs rule: chunks_of.induct)
  case (1 k xs)
  show ?case
  proof (cases "xs = []")
    case False
    with 1 have "length (chunks_of k xs) = Suc ((length xs - k + k - 1) div k)"
      by (subst chunks_of.simps) simp
    also have "\<dots> = (length xs + k - 1) div k"
    proof (cases "k \<le> length xs")
      case True
      have "(length xs + k - 1) div k = (length xs - 1 + k) div k" using False by (cases xs) auto
      also have "\<dots> = Suc ((length xs - 1) div k)"
        using div_add_self2 [of k "length xs - 1"] 1 by simp
      finally show ?thesis using True by simp
    next
      case False
      then have "length xs + k - 1 = k + (length xs - 1)" "length xs - 1 < k"
        using \<open>xs \<noteq> []\<close> by (cases xs; simp)+
      then have "(length xs + k - 1) div k = 1"
        using 1 div_add_self1 [of k "length xs - 1"] by (simp only: div_less)
      then show ?thesis using 1 False by simp
    qed
    finally show ?thesis .
  qed (use 1 in simp)
qed

lemma less_length_chunks_of: "0 < k \<Longrightarrow> i < length (chunks_of k xs) \<longleftrightarrow> k * i < length xs"
proof (induction k xs arbitrary: i rule: chunks_of.induct)
  case (1 k xs)
  show ?case
  proof (cases "xs = []")
    case False
    then show ?thesis
      using 1 by (subst chunks_of.simps) (cases i; auto simp: less_diff_conv add.commute)
  qed simp
qed

lemma nth_chunks_of:
  "0 < k \<Longrightarrow> k * i < length xs \<Longrightarrow> chunks_of k xs ! i = take k (drop (k * i) xs)"
proof (induction k xs arbitrary: i rule: chunks_of.induct)
  case (1 k xs)
  then have "xs \<noteq> []" by auto
  with 1 show ?case
    by (subst chunks_of.simps) (cases i; simp add: less_diff_conv add.commute)
qed

text \<open>Replace position \<open>i\<close>, or append when \<open>i\<close> is the length.\<close>

definition set_or_push :: "'a list \<Rightarrow> nat \<Rightarrow> 'a \<Rightarrow> 'a list" where
  "set_or_push xs i v = take i xs @ v # drop (Suc i) xs"

lemma set_or_push_update: "i < length xs \<Longrightarrow> set_or_push xs i v = xs[i := v]"
  by (simp add: set_or_push_def upd_conv_take_nth_drop)

lemma set_or_push_append: "set_or_push xs (length xs) v = xs @ [v]"
  by (simp add: set_or_push_def)

lemma length_set_or_push: "i \<le> length xs \<Longrightarrow> length (set_or_push xs i v) = max (length xs) (Suc i)"
  by (auto simp: set_or_push_def)

lemma chunks_of_update:
  assumes "0 < k" and "i < length xs"
  shows "chunks_of k (xs[i := v])
           = (chunks_of k xs)[i div k := (chunks_of k xs ! (i div k))[i mod k := v]]"
proof (rule nth_equalityI)
  show "length (chunks_of k (xs[i := v]))
          = length ((chunks_of k xs)[i div k := (chunks_of k xs ! (i div k))[i mod k := v]])"
    using assms by (simp add: length_chunks_of)
next
  fix j assume "j < length (chunks_of k (xs[i := v]))"
  then have j: "k * j < length xs" using assms by (simp add: less_length_chunks_of)
  have le: "k * (i div k) \<le> i" by simp
  show "chunks_of k (xs[i := v]) ! j
          = (chunks_of k xs)[i div k := (chunks_of k xs ! (i div k))[i mod k := v]] ! j"
  proof (cases "j = i div k")
    case True
    have "chunks_of k (xs[i := v]) ! j = take k (drop (k * j) (xs[i := v]))"
      using assms j by (intro nth_chunks_of) simp_all
    also have "\<dots> = take k ((drop (k * j) xs)[i mod k := v])"
      using True le drop_update_swap [of "k * (i div k)" i xs v]
      by (simp add: minus_mult_div_eq_mod)
    finally show ?thesis using True assms j
      by (simp add: less_length_chunks_of nth_chunks_of take_update_swap)
  next
    case False
    then have "i < k * j \<or> k * j + k \<le> i"
    proof -
      have "\<not> (k * j \<le> i \<and> i < k * j + k)"
        using False assms(1) by (metis add.commute div_nat_eqI mult.commute mult_Suc)
      then show ?thesis by linarith
    qed
    then have "take k (drop (k * j) (xs[i := v])) = take k (drop (k * j) xs)"
      by (auto simp: drop_update_cancel drop_update_swap take_update_cancel)
    then show ?thesis using False assms j by (simp add: nth_chunks_of)
  qed
qed

lemma chunks_of_push:
  assumes "0 < k"
  shows "chunks_of k (xs @ [v]) =
           set_or_push (chunks_of k xs) (length xs div k)
             ((if length xs mod k = 0 then [] else chunks_of k xs ! (length xs div k)) @ [v])"
  using assms
proof (induction k xs rule: chunks_of.induct)
  case (1 k xs)
  show ?case
  proof (cases "length xs < k")
    case True
    then have "chunks_of k (xs @ [v]) = [xs @ [v]]" "xs \<noteq> [] \<Longrightarrow> chunks_of k xs = [xs]"
      by (simp_all add: chunks_of.simps)
    then show ?thesis using True by (cases "xs = []") (simp_all add: set_or_push_def)
  next
    case False
    then have ne: "xs \<noteq> []" and le: "k \<le> length xs" using 1 by auto
    then have step: "chunks_of k xs = take k xs # chunks_of k (drop k xs)"
      "chunks_of k (xs @ [v]) = take k xs # chunks_of k (drop k xs @ [v])"
      using 1 by (simp_all add: chunks_of.simps [of k xs] chunks_of.simps [of k "xs @ [v]"])
    have "length xs div k = Suc (length (drop k xs) div k)" "length xs mod k = length (drop k xs) mod k"
      using le 1 by (simp_all add: le_div_geq le_mod_geq)
    then show ?thesis using 1 ne step by (simp add: set_or_push_def)
  qed
qed


section \<open>What a tree holds\<close>

fun leaf_holds :: "bool \<Rightarrow> 'a node \<Rightarrow> 'a list \<Rightarrow> bool" where
  "leaf_holds packed (PackedLeaf elems _) c \<longleftrightarrow> packed \<and> elems = c"
| "leaf_holds packed (Leaf x) c \<longleftrightarrow> \<not> packed \<and> c = [x]"
| "leaf_holds packed _ c \<longleftrightarrow> False"

text \<open>
  \<open>holds packed d t cs\<close>: the tree \<open>t\<close> of depth \<open>d\<close> stores the chunks \<open>cs\<close> from the left.  In an
  element-indexed tree every chunk is a single element.
\<close>

fun holds :: "bool \<Rightarrow> nat \<Rightarrow> 'a node \<Rightarrow> 'a list list \<Rightarrow> bool" where
  "holds packed 0 t cs \<longleftrightarrow>
     (case cs of [] \<Rightarrow> t = ZeroSubtree 0 | [c] \<Rightarrow> leaf_holds packed t c | _ \<Rightarrow> False)"
| "holds packed (Suc d) t cs \<longleftrightarrow>
     (case t of
        Branch l r _ \<Rightarrow> holds packed d l (take (2 ^ d) cs) \<and> holds packed d r (drop (2 ^ d) cs)
      | _ \<Rightarrow> t = ZeroSubtree (Suc d) \<and> cs = [])"

lemma holds_zero: "holds packed d (ZeroSubtree d) []"
  by (cases d) simp_all

lemma holds_length: "holds packed d t cs \<Longrightarrow> length cs \<le> 2 ^ d"
proof (induction d arbitrary: t cs)
  case 0
  then show ?case by (auto split: list.splits)
next
  case (Suc d)
  then show ?case by (cases t) (fastforce simp: min_def split: if_splits)+
qed

text \<open>\<open>cache_ok\<close>: every cache that is filled holds the root it stands for.\<close>

fun node_root :: "sha256 \<Rightarrow> 'a elem_ops \<Rightarrow> 'a node \<Rightarrow> hash256" where
  "node_root sha T (Leaf t) = elem_root T t"
| "node_root sha T (PackedLeaf elems _) =
     hash_of_bytes (pad_right 32 (concat (map (elem_packed T) elems)))"
| "node_root sha T (ZeroSubtree d) = zero_hashes sha d"
| "node_root sha T (Branch l r _) = hash_concat sha (node_root sha T l) (node_root sha T r)"

fun cache_ok :: "sha256 \<Rightarrow> 'a elem_ops \<Rightarrow> 'a node \<Rightarrow> bool" where
  "cache_ok sha T (Branch l r h) \<longleftrightarrow>
     cache_ok sha T l \<and> cache_ok sha T r
     \<and> (case h of None \<Rightarrow> True | Some x \<Rightarrow> x = node_root sha T (Branch l r None))"
| "cache_ok sha T (PackedLeaf elems c) \<longleftrightarrow>
     (case c of None \<Rightarrow> True | Some x \<Rightarrow> x = node_root sha T (PackedLeaf elems None))"
| "cache_ok sha T _ \<longleftrightarrow> True"

fun node_elems :: "'a node \<Rightarrow> 'a list" where
  "node_elems (Leaf t) = [t]"
| "node_elems (PackedLeaf elems _) = elems"
| "node_elems (ZeroSubtree _) = []"
| "node_elems (Branch l r _) = node_elems l @ node_elems r"

lemma node_mid_eq [simp]: "d < 64 \<Longrightarrow> node_mid d = 2 ^ d"
  by (simp add: node_mid_def)

lemma holds_elems: "holds packed d t cs \<Longrightarrow> node_elems t = concat cs"
proof (induction d arbitrary: t cs)
  case 0
  then show ?case by (cases t) (auto split: list.splits)
next
  case (Suc d)
  show ?case
  proof (cases t)
    case (Branch l r h)
    with Suc.prems have "holds packed d l (take (2 ^ d) cs)" "holds packed d r (drop (2 ^ d) cs)"
      by simp_all
    from this [THEN Suc.IH] Branch
    have "node_elems t = concat (take (2 ^ d) cs) @ concat (drop (2 ^ d) cs)" by simp
    then show ?thesis by (metis append_take_drop_id concat_append)
  qed (use Suc.prems in auto)
qed

section \<open>Reading\<close>

lemma nth_opt_take_drop:
  "nth_opt (take n cs) i = (if i < n then nth_opt cs i else None)"
  "nth_opt (drop n cs) i = nth_opt cs (n + i)"
  by (auto simp: nth_opt_def)

lemma node_get_holds:
  "holds False d t cs \<Longrightarrow> d \<le> 64 \<Longrightarrow> i < 2 ^ d \<Longrightarrow>
     node_get t i d = Some (map_option hd (nth_opt cs i))"
proof (induction d arbitrary: t cs i)
  case 0
  then show ?case by (cases t) (auto simp: nth_opt_def split: list.splits)
next
  case (Suc d)
  show ?case
  proof (cases t)
    case (Branch l r h)
    with Suc.prems have h: "holds False d l (take (2 ^ d) cs)" "holds False d r (drop (2 ^ d) cs)"
      by simp_all
    show ?thesis
    proof (cases "i < 2 ^ d")
      case True
      then show ?thesis using Suc.IH [OF h(1), of i] Suc.prems Branch
        by (simp add: nth_opt_take_drop Let_def)
    next
      case False
      then show ?thesis using Suc.IH [OF h(2), of "i - 2 ^ d"] Suc.prems Branch
        by (simp add: nth_opt_take_drop Let_def)
    qed
  qed (use Suc.prems in \<open>auto simp: nth_opt_def\<close>)
qed

lemma node_chunk_at_holds:
  "holds True d t cs \<Longrightarrow> d \<le> 64 \<Longrightarrow> i < 2 ^ d \<Longrightarrow> node_chunk_at t i d = Some (nth_opt cs i)"
proof (induction d arbitrary: t cs i)
  case 0
  then show ?case by (cases t) (auto simp: nth_opt_def split: list.splits)
next
  case (Suc d)
  show ?case
  proof (cases t)
    case (Branch l r h)
    with Suc.prems have h: "holds True d l (take (2 ^ d) cs)" "holds True d r (drop (2 ^ d) cs)"
      by simp_all
    show ?thesis
    proof (cases "i < 2 ^ d")
      case True
      then show ?thesis using Suc.IH [OF h(1), of i] Suc.prems Branch
        by (simp add: nth_opt_take_drop Let_def)
    next
      case False
      then show ?thesis using Suc.IH [OF h(2), of "i - 2 ^ d"] Suc.prems Branch
        by (simp add: nth_opt_take_drop Let_def)
    qed
  qed (use Suc.prems in \<open>auto simp: nth_opt_def\<close>)
qed

text \<open>A stack all of whose nodes hold chunks at their depth.\<close>

definition stack_ok :: "('a node \<times> nat) list \<Rightarrow> bool" where
  "stack_ok stack \<longleftrightarrow> (\<forall>(t, d) \<in> set stack. \<exists>packed cs. holds packed d t cs)"

definition stack_elems :: "('a node \<times> nat) list \<Rightarrow> 'a list" where
  "stack_elems stack = concat (map (node_elems \<circ> fst) stack)"

lemma stack_simps [simp]:
  "stack_ok []" "stack_elems [] = []"
  "stack_ok ((t, d) # stack) \<longleftrightarrow> (\<exists>packed cs. holds packed d t cs) \<and> stack_ok stack"
  "stack_elems ((t, d) # stack) = node_elems t @ stack_elems stack"
  by (simp_all add: stack_ok_def stack_elems_def)

lemma stack_ok_Branch:
  assumes "stack_ok ((Branch l r h, depth) # stack)"
  shows "0 < depth" and "stack_ok ((l, depth - 1) # (r, depth - 1) # stack)"
proof -
  obtain packed cs where h: "holds packed depth (Branch l r h) cs" and s: "stack_ok stack"
    using assms by auto
  then obtain d where d: "depth = Suc d" by (cases depth) (auto split: list.splits)
  then show "0 < depth" by simp
  from h d have "holds packed d l (take (2 ^ d) cs)" "holds packed d r (drop (2 ^ d) cs)" by simp_all
  with s d show "stack_ok ((l, depth - 1) # (r, depth - 1) # stack)" by auto
qed

lemma tree_iter_loop_None:
  "stack_ok stack \<Longrightarrow> tree_iter_loop stack pending = None \<Longrightarrow> pending @ stack_elems stack = []"
proof (induction stack pending rule: tree_iter_loop.induct)
  case (6 l r h depth stack)
  with stack_ok_Branch [OF 6(3)] show ?case by simp
qed auto

lemma tree_iter_loop_Some:
  "stack_ok stack \<Longrightarrow> tree_iter_loop stack pending = Some (x, stack', pending') \<Longrightarrow>
     pending @ stack_elems stack = x # pending' @ stack_elems stack' \<and> stack_ok stack'"
proof (induction stack pending rule: tree_iter_loop.induct)
  case (6 l r h depth stack)
  with stack_ok_Branch [OF 6(3)] show ?case by simp
qed auto

lemma tree_iter_collect_spec:
  "stack_ok (ti_stack it) \<Longrightarrow>
     tree_iter_collect it = take (ti_remaining it) (ti_pending it @ stack_elems (ti_stack it))"
proof (induction it rule: tree_iter_collect.induct)
  case (1 it)
  show ?case
  proof (cases "tree_iter_next it")
    case None
    then show ?thesis using 1 tree_iter_loop_None [of "ti_stack it" "ti_pending it"]
      by (subst tree_iter_collect.simps)
        (auto simp: tree_iter_next_def bind_eq_None_conv split: if_splits prod.splits)
  next
    case (Some p)
    then obtain x it' where it': "tree_iter_next it = Some (x, it')" by (cases p) auto
    then obtain stack pending where l: "tree_iter_loop (ti_stack it) (ti_pending it)
                                          = Some (x, stack, pending)"
      "0 < ti_remaining it"
      "it' = \<lparr>ti_stack = stack, ti_pending = pending, ti_remaining = ti_remaining it - 1\<rparr>"
      by (auto simp: tree_iter_next_def Option.bind_eq_Some_conv split: if_splits)
    with tree_iter_loop_Some [OF 1(2) l(1)] 1(1) [OF it' refl] it' show ?thesis
      by (subst tree_iter_collect.simps) (cases "ti_remaining it"; simp)
  qed
qed

lemma tree_iter_holds:
  assumes "holds packed d t cs" and "len = length (concat cs)"
  shows "tree_iter_collect (tree_iter_new t d len) = concat cs"
proof -
  have "stack_ok (ti_stack (tree_iter_new t d len))"
    using assms(1) by (auto simp: tree_iter_new_def)
  from tree_iter_collect_spec [OF this] show ?thesis
    using assms holds_elems [OF assms(1)] by (auto simp: tree_iter_new_def)
qed

section \<open>Building and updating\<close>

lemma holds_from_chunks:
  "length cs \<le> 2 ^ d \<Longrightarrow> d \<le> 64 \<Longrightarrow> holds True d (node_from_chunks cs d) cs"
proof (induction d arbitrary: cs)
  case 0
  then show ?case by (cases cs) auto
next
  case (Suc d)
  show ?case
  proof (cases "length cs \<le> 2 ^ d")
    case True
    then show ?thesis using Suc by (simp add: Let_def holds_zero)
  next
    case False
    have "holds True d (node_from_chunks (take (2 ^ d) cs) d) (take (2 ^ d) cs)"
      "holds True d (node_from_chunks (drop (2 ^ d) cs) d) (drop (2 ^ d) cs)"
      using Suc by simp_all
    then show ?thesis using Suc.prems False by (simp add: Let_def)
  qed
qed

lemma holds_from_slice:
  "length xs \<le> 2 ^ d \<Longrightarrow> d \<le> 64 \<Longrightarrow> holds False d (node_from_slice xs d) (map (\<lambda>x. [x]) xs)"
proof (induction d arbitrary: xs)
  case 0
  then show ?case by (cases xs) auto
next
  case (Suc d)
  show ?case
  proof (cases "length xs \<le> 2 ^ d")
    case True
    then show ?thesis using Suc by (simp add: Let_def holds_zero)
  next
    case False
    have "holds False d (node_from_slice (take (2 ^ d) xs) d) (map (\<lambda>x. [x]) (take (2 ^ d) xs))"
      "holds False d (node_from_slice (drop (2 ^ d) xs) d) (map (\<lambda>x. [x]) (drop (2 ^ d) xs))"
      using Suc by simp_all
    then show ?thesis using Suc.prems False by (simp add: Let_def take_map drop_map)
  qed
qed

lemma set_or_push_left:
  assumes "i \<le> length cs" and "i < n"
  shows "take n (set_or_push cs i c) = set_or_push (take n cs) i c"
    and "drop n (set_or_push cs i c) = drop n cs"
proof -
  obtain k where n: "n = Suc (i + k)" using assms(2) less_iff_Suc_add by auto
  show "take n (set_or_push cs i c) = set_or_push (take n cs) i c"
    using assms(1) by (simp add: n set_or_push_def min_absorb1 drop_take)
  show "drop n (set_or_push cs i c) = drop n cs"
    using assms(1) by (simp add: n set_or_push_def min_absorb1 add.commute)
qed

lemma set_or_push_right:
  assumes "i \<le> length cs" and "n \<le> i"
  shows "take n (set_or_push cs i c) = take n cs"
    and "drop n (set_or_push cs i c) = set_or_push (drop n cs) (i - n) c"
proof -
  obtain k where i: "i = n + k" using assms(2) le_iff_add by auto
  show "take n (set_or_push cs i c) = take n cs"
    using assms(1) by (simp add: i set_or_push_def)
  show "drop n (set_or_push cs i c) = set_or_push (drop n cs) (i - n) c"
    using assms(1) by (simp add: i set_or_push_def drop_take add.commute)
qed

lemma node_with_set_holds:
  assumes "holds False d t cs" and "d \<le> 64" and "i \<le> length cs" and "i < 2 ^ d"
  shows "\<exists>t'. node_with_set t i v d = Some t' \<and> holds False d t' (set_or_push cs i [v])
           \<and> (cache_ok sha T t \<longrightarrow> cache_ok sha T t')"
  using assms
proof (induction d arbitrary: t cs i)
  case 0
  then have i: "i = 0" by simp
  from 0 show ?case
    by (cases t) (auto simp: i set_or_push_def split: list.splits)
next
  case (Suc d)
  have step: "\<exists>t'. node_with_set (Branch l r h) i v (Suc d) = Some t'
        \<and> holds False (Suc d) t' (set_or_push cs i [v])
        \<and> (cache_ok sha T (Branch l r h) \<longrightarrow> cache_ok sha T t')"
    if h: "holds False d l (take (2 ^ d) cs)" "holds False d r (drop (2 ^ d) cs)" for l r h
  proof (cases "i < 2 ^ d")
    case True
    from Suc.IH [OF h(1), of i] True Suc.prems obtain l' where
      "node_with_set l i v d = Some l'" "holds False d l' (set_or_push (take (2 ^ d) cs) i [v])"
      "cache_ok sha T l \<longrightarrow> cache_ok sha T l'" by auto
    then show ?thesis using True Suc.prems h by (simp add: set_or_push_left set_or_push_right Let_def)
  next
    case False
    have "i - 2 ^ d < 2 ^ d" "i - 2 ^ d \<le> length (drop (2 ^ d) cs)"
      using False Suc.prems(3,4) by (simp_all add: less_diff_conv2 diff_le_mono)
    with Suc.IH [OF h(2), of "i - 2 ^ d"] Suc.prems(2) obtain r' where
      "node_with_set r (i - 2 ^ d) v d = Some r'"
      "holds False d r' (set_or_push (drop (2 ^ d) cs) (i - 2 ^ d) [v])"
      "cache_ok sha T r \<longrightarrow> cache_ok sha T r'" by auto
    then show ?thesis using False Suc.prems h by (simp add: set_or_push_left set_or_push_right Let_def)
  qed
  show ?case
  proof (cases t)
    case (Branch l r h)
    with Suc.prems step [of l r h] show ?thesis by simp
  next
    case (ZeroSubtree z)
    then have t: "t = ZeroSubtree (Suc d)" "cs = []" using Suc.prems by simp_all
    have eq: "node_with_set (ZeroSubtree (Suc d)) i v (Suc d)
                = node_with_set (Branch (ZeroSubtree d) (ZeroSubtree d) None) i v (Suc d)"
      by (simp add: pred_u8_def Let_def)
    show ?thesis
      using step [of "ZeroSubtree d" "ZeroSubtree d" None] holds_zero [of False d]
      unfolding t eq by simp
  qed (use Suc.prems in auto)
qed

lemma node_with_chunk_holds:
  assumes "holds True d t cs" and "d \<le> 64" and "i \<le> length cs" and "i < 2 ^ d"
  shows "\<exists>t'. node_with_chunk t i c d = Some t' \<and> holds True d t' (set_or_push cs i c)
           \<and> (cache_ok sha T t \<longrightarrow> cache_ok sha T t')"
  using assms
proof (induction d arbitrary: t cs i)
  case 0
  then have i: "i = 0" by simp
  have "length cs \<le> 1" using holds_length [OF 0(1)] by simp
  then show ?case by (cases cs) (simp_all add: i set_or_push_def)
next
  case (Suc d)
  have step: "\<exists>t'. node_with_chunk (Branch l r h) i c (Suc d) = Some t'
        \<and> holds True (Suc d) t' (set_or_push cs i c)
        \<and> (cache_ok sha T (Branch l r h) \<longrightarrow> cache_ok sha T t')"
    if h: "holds True d l (take (2 ^ d) cs)" "holds True d r (drop (2 ^ d) cs)" for l r h
  proof (cases "i < 2 ^ d")
    case True
    from Suc.IH [OF h(1), of i] True Suc.prems obtain l' where
      "node_with_chunk l i c d = Some l'" "holds True d l' (set_or_push (take (2 ^ d) cs) i c)"
      "cache_ok sha T l \<longrightarrow> cache_ok sha T l'" by auto
    then show ?thesis using True Suc.prems h by (simp add: set_or_push_left set_or_push_right Let_def)
  next
    case False
    have "i - 2 ^ d < 2 ^ d" "i - 2 ^ d \<le> length (drop (2 ^ d) cs)"
      using False Suc.prems(3,4) by (simp_all add: less_diff_conv2 diff_le_mono)
    with Suc.IH [OF h(2), of "i - 2 ^ d"] Suc.prems(2) obtain r' where
      "node_with_chunk r (i - 2 ^ d) c d = Some r'"
      "holds True d r' (set_or_push (drop (2 ^ d) cs) (i - 2 ^ d) c)"
      "cache_ok sha T r \<longrightarrow> cache_ok sha T r'" by auto
    then show ?thesis using False Suc.prems h by (simp add: set_or_push_left set_or_push_right Let_def)
  qed
  show ?case
  proof (cases t)
    case (Branch l r h)
    with Suc.prems step [of l r h] show ?thesis by simp
  next
    case (ZeroSubtree z)
    then have t: "t = ZeroSubtree (Suc d)" "cs = []" using Suc.prems by simp_all
    have eq: "node_with_chunk (ZeroSubtree (Suc d)) i c (Suc d)
                = node_with_chunk (Branch (ZeroSubtree d) (ZeroSubtree d) None) i c (Suc d)"
      by (simp add: pred_u8_def Let_def)
    show ?thesis
      using step [of "ZeroSubtree d" "ZeroSubtree d" None] holds_zero [of True d]
      unfolding t eq by simp
  qed (use Suc.prems in auto)
qed

section \<open>Roots\<close>

definition chunk_root :: "bool \<Rightarrow> 'a elem_ops \<Rightarrow> 'a list \<Rightarrow> hash256" where
  "chunk_root packed T c =
     (if packed then hash_of_bytes (pad_right 32 (concat (map (elem_packed T) c)))
      else elem_root T (hd c))"

lemma pad_chunks_halves:
  assumes "length xs \<le> 2 ^ Suc d"
  shows "take (2 ^ d) (pad_chunks sha 0 (2 ^ Suc d) xs) = pad_chunks sha 0 (2 ^ d) (take (2 ^ d) xs)"
    and "drop (2 ^ d) (pad_chunks sha 0 (2 ^ Suc d) xs) = pad_chunks sha 0 (2 ^ d) (drop (2 ^ d) xs)"
  using assms by (auto simp: pad_chunks_def min_def)

lemma node_root_holds:
  "holds packed d t cs \<Longrightarrow>
     node_root sha T t = tree_root sha d (pad_chunks sha 0 (2 ^ d) (map (chunk_root packed T) cs))"
proof (induction d arbitrary: t cs)
  case 0
  then show ?case
    by (cases t) (auto simp: pad_chunks_def chunk_root_def split: list.splits)
next
  case (Suc d)
  show ?case
  proof (cases t)
    case (Branch l r h)
    with Suc.prems have h: "holds packed d l (take (2 ^ d) cs)" "holds packed d r (drop (2 ^ d) cs)"
      by simp_all
    have "length (map (chunk_root packed T) cs) \<le> 2 ^ Suc d"
      using holds_length [OF Suc.prems] by simp
    from pad_chunks_halves [OF this, of sha] show ?thesis
      using Suc.IH [OF h(1)] Suc.IH [OF h(2)] Branch by (simp add: take_map drop_map)
  next
    case (ZeroSubtree z)
    then show ?thesis using Suc.prems tree_root_zero_hashes [of sha "Suc d" 0]
      by (simp add: pad_chunks_def del: tree_root.simps)
  qed (use Suc.prems in auto)
qed

lemma node_cached_root_holds:
  assumes "holds packed d t cs" and "d < 64" and "cache_ok sha T t"
    and "\<And>c. c \<in> set cs \<Longrightarrow> packed \<Longrightarrow> length (concat (map (elem_packed T) c)) \<le> 32"
  shows "\<exists>t'. node_cached_root sha T t = Some (node_root sha T t, t') \<and> holds packed d t' cs
           \<and> cache_ok sha T t' \<and> node_elems t' = node_elems t \<and> node_root sha T t' = node_root sha T t"
  using assms
proof (induction d arbitrary: t cs)
  case 0
  show ?case
  proof (cases t)
    case (PackedLeaf elems c)
    with 0 show ?thesis
      by (cases c) (auto simp: pack_chunk_def split: list.splits)
  qed (use 0 in \<open>auto simp: zero_hash_def split: list.splits\<close>)
next
  case (Suc d)
  show ?case
  proof (cases t)
    case (Branch l r h)
    with Suc.prems have hl: "holds packed d l (take (2 ^ d) cs)" "cache_ok sha T l"
      and hr: "holds packed d r (drop (2 ^ d) cs)" "cache_ok sha T r" by simp_all
    show ?thesis
    proof (cases h)
      case None
      have "length (concat (map (elem_packed T) c)) \<le> 32"
        if "c \<in> set (take (2 ^ d) cs) \<or> c \<in> set (drop (2 ^ d) cs)" and packed for c
        using that Suc.prems(4) in_set_takeD in_set_dropD by metis
      then have sub: "c \<in> set (take (2 ^ d) cs) \<Longrightarrow> packed \<Longrightarrow> length (concat (map (elem_packed T) c)) \<le> 32"
        "c \<in> set (drop (2 ^ d) cs) \<Longrightarrow> packed \<Longrightarrow> length (concat (map (elem_packed T) c)) \<le> 32" for c
        by simp_all
      obtain l' where l': "node_cached_root sha T l = Some (node_root sha T l, l')"
        "holds packed d l' (take (2 ^ d) cs)" "cache_ok sha T l'" "node_elems l' = node_elems l"
        "node_root sha T l' = node_root sha T l"
        using Suc.IH [OF hl(1) _ hl(2) sub(1)] Suc.prems(2) by auto
      obtain r' where r': "node_cached_root sha T r = Some (node_root sha T r, r')"
        "holds packed d r' (drop (2 ^ d) cs)" "cache_ok sha T r'" "node_elems r' = node_elems r"
        "node_root sha T r' = node_root sha T r"
        using Suc.IH [OF hr(1) _ hr(2) sub(2)] Suc.prems(2) by auto
      show ?thesis using Branch None l' r' by (simp add: Let_def)
    next
      case (Some x)
      then show ?thesis using Branch Suc.prems by simp
    qed
  qed (use Suc.prems in \<open>auto simp: zero_hash_def\<close>)
qed

end
