(* ===== verification/Ssz_Refine.thy ===== *)
theory Ssz_Refine
  imports Ssz_Sequence
begin

text \<open>
  Both backends of \<^verbatim>\<open>SszList\<close> and \<^verbatim>\<open>SszVector\<close> implement the interface
  \<^verbatim>\<open>SszSequence\<close> (locale \<open>ssz_sequence\<close>): any program of writes, appends and root
  computations behaves as on a plain list of bounded length, and the root computed from the cached
  tree is the one \<^verbatim>\<open>merkleize_padded\<close> computes from the flat vector.  The locale
  \<open>tree_hash_elem\<close> states what is required of the element type; it is interpreted for the element
  types of the beacon state.  Limits are bounded by \<open>N * 32 < 2 ^ 63\<close>, far above every limit of
  the presets, so that the depth computation does not wrap.
\<close>

section \<open>Element types\<close>

text \<open>
  What the collections rely on: basic elements pack to a fixed number of bytes that divides 32, and
  an element that fills a whole chunk has that chunk as its root
  (\<^verbatim>\<open>PACKED_AS_FULL_CHUNK\<close> in \<^verbatim>\<open>tree_hash.rs\<close>).
\<close>

locale tree_hash_elem =
  fixes T :: "'a elem_ops"
  assumes packed_len: "TREE_HASH_TYPE T = THBasic \<Longrightarrow> length (elem_packed T x) = elem_fixed_len T"
    and fixed_len: "TREE_HASH_TYPE T = THBasic \<Longrightarrow> 0 < elem_fixed_len T \<and> elem_fixed_len T dvd 32"
    and full_chunk: "TREE_HASH_TYPE T = THBasic \<Longrightarrow> PACKED_AS_FULL_CHUNK T \<Longrightarrow> elem_fixed_len T = 32"
    and chunk_is_root: "TREE_HASH_TYPE T = THBasic \<Longrightarrow> elem_fixed_len T = 32 \<Longrightarrow>
          elem_root T x = hash_of_bytes (elem_packed T x)"
begin

lemma elems_per_chunk_dvd: "elems_per_chunk T dvd 32"
  using fixed_len by (auto simp: elems_per_chunk_def div_dvd_iff_mult)

lemma elems_per_chunk_pos: "0 < elems_per_chunk T"
  using elems_per_chunk_dvd by (auto intro: gr0I)

lemma basic_fixed_len: "TREE_HASH_TYPE T = THBasic \<Longrightarrow> elem_fixed_len T * elems_per_chunk T = 32"
  using fixed_len full_chunk by (auto simp: elems_per_chunk_def)

lemma packed_basic: "elems_per_chunk T \<noteq> 1 \<Longrightarrow> TREE_HASH_TYPE T = THBasic"
  by (auto simp: elems_per_chunk_def split: if_splits)

lemma length_packed_elems:
  "TREE_HASH_TYPE T = THBasic \<Longrightarrow>
     length (concat (map (elem_packed T) c)) = length c * elem_fixed_len T"
  by (induction c) (simp_all add: packed_len)

lemma packed_elems_le:
  assumes "TREE_HASH_TYPE T = THBasic" and "length c \<le> elems_per_chunk T"
  shows "length (concat (map (elem_packed T) c)) \<le> 32"
proof -
  have "length c * elem_fixed_len T \<le> elems_per_chunk T * elem_fixed_len T"
    using assms(2) by (rule mult_le_mono1)
  then show ?thesis using assms(1) basic_fixed_len by (simp add: length_packed_elems mult.commute)
qed

text \<open>Packing the bytes of a flat vector gives the chunks of the tree.\<close>

lemma pack_bytes_chunks:
  assumes "TREE_HASH_TYPE T = THBasic"
  shows "pack_bytes_to_chunks (pack_basic_elems_bytes T xs) =
           map (\<lambda>c. hash_of_bytes (pad_right 32 (concat (map (elem_packed T) c))))
             (chunks_of (elems_per_chunk T) xs)"
proof (induction "elems_per_chunk T" xs rule: chunks_of.induct)
  case (1 xs)
  let ?k = "elems_per_chunk T" and ?b = "\<lambda>c. concat (map (elem_packed T) c)"
  show ?case
  proof (cases "xs = []")
    case False
    have split: "?b xs = ?b (take ?k xs) @ ?b (drop ?k xs)"
      by (metis append_take_drop_id concat_append map_append)
    have len: "length (?b (take ?k xs)) \<le> 32"
      using assms by (intro packed_elems_le) auto
    have full: "length (?b (take ?k xs)) = 32" if "drop ?k xs \<noteq> []"
      using that assms basic_fixed_len by (simp add: length_packed_elems mult.commute)
    have t: "take 32 (?b xs) = ?b (take ?k xs)" and d: "drop 32 (?b xs) = ?b (drop ?k xs)"
      unfolding split using len full by (cases "drop ?k xs = []"; simp)+
    have "0 < length xs * elem_fixed_len T" using False assms fixed_len by simp
    then have "?b xs \<noteq> []"
      by (simp only: length_packed_elems [OF assms, symmetric] length_greater_0_conv not_False_eq_True)
    then obtain y ys where y: "?b xs = y # ys" by (cases "?b xs") auto
    have "pack_bytes_to_chunks (?b xs) =
            hash_of_bytes (pad_right 32 (take 32 (?b xs))) # pack_bytes_to_chunks (drop 32 (?b xs))"
      unfolding y by simp
    then show ?thesis using 1 False elems_per_chunk_pos t d
      by (subst chunks_of.simps) (simp add: pack_basic_elems_bytes_def)
  qed (simp add: pack_basic_elems_bytes_def)
qed

end

section \<open>Depth\<close>

lemma bit_length_le_iff: "bit_length n \<le> e \<longleftrightarrow> n < 2 ^ e"
proof (induction n arbitrary: e rule: bit_length.induct)
  case (1 n)
  show ?case
  proof (cases "n = 0")
    case True
    then show ?thesis by (subst bit_length.simps) simp
  next
    case False
    then have "bit_length n = Suc (bit_length (n div 2))" by (subst bit_length.simps) simp
    then show ?thesis using 1 False by (cases e) (simp_all add: div_less_iff_less_mult mult.commute)
  qed
qed

lemma next_pow_of_two_bit_length:
  assumes "1 < n"
  shows "next_pow_of_two n = 2 ^ bit_length (n - 1)"
proof -
  obtain d where d: "next_pow_of_two n = 2 ^ d" "n \<le> 2 ^ d" "\<And>e. n \<le> 2 ^ e \<Longrightarrow> d \<le> e"
    using next_pow_of_two_ex by metis
  have "bit_length (n - 1) \<le> d" using d(2) assms by (simp add: bit_length_le_iff)
  moreover have "n \<le> 2 ^ bit_length (n - 1)"
    using bit_length_le_iff [of "n - 1" "bit_length (n - 1)"] by simp
  ultimately show ?thesis using d(1,3) by (simp add: le_antisym)
qed

lemma nat_div_ceil: "(n + 31) div 32 = (if n mod 32 = 0 then n div 32 else n div 32 + 1)" for n :: nat
proof -
  obtain q m where n: "n = 32 * q + m" "m < 32"
    by (metis mod_less_divisor mult_div_mod_eq zero_less_numeral)
  then have "n div 32 = q" "n mod 32 = m" by simp_all
  moreover have "(n + 31) div 32 = q + (m + 31) div 32" using n by simp
  moreover have "(m + 31) div 32 = (if m = 0 then 0 else 1)"
  proof (cases "m = 0")
    case False
    then have "m + 31 = 32 + (m - 1)" by simp
    then have "(m + 31) div 32 = 1 + (m - 1) div 32" by simp
    then show ?thesis using n(2) False by simp
  qed simp
  ultimately show ?thesis by simp
qed

lemma div_ceil_unat:
  assumes "unat a + 31 < 2 ^ 64"
  shows "unat (div_ceil a 32) = (unat a + 31) div 32"
proof -
  have q: "unat (a div 32) = unat a div 32" and m: "unat (a mod 32) = unat a mod 32"
    by (simp_all add: unat_div unat_mod)
  have "unat a div 32 \<le> unat a" by (rule div_le_dividend)
  with assms q have "unat (a div 32) + 1 < 2 ^ 64" by linarith
  then have "unat (a div 32 + 1) = unat a div 32 + 1" using q unat_Suc_u64 [of "a div 32"] by simp
  moreover have "a mod 32 = 0 \<longleftrightarrow> unat a mod 32 = 0" by (simp only: m word_unat_eq_iff) simp
  ultimately show ?thesis by (simp only: div_ceil_def nat_div_ceil q split: if_splits) simp
qed

text \<open>The number of chunk leaves: \<open>\<lceil>N / epc\<rceil>\<close> for both ways the code computes it.\<close>

lemma chunk_limit_unat:
  assumes "epc * es = 32" and "unat N * 32 < 2 ^ 63"
  shows "unat (div_ceil (N * word_of_nat es) 32) = (unat N + epc - 1) div epc"
proof -
  have "es dvd 32" using assms(1) by (metis dvd_triv_right)
  then have es: "0 < es" "es \<le> 32" "0 < epc"
    using assms(1) by (auto intro: gr0I simp: dvd_imp_le)
  have u: "unat (word_of_nat es :: u64) = es" using es(2) by (simp add: unat_of_nat)
  have "unat N * es \<le> unat N * 32" using es(2) by (rule mult_le_mono2)
  then have lt: "unat N * es < 2 ^ 63" using assms(2) by (rule le_less_trans)
  then have p: "unat (N * word_of_nat es) = unat N * es"
    using unat_mult_u64 [of N "word_of_nat es"] u by simp
  then have "unat (div_ceil (N * word_of_nat es) 32) = (unat N * es + 31) div 32"
    using lt div_ceil_unat [of "N * word_of_nat es"] by simp
  also have "\<dots> = (unat N * es + 31) div es div epc"
    using assms(1) by (simp add: div_mult2_eq [symmetric] mult.commute)
  also have "unat N * es + 31 = es * (unat N + epc - 1) + (es - 1)"
  proof -
    have "31 = es * (epc - 1) + (es - 1)" using assms(1) es
      by (cases epc; cases es) (simp_all add: mult.commute)
    then show ?thesis using es by (simp add: algebra_simps flip: Suc_pred)
  qed
  also have "\<dots> div es = unat N + epc - 1" using es(1) by (subst div_mult_self4) simp_all
  finally show ?thesis .
qed

definition chunk_count :: "u64 \<Rightarrow> nat \<Rightarrow> nat" where
  "chunk_count N epc = (unat N + epc - 1) div epc"

lemma tree_depth_props:
  assumes "epc dvd 32" and "unat N * 32 < 2 ^ 63"
  shows "next_pow_of_two (max (chunk_count N epc) 1) = 2 ^ tree_depth N epc"
    and "tree_depth N epc < 64" and "chunk_count N epc \<le> 2 ^ tree_depth N epc"
proof -
  obtain es where es: "epc * es = 32" using assms(1) by (metis dvd_def)
  then have epc: "0 < epc" "epc \<le> 32" using assms(1) by (auto intro: gr0I dvd_imp_le)
  let ?c = "div_ceil (N * word_of_nat es) 32"
  have c: "unat ?c = chunk_count N epc"
    using chunk_limit_unat [OF es assms(2)] by (simp add: chunk_count_def)
  have "chunk_count N epc \<le> unat N + epc - 1" unfolding chunk_count_def by (rule div_le_dividend)
  moreover have "(31 :: nat) < 2 ^ 63" by simp
  ultimately have small: "chunk_count N epc < 2 ^ 63"
    using epc assms(2) by (cases "unat N = 0") linarith+
  have "32 div epc = es" using es epc by (metis nonzero_mult_div_cancel_left less_numeral_extra(3))
  moreover from this have "es \<le> 32" using div_le_dividend [of 32 epc] by simp
  ultimately have "32 div word_of_nat epc = (word_of_nat es :: u64)"
    using epc by (simp add: word_unat_eq_iff unat_div unat_of_nat)
  then have d: "tree_depth N epc = (if chunk_count N epc \<le> 1 then 0 else bit_length (chunk_count N epc - 1))"
    using c by (auto simp: tree_depth_def depth_for_limit_def Let_def max_def word_le_nat_alt unat_sub)
  show "next_pow_of_two (max (chunk_count N epc) 1) = 2 ^ tree_depth N epc"
    using d next_pow_of_two_bit_length [of "chunk_count N epc"] by (simp add: max_def)
  have "bit_length (chunk_count N epc - 1) \<le> 63" using small by (simp only: bit_length_le_iff)
  then show "tree_depth N epc < 64" using d by simp
  have "chunk_count N epc - 1 < 2 ^ bit_length (chunk_count N epc - 1)"
    by (simp only: bit_length_le_iff [symmetric])
  then have "chunk_count N epc \<le> 2 ^ bit_length (chunk_count N epc - 1)" by linarith
  then show "chunk_count N epc \<le> 2 ^ tree_depth N epc" using d by simp
qed

lemma length_chunks_le:
  assumes "0 < epc" and "length xs \<le> unat N"
  shows "length (chunks_of epc xs) \<le> chunk_count N epc"
  using assms by (simp add: length_chunks_of chunk_count_def div_le_mono)

section \<open>A collection of known element type and limit\<close>

locale sized_elem = tree_hash_elem T for T :: "'a elem_ops" +
  fixes N :: u64 and sha :: sha256
  assumes limit: "unat N * 32 < 2 ^ 63"
begin

abbreviation epc :: nat where "epc \<equiv> elems_per_chunk T"

abbreviation tree_holds :: "'a node \<Rightarrow> 'a list \<Rightarrow> bool" where
  "tree_holds t xs \<equiv> holds (epc \<noteq> 1) (tree_depth N epc) t (chunks_of epc xs)"

lemmas depth_facts = tree_depth_props [OF elems_per_chunk_dvd limit]

lemma tree_holds_elems: "tree_holds t xs \<Longrightarrow> node_elems t = xs"
  using holds_elems concat_chunks_of [OF elems_per_chunk_pos] by metis

lemma tree_index:
  assumes "tree_holds t xs" and "i < length xs"
  shows "i div epc < length (chunks_of epc xs)" and "i div epc < 2 ^ tree_depth N epc"
proof -
  have "epc * (i div epc) < length xs" using assms(2) by (meson le_less_trans times_div_less_eq_dividend)
  then show *: "i div epc < length (chunks_of epc xs)"
    using elems_per_chunk_pos by (simp add: less_length_chunks_of)
  show "i div epc < 2 ^ tree_depth N epc"
    using less_le_trans [OF * holds_length [OF assms(1)]] .
qed

lemma chunk_of_index:
  assumes "i < length xs"
  shows "nth_opt (chunks_of epc xs) (i div epc) = Some (take epc (drop (epc * (i div epc)) xs))"
    and "nth_opt (take epc (drop (epc * (i div epc)) xs)) (i mod epc) = Some (xs ! i)"
proof -
  have lt: "epc * (i div epc) < length xs" using assms by (meson le_less_trans times_div_less_eq_dividend)
  show "nth_opt (chunks_of epc xs) (i div epc) = Some (take epc (drop (epc * (i div epc)) xs))"
    using lt elems_per_chunk_pos by (simp add: nth_opt_def less_length_chunks_of nth_chunks_of)
  have "i mod epc < epc" "i mod epc < length xs - epc * (i div epc)"
    using elems_per_chunk_pos assms by (simp, metis add_less_cancel_left le_add_diff_inverse less_imp_le
        lt mult_div_mod_eq)
  then show "nth_opt (take epc (drop (epc * (i div epc)) xs)) (i mod epc) = Some (xs ! i)"
    using lt by (simp add: nth_opt_def)
qed

lemma tree_get:
  assumes "tree_holds t xs" and "i < length xs"
  shows "(if epc = 1 then node_get t i (tree_depth N epc)
          else do { c \<leftarrow> node_chunk_at t (i div epc) (tree_depth N epc);
                    Some (case c of None \<Rightarrow> None | Some c \<Rightarrow> nth_opt c (i mod epc)) })
         = Some (Some (xs ! i))"
proof (cases "epc = 1")
  case True
  then show ?thesis
    using node_get_holds [of "tree_depth N epc" t "chunks_of epc xs" i] tree_index [OF assms] assms
      depth_facts(2) by (simp add: chunks_of_1 nth_opt_def)
next
  case False
  then show ?thesis
    using node_chunk_at_holds [of "tree_depth N epc" t "chunks_of epc xs" "i div epc"]
      tree_index [OF assms] assms depth_facts(2) chunk_of_index [OF assms(2)] by simp
qed

lemma tree_set_ok:
  assumes "tree_holds t xs" and "i < length xs"
  shows "\<exists>t'. tree_set N epc t i v = Some t' \<and> tree_holds t' (xs[i := v])
           \<and> (cache_ok sha T t \<longrightarrow> cache_ok sha T t')"
proof (cases "epc = 1")
  case True
  have "length (chunks_of 1 xs) = length xs" by (simp add: chunks_of_1)
  then show ?thesis
    using node_with_set_holds [of "tree_depth N 1" t "chunks_of 1 xs" i v sha T]
      tree_index [OF assms] assms depth_facts(2) chunks_of_update [of 1 i xs v] True
    by (auto simp: tree_set_def Let_def set_or_push_update chunks_of_1)
next
  case False
  note idx = tree_index [OF assms]
  have chunk: "node_chunk_at t (i div epc) (tree_depth N epc) = Some (Some (chunks_of epc xs ! (i div epc)))"
    using node_chunk_at_holds [of "tree_depth N epc" t "chunks_of epc xs" "i div epc"]
      idx assms depth_facts(2) False by (simp add: nth_opt_def)
  have "i mod epc < length (chunks_of epc xs ! (i div epc))"
    using chunk_of_index [OF assms(2)] idx by (simp add: nth_opt_def split: if_splits)
  moreover obtain t' where "node_with_chunk t (i div epc)
        ((chunks_of epc xs ! (i div epc))[i mod epc := v]) (tree_depth N epc) = Some t'"
    "holds True (tree_depth N epc) t' (chunks_of epc (xs[i := v]))"
    "cache_ok sha T t \<longrightarrow> cache_ok sha T t'"
    using node_with_chunk_holds [of "tree_depth N epc" t "chunks_of epc xs" "i div epc" _ sha T]
      idx assms depth_facts(2) chunks_of_update [OF elems_per_chunk_pos assms(2), of v] False
    by (auto simp: set_or_push_update)
  ultimately show ?thesis using False chunk by (simp add: tree_set_def Let_def)
qed

lemma tree_push_ok:
  assumes "tree_holds t xs" and "length xs < unat N"
  shows "\<exists>t'. tree_push N epc t (length xs) v
             = Some t' \<and> tree_holds t' (xs @ [v]) \<and> (cache_ok sha T t \<longrightarrow> cache_ok sha T t')"
proof -
  let ?i = "length xs div epc"
  note pos = elems_per_chunk_pos
  have len: "length (chunks_of epc (xs @ [v])) \<le> chunk_count N epc"
    using length_chunks_le [OF pos, of "xs @ [v]" N] assms(2) by simp
  have i: "?i < length (chunks_of epc (xs @ [v]))"
    using pos by (simp add: less_length_chunks_of less_Suc_eq_le)
  then have i2: "?i < 2 ^ tree_depth N epc" using len depth_facts(3) by linarith
  have i3: "?i \<le> length (chunks_of epc xs)" using pos by (simp add: length_chunks_of div_le_mono)
  note push = chunks_of_push [OF pos, of xs v]
  show ?thesis
  proof (cases "epc = 1")
    case True
    then show ?thesis
      using node_with_set_holds [of "tree_depth N 1" t "chunks_of 1 xs" "length xs" v sha T] assms(1)
        i2 i3 depth_facts(2) push by (auto simp: tree_push_def)
  next
    case False
    have upd: "\<exists>t'. node_with_chunk t ?i c (tree_depth N epc) = Some t'
           \<and> holds True (tree_depth N epc) t' (set_or_push (chunks_of epc xs) ?i c)
           \<and> (cache_ok sha T t \<longrightarrow> cache_ok sha T t')" for c
      using node_with_chunk_holds [of "tree_depth N epc" t "chunks_of epc xs" ?i c sha T]
        assms(1) False i2 i3 depth_facts(2) by simp
    show ?thesis
    proof (cases "length xs mod epc = 0")
      case True
      then show ?thesis using upd [of "[v]"] push False by (simp add: tree_push_def)
    next
      case mod: False
      have "epc * ?i < length xs" using mod mult_div_mod_eq [of epc "length xs"] by linarith
      then have "node_chunk_at t ?i (tree_depth N epc) = Some (Some (chunks_of epc xs ! ?i))"
        using node_chunk_at_holds [of "tree_depth N epc" t "chunks_of epc xs" ?i] assms(1) False i2
          depth_facts(2) pos by (simp add: nth_opt_def less_length_chunks_of)
      then show ?thesis using upd [of "chunks_of epc xs ! ?i @ [v]"] push False mod
        by (simp add: tree_push_def Let_def)
    qed
  qed
qed

lemma from_vec_tree_holds:
  assumes "length xs \<le> unat N"
  shows "tree_holds (if epc = 1 then node_from_slice xs (tree_depth N epc)
                     else node_from_chunks (chunks_of epc xs) (tree_depth N epc)) xs"
proof -
  have "length (chunks_of epc xs) \<le> 2 ^ tree_depth N epc"
    using length_chunks_le [OF elems_per_chunk_pos assms] depth_facts(3) by linarith
  then show ?thesis
    using holds_from_chunks [of "chunks_of epc xs" "tree_depth N epc"] depth_facts(2)
      holds_from_slice [of xs "tree_depth N epc"] by (auto simp: chunks_of_1)
qed

lemma tree_hash_ok:
  assumes "tree_holds t xs" and "cache_ok sha T t"
  shows "\<exists>t'. node_cached_root sha T t
             = Some (tree_root sha (tree_depth N epc) (pad_chunks sha 0 (2 ^ tree_depth N epc)
                       (map (chunk_root (epc \<noteq> 1) T) (chunks_of epc xs))), t')
           \<and> tree_holds t' xs \<and> cache_ok sha T t' \<and> node_elems t' = node_elems t"
proof -
  have len: "length (concat (map (elem_packed T) c)) \<le> 32"
    if c: "c \<in> set (chunks_of epc xs)" and "epc \<noteq> 1" for c
  proof -
    obtain i where i: "i < length (chunks_of epc xs)" "c = chunks_of epc xs ! i"
      using c by (auto simp: in_set_conv_nth)
    then have "length c \<le> epc" using elems_per_chunk_pos
      by (simp add: less_length_chunks_of nth_chunks_of)
    then show ?thesis using packed_elems_le packed_basic that(2) by simp
  qed
  from node_cached_root_holds [OF assms(1) depth_facts(2) assms(2) len]
  show ?thesis using node_root_holds [OF assms(1), of sha T] by auto
qed

text \<open>The root of the flat vector, by the loops of \<^verbatim>\<open>merkleize_padded\<close> and \<^verbatim>\<open>merkleize\<close>.\<close>

abbreviation flat_chunks :: "'a list \<Rightarrow> hash256 list" where
  "flat_chunks xs \<equiv> (if TREE_HASH_TYPE T = THBasic
     then pack_bytes_to_chunks (pack_basic_elems_bytes T xs) else map (elem_root T) xs)"

lemma flat_chunks_eq: "flat_chunks xs = map (chunk_root (epc \<noteq> 1) T) (chunks_of epc xs)"
proof (cases "TREE_HASH_TYPE T = THBasic")
  case True
  show ?thesis
  proof (cases "epc = 1")
    case one: True
    then have "elem_fixed_len T = 32" using basic_fixed_len [OF True] by simp
    then have "hash_of_bytes (pad_right 32 (elem_packed T x)) = elem_root T x" for x
      using chunk_is_root [OF True] packed_len [OF True] by (simp add: pad_right_def)
    then show ?thesis using pack_bytes_chunks [OF True] True one
      by (simp add: chunk_root_def chunks_of_1 comp_def)
  qed (use pack_bytes_chunks [OF True] True in \<open>simp add: chunk_root_def\<close>)
next
  case False
  then have "epc = 1" using packed_basic by blast
  then show ?thesis using False by (simp add: chunk_root_def chunks_of_1 comp_def)
qed

lemma flat_limit:
  "(if TREE_HASH_TYPE T = THBasic then unat (div_ceil (N * word_of_nat (elem_fixed_len T)) 32)
    else unat N) = chunk_count N epc"
proof (cases "TREE_HASH_TYPE T = THBasic")
  case True
  then show ?thesis using chunk_limit_unat [of epc "elem_fixed_len T" N] basic_fixed_len limit
    by (simp add: chunk_count_def mult.commute)
next
  case False
  then have "epc = 1" using packed_basic by blast
  then show ?thesis using False by (simp add: chunk_count_def)
qed

lemma merkleize_padded_flat:
  assumes "length xs \<le> unat N"
  shows "merkleize_padded sha (flat_chunks xs) (chunk_count N epc)
           = Some (tree_root sha (tree_depth N epc) (pad_chunks sha 0 (2 ^ tree_depth N epc)
                     (map (chunk_root (epc \<noteq> 1) T) (chunks_of epc xs))))"
proof -
  have len: "length (chunks_of epc xs) \<le> chunk_count N epc"
    by (rule length_chunks_le [OF elems_per_chunk_pos assms])
  show ?thesis
  proof (cases "chunk_count N epc = 0")
    case True
    then have "tree_depth N epc = 0" using depth_facts(1) by (cases "tree_depth N epc") simp_all
    then show ?thesis using True len
      by (simp add: flat_chunks_eq merkleize_padded_def zero_hash_def pad_chunks_def)
  next
    case False
    have "length (map (chunk_root (epc \<noteq> 1) T) (chunks_of epc xs)) \<le> 2 ^ tree_depth N epc"
      using len depth_facts(3) by simp
    from merkleize_padded_inner_root [OF this depth_facts(2)] show ?thesis
      using False len depth_facts(1) by (simp add: flat_chunks_eq merkleize_padded_def)
  qed
qed

lemma merkleize_flat:
  assumes "length xs = unat N"
  shows "merkleize sha (flat_chunks xs)
           = Some (tree_root sha (tree_depth N epc) (pad_chunks sha 0 (2 ^ tree_depth N epc)
                     (map (chunk_root (epc \<noteq> 1) T) (chunks_of epc xs))))"
proof -
  have "length (chunks_of epc xs) = chunk_count N epc"
    using assms elems_per_chunk_pos by (simp add: length_chunks_of chunk_count_def)
  then have "merkleize sha (flat_chunks xs) = merkleize_padded sha (flat_chunks xs) (chunk_count N epc)"
    by (auto simp: flat_chunks_eq merkleize_def merkleize_padded_def max_def Suc_le_eq)
  then show ?thesis using merkleize_padded_flat [of xs] assms by simp
qed

end

lemma cache_ok_fresh [simp]:
  "cache_ok sha T (node_from_slice xs d)" "cache_ok sha T (node_from_chunks cs d)"
proof -
  show "cache_ok sha T (node_from_slice xs d)"
    by (induction d arbitrary: xs) (auto simp: Let_def split: list.splits)
  show "cache_ok sha T (node_from_chunks cs d)"
    by (induction d arbitrary: cs) (auto simp: Let_def split: list.splits)
qed

section \<open>The sequence interface\<close>

text \<open>
  \<open>ssz_sequence\<close> is the contract of the trait \<^verbatim>\<open>SszSequence\<close> together with
  \<^verbatim>\<open>tree_hash_root\<close>: on well-formed values no operation panics, reads and writes are those of the
  list of elements, a write out of range or beyond the capacity is an error, and the root depends on
  the elements only.
\<close>

locale ssz_sequence =
  fixes ok :: "'s \<Rightarrow> bool" and content :: "'s \<Rightarrow> 'a list" and cap :: nat
    and get_elem :: "'s \<Rightarrow> nat \<Rightarrow> 'a option option" and iter :: "'s \<Rightarrow> 'a list"
    and with_set :: "'s \<Rightarrow> nat \<Rightarrow> 'a \<Rightarrow> (ssz_error, 's) result option"
    and with_push :: "'s \<Rightarrow> 'a \<Rightarrow> (ssz_error, 's) result option"
    and hash_root :: "'s \<Rightarrow> (hash256 \<times> 's) option" and list_root :: "'a list \<Rightarrow> hash256"
  assumes get_ok: "ok s \<Longrightarrow> get_elem s i = Some (nth_opt (content s) i)"
    and iter_ok: "ok s \<Longrightarrow> iter s = content s"
    and set_ok: "ok s \<Longrightarrow> i < length (content s) \<Longrightarrow>
          \<exists>s'. with_set s i v = Some (Inr s') \<and> ok s' \<and> content s' = (content s)[i := v]"
    and set_err: "ok s \<Longrightarrow> length (content s) \<le> i \<Longrightarrow> \<exists>e. with_set s i v = Some (Inl e)"
    and push_ok: "ok s \<Longrightarrow> length (content s) < cap \<Longrightarrow>
          \<exists>s'. with_push s v = Some (Inr s') \<and> ok s' \<and> content s' = content s @ [v]"
    and push_err: "ok s \<Longrightarrow> cap \<le> length (content s) \<Longrightarrow> \<exists>e. with_push s v = Some (Inl e)"
    and hash_ok: "ok s \<Longrightarrow>
          \<exists>s'. hash_root s = Some (list_root (content s), s') \<and> ok s' \<and> content s' = content s"

text \<open>
  A client: a program of writes, appends and root computations.  A failed operation leaves the
  collection as it was.
\<close>

datatype 'a seq_op = SetOp nat 'a | PushOp 'a | HashOp

fun run_ops ::
  "('s \<Rightarrow> nat \<Rightarrow> 'a \<Rightarrow> (ssz_error, 's) result option) \<Rightarrow> ('s \<Rightarrow> 'a \<Rightarrow> (ssz_error, 's) result option)
   \<Rightarrow> ('s \<Rightarrow> (hash256 \<times> 's) option) \<Rightarrow> 'a seq_op list \<Rightarrow> 's \<Rightarrow> 's option" where
  "run_ops with_set with_push hash_root [] s = Some s"
| "run_ops with_set with_push hash_root (SetOp i v # ops) s =
     do { r \<leftarrow> with_set s i v;
          run_ops with_set with_push hash_root ops (case r of Inl _ \<Rightarrow> s | Inr s' \<Rightarrow> s') }"
| "run_ops with_set with_push hash_root (PushOp v # ops) s =
     do { r \<leftarrow> with_push s v;
          run_ops with_set with_push hash_root ops (case r of Inl _ \<Rightarrow> s | Inr s' \<Rightarrow> s') }"
| "run_ops with_set with_push hash_root (HashOp # ops) s =
     do { (_, s') \<leftarrow> hash_root s; run_ops with_set with_push hash_root ops s' }"

text \<open>The same program on a list with capacity \<open>cap\<close>: the abstract specification.\<close>

fun run_list :: "nat \<Rightarrow> 'a seq_op list \<Rightarrow> 'a list \<Rightarrow> 'a list" where
  "run_list cap [] xs = xs"
| "run_list cap (SetOp i v # ops) xs = run_list cap ops (xs[i := v])"
| "run_list cap (PushOp v # ops) xs = run_list cap ops (if length xs < cap then xs @ [v] else xs)"
| "run_list cap (HashOp # ops) xs = run_list cap ops xs"

context ssz_sequence
begin

lemma run_refines:
  "ok s \<Longrightarrow> \<exists>s'. run_ops with_set with_push hash_root ops s = Some s' \<and> ok s'
     \<and> content s' = run_list cap ops (content s)"
proof (induction ops arbitrary: s)
  case (Cons opn ops)
  show ?case
  proof (cases opn)
    case (SetOp i v)
    show ?thesis
    proof (cases "i < length (content s)")
      case True
      then show ?thesis using set_ok [OF Cons.prems True, of v] Cons.IH SetOp by fastforce
    next
      case False
      then obtain e where "with_set s i v = Some (Inl e)" using set_err [OF Cons.prems, of i v] by auto
      then show ?thesis using Cons.IH [OF Cons.prems] SetOp False by (simp add: list_update_beyond)
    qed
  next
    case (PushOp v)
    show ?thesis
    proof (cases "length (content s) < cap")
      case True
      then show ?thesis using push_ok [OF Cons.prems True, of v] Cons.IH PushOp by fastforce
    next
      case False
      then obtain e where "with_push s v = Some (Inl e)" using push_err [OF Cons.prems, of v] by auto
      then show ?thesis using Cons.IH [OF Cons.prems] PushOp False by simp
    qed
  next
    case HashOp
    then show ?thesis using hash_ok [OF Cons.prems] Cons.IH by fastforce
  qed
qed simp

lemma run_observable:
  assumes "ok s"
  obtains s' where "run_ops with_set with_push hash_root ops s = Some s'"
    "iter s' = run_list cap ops (content s)"
    "\<And>i. get_elem s' i = Some (nth_opt (run_list cap ops (content s)) i)"
    "map_option fst (hash_root s') = Some (list_root (run_list cap ops (content s)))"
  using run_refines [OF assms, of ops] get_ok iter_ok hash_ok by fastforce

end

section \<open>Lists and vectors implement the interface\<close>

definition backend_elems :: "'a backend \<Rightarrow> 'a list" where
  "backend_elems b = (case b of Flat v \<Rightarrow> v | Tree t \<Rightarrow> node_elems t)"

definition backend_ok :: "sha256 \<Rightarrow> 'a elem_ops \<Rightarrow> u64 \<Rightarrow> 'a backend \<Rightarrow> nat \<Rightarrow> bool" where
  "backend_ok sha T N b epc \<longleftrightarrow>
     (case b of
        Flat v \<Rightarrow> epc = 1
      | Tree t \<Rightarrow> epc = elems_per_chunk T \<and> cache_ok sha T t
          \<and> holds (epc \<noteq> 1) (tree_depth N epc) t (chunks_of epc (node_elems t)))"

definition list_ok :: "sha256 \<Rightarrow> 'a elem_ops \<Rightarrow> u64 \<Rightarrow> 'a ssz_list \<Rightarrow> bool" where
  "list_ok sha T N l \<longleftrightarrow>
     sl_len l = length (backend_elems (sl_backend l)) \<and> sl_len l \<le> unat N
     \<and> backend_ok sha T N (sl_backend l) (sl_epc l)"

definition vector_ok :: "sha256 \<Rightarrow> 'a elem_ops \<Rightarrow> u64 \<Rightarrow> 'a ssz_vector \<Rightarrow> bool" where
  "vector_ok sha T N l \<longleftrightarrow>
     length (backend_elems (sv_backend l)) = unat N \<and> backend_ok sha T N (sv_backend l) (sv_epc l)"

lemma backend_simps [simp]:
  "backend_elems (Flat v) = v" "backend_elems (Tree t) = node_elems t"
  "backend_ok sha T N (Flat v) epc \<longleftrightarrow> epc = 1"
  "backend_ok sha T N (Tree t) epc \<longleftrightarrow> epc = elems_per_chunk T \<and> cache_ok sha T t
     \<and> holds (elems_per_chunk T \<noteq> 1) (tree_depth N (elems_per_chunk T)) t
           (chunks_of (elems_per_chunk T) (node_elems t))"
  by (auto simp: backend_elems_def backend_ok_def)

text \<open>The Merkle root of a list of elements, with the padding of limit \<open>N\<close>.\<close>

definition elems_root :: "sha256 \<Rightarrow> 'a elem_ops \<Rightarrow> u64 \<Rightarrow> 'a list \<Rightarrow> hash256" where
  "elems_root sha T N xs =
     (let epc = elems_per_chunk T; d = tree_depth N epc
      in tree_root sha d (pad_chunks sha 0 (2 ^ d) (map (chunk_root (epc \<noteq> 1) T) (chunks_of epc xs))))"

definition ssz_list_root :: "sha256 \<Rightarrow> 'a elem_ops \<Rightarrow> u64 \<Rightarrow> 'a list \<Rightarrow> hash256" where
  "ssz_list_root sha T N xs = mix_in_length sha (elems_root sha T N xs) (word_of_nat (length xs))"

context sized_elem
begin

lemma backend_set_ok:
  assumes "backend_ok sha T N (Tree t) e" and "i < length (node_elems t)"
  shows "\<exists>t'. tree_set N e t i v = Some t' \<and> backend_ok sha T N (Tree t') e
           \<and> node_elems t' = (node_elems t)[i := v]"
  using assms tree_set_ok [of t "node_elems t" i v] tree_holds_elems by fastforce

lemma backend_hash_ok:
  assumes "backend_ok sha T N (Tree t) e"
  shows "\<exists>t'. node_cached_root sha T t = Some (elems_root sha T N (node_elems t), t')
           \<and> backend_ok sha T N (Tree t') e \<and> node_elems t' = node_elems t"
  using assms tree_hash_ok [of t "node_elems t"] by (fastforce simp: elems_root_def Let_def)

lemma list_get:
  assumes "list_ok sha T N l"
  shows "ssz_list_get N l i = Some (nth_opt (backend_elems (sl_backend l)) i)"
proof (cases "sl_backend l")
  case (Tree t)
  then show ?thesis using assms tree_get [of t "node_elems t" i]
    by (auto simp: ssz_list_get_def list_ok_def nth_opt_def Let_def)
qed (simp add: ssz_list_get_def)

lemma list_iter:
  assumes "list_ok sha T N l"
  shows "ssz_list_iter N l = backend_elems (sl_backend l)"
proof (cases "sl_backend l")
  case (Tree t)
  then have "tree_holds t (node_elems t)" "sl_len l = length (node_elems t)" "sl_epc l = epc"
    using assms by (simp_all add: list_ok_def)
  with tree_iter_holds [OF this(1)] Tree elems_per_chunk_pos show ?thesis
    by (simp add: ssz_list_iter_def concat_chunks_of)
qed (simp add: ssz_list_iter_def)

lemma list_set:
  assumes "list_ok sha T N l" and "i < length (backend_elems (sl_backend l))"
  shows "\<exists>l'. ssz_list_with_set N l i v = Some (Inr l') \<and> list_ok sha T N l'
           \<and> backend_elems (sl_backend l') = (backend_elems (sl_backend l))[i := v]"
proof (cases "sl_backend l")
  case (Tree t)
  then show ?thesis using assms backend_set_ok [of t "sl_epc l" i v]
    by (fastforce simp: ssz_list_with_set_def list_ok_def)
qed (use assms in \<open>simp add: ssz_list_with_set_def list_ok_def\<close>)

lemma backend_push_ok:
  assumes "backend_ok sha T N (Tree t) e" and "length (node_elems t) < unat N"
  shows "\<exists>t'. tree_push N e t (length (node_elems t)) v = Some t' \<and> backend_ok sha T N (Tree t') e
           \<and> node_elems t' = node_elems t @ [v]"
  using assms tree_push_ok [of t "node_elems t" v] tree_holds_elems by fastforce

lemma list_push:
  assumes "list_ok sha T N l" and "length (backend_elems (sl_backend l)) < unat N"
  shows "\<exists>l'. ssz_list_with_push N l v = Some (Inr l') \<and> list_ok sha T N l'
           \<and> backend_elems (sl_backend l') = backend_elems (sl_backend l) @ [v]"
proof (cases "sl_backend l")
  case (Tree t)
  then show ?thesis using assms backend_push_ok [of t "sl_epc l" v]
    by (fastforce simp: ssz_list_with_push_def list_ok_def)
qed (use assms in \<open>simp add: ssz_list_with_push_def list_ok_def\<close>)

lemma list_hash:
  assumes "list_ok sha T N l"
  shows "\<exists>l'. ssz_list_tree_hash_root sha T N l
             = Some (ssz_list_root sha T N (backend_elems (sl_backend l)), l')
           \<and> list_ok sha T N l' \<and> backend_elems (sl_backend l') = backend_elems (sl_backend l)"
proof (cases "sl_backend l")
  case (Tree t)
  then show ?thesis using assms backend_hash_ok [of t "sl_epc l"]
    by (fastforce simp: ssz_list_tree_hash_root_def list_ok_def ssz_list_root_def)
next
  case (Flat v)
  then have "length v \<le> unat N" using assms by (simp add: list_ok_def)
  from merkleize_padded_flat [OF this] flat_limit Flat assms show ?thesis
    by (cases "TREE_HASH_TYPE T = THBasic")
      (simp_all add: ssz_list_tree_hash_root_def ssz_list_root_def elems_root_def Let_def list_ok_def)
qed

lemma list_errors:
  "list_ok sha T N l \<Longrightarrow> length (backend_elems (sl_backend l)) \<le> i \<Longrightarrow>
     \<exists>e. ssz_list_with_set N l i v = Some (Inl e)"
  "list_ok sha T N l \<Longrightarrow> unat N \<le> length (backend_elems (sl_backend l)) \<Longrightarrow>
     \<exists>e. ssz_list_with_push N l v = Some (Inl e)"
  by (simp_all add: list_ok_def ssz_list_with_set_def ssz_list_with_push_def)

lemma vector_get:
  assumes "vector_ok sha T N l"
  shows "ssz_vector_get N l i = Some (nth_opt (backend_elems (sv_backend l)) i)"
proof (cases "sv_backend l")
  case (Tree t)
  then show ?thesis using assms tree_get [of t "node_elems t" i]
    by (auto simp: ssz_vector_get_def vector_ok_def nth_opt_def Let_def)
qed (simp add: ssz_vector_get_def)

lemma vector_iter:
  assumes "vector_ok sha T N l"
  shows "ssz_vector_iter N l = backend_elems (sv_backend l)"
proof (cases "sv_backend l")
  case (Tree t)
  then have "tree_holds t (node_elems t)" "unat N = length (node_elems t)" "sv_epc l = epc"
    using assms by (simp_all add: vector_ok_def)
  with tree_iter_holds [OF this(1)] Tree elems_per_chunk_pos show ?thesis
    by (simp add: ssz_vector_iter_def concat_chunks_of)
qed (simp add: ssz_vector_iter_def)

lemma vector_set:
  assumes "vector_ok sha T N l" and "i < length (backend_elems (sv_backend l))"
  shows "\<exists>l'. ssz_vector_with_set N l i v = Some (Inr l') \<and> vector_ok sha T N l'
           \<and> backend_elems (sv_backend l') = (backend_elems (sv_backend l))[i := v]"
proof (cases "sv_backend l")
  case (Tree t)
  then show ?thesis using assms backend_set_ok [of t "sv_epc l" i v]
    by (fastforce simp: ssz_vector_with_set_def vector_ok_def)
qed (use assms in \<open>simp add: ssz_vector_with_set_def vector_ok_def\<close>)

lemma vector_push:
  "vector_ok sha T N l \<Longrightarrow> length (backend_elems (sv_backend l)) < unat N \<Longrightarrow>
     \<exists>l'. ssz_vector_with_push N l v = Some (Inr l') \<and> vector_ok sha T N l'
       \<and> backend_elems (sv_backend l') = backend_elems (sv_backend l) @ [v]"
  by (simp add: vector_ok_def)

lemma vector_errors:
  "vector_ok sha T N l \<Longrightarrow> length (backend_elems (sv_backend l)) \<le> i \<Longrightarrow>
     \<exists>e. ssz_vector_with_set N l i v = Some (Inl e)"
  "\<exists>e. ssz_vector_with_push N l v = Some (Inl e)"
  by (simp_all add: vector_ok_def ssz_vector_with_set_def ssz_vector_with_push_def)

lemma vector_hash:
  assumes "vector_ok sha T N l"
  shows "\<exists>l'. ssz_vector_tree_hash_root sha T N l
             = Some (elems_root sha T N (backend_elems (sv_backend l)), l')
           \<and> vector_ok sha T N l' \<and> backend_elems (sv_backend l') = backend_elems (sv_backend l)"
proof (cases "sv_backend l")
  case (Tree t)
  then show ?thesis using assms backend_hash_ok [of t "sv_epc l"]
    by (fastforce simp: ssz_vector_tree_hash_root_def vector_ok_def)
next
  case (Flat v)
  then have "length v = unat N" using assms by (simp add: vector_ok_def)
  from merkleize_flat [OF this] Flat assms show ?thesis
    by (simp add: ssz_vector_tree_hash_root_def elems_root_def Let_def vector_ok_def)
qed

lemma list_from_vec:
  assumes "length v \<le> unat N"
  obtains lf lt where "ssz_list_from_vec N v = Inr lf" "ssz_list_from_vec_tree T N v = Inr lt"
    "list_ok sha T N lf" "list_ok sha T N lt"
    "backend_elems (sl_backend lf) = v" "backend_elems (sl_backend lt) = v"
proof -
  have "node_elems (if epc = 1 then node_from_slice v (tree_depth N epc)
                    else node_from_chunks (chunks_of epc v) (tree_depth N epc)) = v"
    using from_vec_tree_holds [OF assms] tree_holds_elems by blast
  then show thesis using assms that from_vec_tree_holds [OF assms]
    by (simp add: ssz_list_from_vec_def ssz_list_from_vec_tree_def list_ok_def Let_def cache_ok_fresh)
qed

lemma vector_from_vec:
  assumes "length v = unat N"
  obtains lf lt where "ssz_vector_from_vec N v = Inr lf" "ssz_vector_from_vec_tree T N v = Inr lt"
    "vector_ok sha T N lf" "vector_ok sha T N lt"
    "backend_elems (sv_backend lf) = v" "backend_elems (sv_backend lt) = v"
proof -
  have le: "length v \<le> unat N" using assms by simp
  have "node_elems (if epc = 1 then node_from_slice v (tree_depth N epc)
                    else node_from_chunks (chunks_of epc v) (tree_depth N epc)) = v"
    using from_vec_tree_holds [OF le] tree_holds_elems by blast
  then show thesis using assms that from_vec_tree_holds [OF le]
    by (simp add: ssz_vector_from_vec_def ssz_vector_from_vec_tree_def vector_ok_def Let_def cache_ok_fresh)
qed

end

sublocale sized_elem \<subseteq> lists: ssz_sequence
  "list_ok sha T N" "\<lambda>l. backend_elems (sl_backend l)" "unat N" "ssz_list_get N" "ssz_list_iter N"
  "ssz_list_with_set N" "ssz_list_with_push N" "ssz_list_tree_hash_root sha T N" "ssz_list_root sha T N"
  by unfold_locales (simp_all only: list_get list_iter list_set list_push list_hash list_errors)

sublocale sized_elem \<subseteq> vectors: ssz_sequence
  "vector_ok sha T N" "\<lambda>l. backend_elems (sv_backend l)" "unat N" "ssz_vector_get N" "ssz_vector_iter N"
  "ssz_vector_with_set N" "ssz_vector_with_push N" "ssz_vector_tree_hash_root sha T N" "elems_root sha T N"
  by unfold_locales (simp_all only: vector_get vector_iter vector_set vector_push vector_hash vector_errors)

context sized_elem
begin

lemma list_same_root:
  assumes len: "length v \<le> unat N"
  shows "\<exists>lt lt' h ht hf. ssz_list_from_vec_tree T N v = Inr lt
             \<and> run_ops (ssz_list_with_set N) (ssz_list_with_push N) (ssz_list_tree_hash_root sha T N) ops lt
                 = Some lt'
             \<and> ssz_list_tree_hash_root sha T N lt' = Some (h, ht)
             \<and> ssz_list_tree_hash_root sha T N
                 \<lparr>sl_backend = Flat (run_list (unat N) ops v),
                  sl_len = length (run_list (unat N) ops v), sl_epc = 1\<rparr> = Some (h, hf)"
proof -
  let ?spec = "run_list (unat N) ops v"
  obtain lt where l: "ssz_list_from_vec_tree T N v = Inr lt" "list_ok sha T N lt"
    "backend_elems (sl_backend lt) = v"
    by (rule list_from_vec [OF len])
  from lists.run_refines [OF l(2), of ops] l(3) obtain lt' where
    "run_ops (ssz_list_with_set N) (ssz_list_with_push N) (ssz_list_tree_hash_root sha T N) ops lt = Some lt'"
    "list_ok sha T N lt'" "backend_elems (sl_backend lt') = ?spec" by auto
  moreover have "list_ok sha T N \<lparr>sl_backend = Flat ?spec, sl_len = length ?spec, sl_epc = 1\<rparr>"
    using calculation(2,3) by (simp add: list_ok_def)
  ultimately show ?thesis using l(1) list_hash by fastforce
qed

lemma vector_same_root:
  assumes len: "length v = unat N"
  shows "\<exists>vt vt' h ht hf. ssz_vector_from_vec_tree T N v = Inr vt
             \<and> run_ops (ssz_vector_with_set N) (ssz_vector_with_push N) (ssz_vector_tree_hash_root sha T N) ops vt
                 = Some vt'
             \<and> ssz_vector_tree_hash_root sha T N vt' = Some (h, ht)
             \<and> ssz_vector_tree_hash_root sha T N
                 \<lparr>sv_backend = Flat (run_list (unat N) ops v), sv_epc = 1\<rparr> = Some (h, hf)"
proof -
  let ?spec = "run_list (unat N) ops v"
  obtain vt where l: "ssz_vector_from_vec_tree T N v = Inr vt" "vector_ok sha T N vt"
    "backend_elems (sv_backend vt) = v"
    by (rule vector_from_vec [OF len])
  from vectors.run_refines [OF l(2), of ops] l(3) obtain vt' where
    "run_ops (ssz_vector_with_set N) (ssz_vector_with_push N) (ssz_vector_tree_hash_root sha T N) ops vt = Some vt'"
    "vector_ok sha T N vt'" "backend_elems (sv_backend vt') = ?spec" by auto
  moreover have "vector_ok sha T N \<lparr>sv_backend = Flat ?spec, sv_epc = 1\<rparr>"
    using calculation(2,3) by (simp add: vector_ok_def)
  ultimately show ?thesis using l(1) vector_hash by fastforce
qed

lemmas list_run_observable = lists.run_observable

end

section \<open>The collections of the beacon state\<close>

lemma tree_hash_elem_basic:
  "tree_hash_elem bool_elem" "tree_hash_elem u8_elem" "tree_hash_elem u64_elem"
  by (unfold_locales; simp add: bool_elem_def u8_elem_def u64_elem_def)+

lemma pack_one_chunk: "length bs = 32 \<Longrightarrow> pack_bytes_to_chunks bs = [hash_of_bytes bs]"
  by (cases bs) (simp_all add: pad_right_def)

lemma tree_hash_elem_hash256: "tree_hash_elem (hash256_elem sha)"
  by unfold_locales (simp_all add: hash256_elem_def fixed_bytes_root_def pack_one_chunk merkleize_def
      merkleize_padded_inner_def trailing_zeros.simps)

lemma tree_hash_elem_composite: "tree_hash_elem (composite_elem r)"
  by unfold_locales (simp_all add: composite_elem_def)

text \<open>
  \<^verbatim>\<open>balances\<close>, \<^verbatim>\<open>validators\<close>, \<^verbatim>\<open>block_roots\<close> and \<^verbatim>\<open>slashings\<close> with the limits of the mainnet
  preset; the root of a validator is a parameter.
\<close>

interpretation balances: sized_elem u64_elem "1099511627776" sha for sha
  by (simp add: sized_elem_def sized_elem_axioms_def tree_hash_elem_basic)

interpretation validators: sized_elem "composite_elem r" "1099511627776" sha for r sha
  by (simp add: sized_elem_def sized_elem_axioms_def tree_hash_elem_composite)

interpretation block_roots: sized_elem "hash256_elem sha" "8192" sha for sha
  by (simp add: sized_elem_def sized_elem_axioms_def tree_hash_elem_hash256)

interpretation slashings: sized_elem u64_elem "8192" sha for sha
  by (simp add: sized_elem_def sized_elem_axioms_def tree_hash_elem_basic)

section \<open>Properties\<close>

text \<open>C26: Both backends of \<^verbatim>\<open>SszList\<close> refine a plain list of at most \<^verbatim>\<open>N\<close> elements.  Whatever program
  of \<^verbatim>\<open>with_set\<close>, \<^verbatim>\<open>with_push\<close> and \<^verbatim>\<open>tree_hash_root\<close> calls runs on a list built from a
  vector, no call panics, and afterwards \<^verbatim>\<open>iter\<close> and \<^verbatim>\<open>get\<close> give what the same program gives on
  the plain list, where writes out of range and appends beyond the limit are ignored.\<close>

theorem list_backends_refine:
  fixes T :: "'a elem_ops" and N :: u64 and sha :: sha256 and ops :: "'a seq_op list"
  assumes "tree_hash_elem T" and "unat N * 32 < 2 ^ 63" and "length v \<le> unat N"
  defines "run \<equiv> run_ops (ssz_list_with_set N) (ssz_list_with_push N) (ssz_list_tree_hash_root sha T N) ops"
    and "spec \<equiv> run_list (unat N) ops v"
  shows "\<exists>lf lt lf' lt'. ssz_list_from_vec N v = Inr lf \<and> ssz_list_from_vec_tree T N v = Inr lt
           \<and> run lf = Some lf' \<and> run lt = Some lt'
           \<and> ssz_list_iter N lf' = spec \<and> ssz_list_iter N lt' = spec
           \<and> (\<forall>i. ssz_list_get N lf' i = Some (nth_opt spec i))
           \<and> (\<forall>i. ssz_list_get N lt' i = Some (nth_opt spec i))"
proof -
  have S: "sized_elem T N" using assms(1,2) by (simp add: sized_elem_def sized_elem_axioms_def)
  obtain lf lt where l: "ssz_list_from_vec N v = Inr lf" "ssz_list_from_vec_tree T N v = Inr lt"
    "list_ok sha T N lf" "list_ok sha T N lt"
    "backend_elems (sl_backend lf) = v" "backend_elems (sl_backend lt) = v"
    by (rule sized_elem.list_from_vec [OF S assms(3)])
  note obs = sized_elem.list_run_observable [OF S, of sha _ ops]
  obtain lf' where "run lf = Some lf'" "ssz_list_iter N lf' = spec"
    "\<And>i. ssz_list_get N lf' i = Some (nth_opt spec i)"
    using obs [OF l(3)] l(5) unfolding run_def spec_def by metis
  moreover obtain lt' where "run lt = Some lt'" "ssz_list_iter N lt' = spec"
    "\<And>i. ssz_list_get N lt' i = Some (nth_opt spec i)"
    using obs [OF l(4)] l(6) unfolding run_def spec_def by metis
  ultimately show ?thesis using l(1,2) by blast
qed

theorem list_backends_refine_witness:
  "\<exists>lf lt lf' lt'. ssz_list_from_vec 4 [1, 2, 3 :: u64] = Inr lf
     \<and> ssz_list_from_vec_tree u64_elem 4 [1, 2, 3] = Inr lt
     \<and> run_ops (ssz_list_with_set 4) (ssz_list_with_push 4) (ssz_list_tree_hash_root (\<lambda>_. 7) u64_elem 4)
          [SetOp 0 9, HashOp, PushOp 5, SetOp 4 1, PushOp 6] lt = Some lt'
     \<and> ssz_list_iter 4 lt' = [9, 2, 3, 5] \<and> ssz_list_get 4 lt' 3 = Some (Some 5)"
proof -
  let ?ops = "[SetOp 0 9, HashOp, PushOp 5, SetOp 4 1, PushOp 6 :: u64 seq_op]"
  have spec: "run_list (unat (4 :: u64)) ?ops [1, 2, 3] = [9, 2, 3, 5]" by simp
  have "unat (4 :: u64) * 32 < 2 ^ 63" "length [1, 2, 3 :: u64] \<le> unat (4 :: u64)" by simp_all
  from list_backends_refine [OF tree_hash_elem_basic(3) this, of "\<lambda>_. 7" ?ops, unfolded spec]
  obtain lf lt lt' where "ssz_list_from_vec 4 [1, 2, 3 :: u64] = Inr lf"
    "ssz_list_from_vec_tree u64_elem 4 [1, 2, 3] = Inr lt"
    "run_ops (ssz_list_with_set 4) (ssz_list_with_push 4) (ssz_list_tree_hash_root (\<lambda>_. 7) u64_elem 4)
       ?ops lt = Some lt'"
    "ssz_list_iter 4 lt' = [9, 2, 3, 5]" and get: "\<And>i. ssz_list_get 4 lt' i = Some (nth_opt [9, 2, 3, 5] i)"
    by blast
  moreover from get [of 3] have "ssz_list_get 4 lt' 3 = Some (Some 5)" by (simp add: nth_opt_def)
  ultimately show ?thesis by blast
qed

text \<open>C27: The cached tree and the flat vector have the same root.  After any program of writes, appends
  and root computations, the root of a tree-backed \<^verbatim>\<open>SszList\<close>, folded from the caches of its
  nodes, equals the one \<^verbatim>\<open>merkleize_padded\<close> computes for a flat list that holds the resulting
  elements; the same holds for \<^verbatim>\<open>SszVector\<close> and \<^verbatim>\<open>merkleize\<close>.\<close>

theorem tree_backend_same_root:
  assumes "tree_hash_elem T" and "unat N * 32 < 2 ^ 63"
  shows "(length v \<le> unat N \<longrightarrow> (\<exists>lt lt' h ht hf. ssz_list_from_vec_tree T N v = Inr lt
             \<and> run_ops (ssz_list_with_set N) (ssz_list_with_push N) (ssz_list_tree_hash_root sha T N) ops lt
                 = Some lt'
             \<and> ssz_list_tree_hash_root sha T N lt' = Some (h, ht)
             \<and> ssz_list_tree_hash_root sha T N
                 \<lparr>sl_backend = Flat (run_list (unat N) ops v),
                  sl_len = length (run_list (unat N) ops v), sl_epc = 1\<rparr> = Some (h, hf)))
         \<and> (length v = unat N \<longrightarrow> (\<exists>vt vt' h ht hf. ssz_vector_from_vec_tree T N v = Inr vt
             \<and> run_ops (ssz_vector_with_set N) (ssz_vector_with_push N) (ssz_vector_tree_hash_root sha T N) ops vt
                 = Some vt'
             \<and> ssz_vector_tree_hash_root sha T N vt' = Some (h, ht)
             \<and> ssz_vector_tree_hash_root sha T N
                 \<lparr>sv_backend = Flat (run_list (unat N) ops v), sv_epc = 1\<rparr> = Some (h, hf)))"
proof -
  have S: "sized_elem T N" using assms by (simp add: sized_elem_def sized_elem_axioms_def)
  show ?thesis by (intro conjI impI sized_elem.list_same_root [OF S] sized_elem.vector_same_root [OF S])
qed

theorem tree_backend_same_root_witness:
  "\<exists>vt vt' h ht hf. ssz_vector_from_vec_tree u64_elem 5 [1, 2, 3, 4, 5] = Inr vt
     \<and> run_ops (ssz_vector_with_set 5) (ssz_vector_with_push 5) (ssz_vector_tree_hash_root (\<lambda>_. 7) u64_elem 5)
         [HashOp, SetOp 4 9] vt = Some vt'
     \<and> ssz_vector_tree_hash_root (\<lambda>_. 7) u64_elem 5 vt' = Some (h, ht)
     \<and> ssz_vector_tree_hash_root (\<lambda>_. 7) u64_elem 5 \<lparr>sv_backend = Flat [1, 2, 3, 4, 9], sv_epc = 1\<rparr>
         = Some (h, hf)"
proof -
  have spec: "run_list (unat (5 :: u64)) [HashOp, SetOp 4 9] [1, 2, 3, 4, 5 :: u64] = [1, 2, 3, 4, 9]"
    by simp
  have "unat (5 :: u64) * 32 < 2 ^ 63" "length [1, 2, 3, 4, 5 :: u64] = unat (5 :: u64)" by simp_all
  with tree_backend_same_root [OF tree_hash_elem_basic(3), of 5 "[1, 2, 3, 4, 5]" "\<lambda>_. 7" "[HashOp, SetOp 4 9]",
      unfolded spec]
  show ?thesis by blast
qed

end
