(* ===== verification/Ssz_Codec.thy ===== *)
theory Ssz_Codec
  imports Ssz_Sequence
begin

text \<open>
  SSZ serialization: the traits \<^verbatim>\<open>Encode\<close> and \<^verbatim>\<open>Decode\<close>
  (\<^verbatim>\<open>src/crates/pharos-ssz/src/encode.rs\<close>, \<^verbatim>\<open>decode.rs\<close>), their impls for the basic types and
  for lists and vectors (\<^verbatim>\<open>sequence.rs\<close>), the container decoder \<^verbatim>\<open>SszDecoder\<close>, and the code
  the derive macros emit for structs (\<^verbatim>\<open>src/crates/pharos-ssz-derive/src/lib.rs\<close>).

  A type with its impls is a record \<open>codec\<close>.  The contract \<open>ssz_codec\<close> says that decoding
  succeeds exactly on the encodings of well-formed values: it is a round trip, and no value has
  two encodings.  Lists, vectors and containers keep the contract.  Offsets are four bytes wide,
  so a value is well-formed only if its offsets are below \<open>2 ^ 32\<close>; byte counts are naturals.
\<close>

section \<open>Codecs\<close>

record 'a codec =
  cd_fixed :: bool
  cd_fixed_len :: nat
  cd_bytes_len :: "'a \<Rightarrow> nat"
  cd_append :: "'a \<Rightarrow> u8 list"
  cd_decode :: "u8 list \<Rightarrow> (ssz_error, 'a) result"

definition BYTES_PER_LENGTH_OFFSET :: nat where
  "BYTES_PER_LENGTH_OFFSET = 4"

fun decode_bool :: "u8 list \<Rightarrow> (ssz_error, bool) result" where
  "decode_bool [b] = (if b = 0 then Inr False else if b = 1 then Inr True else Inl (InvalidBoolByte b))"
| "decode_bool bytes = Inl (InvalidByteLength (length bytes) 1)"

definition bool_codec :: "bool codec" where
  "bool_codec = \<lparr>cd_fixed = True, cd_fixed_len = 1, cd_bytes_len = (\<lambda>_. 1),
     cd_append = (\<lambda>b. [if b then 1 else 0]), cd_decode = decode_bool\<rparr>"

text \<open>The unsigned integers, \<open>n\<close> bytes wide: \<^verbatim>\<open>u8\<close> to \<^verbatim>\<open>u128\<close> and \<^verbatim>\<open>Uint256\<close>.\<close>

definition uint_codec :: "nat \<Rightarrow> 'w :: len word codec" where
  "uint_codec n = \<lparr>cd_fixed = True, cd_fixed_len = n, cd_bytes_len = (\<lambda>_. n), cd_append = le_bytes n,
     cd_decode = (\<lambda>bytes. if length bytes \<noteq> n then Inl (InvalidByteLength (length bytes) n)
                          else Inr (from_le_bytes bytes))\<rparr>"

text \<open>\<^verbatim>\<open>FixedBytes<N>\<close>.\<close>

definition fixed_bytes_codec :: "nat \<Rightarrow> u8 list codec" where
  "fixed_bytes_codec n = \<lparr>cd_fixed = True, cd_fixed_len = n, cd_bytes_len = (\<lambda>_. n), cd_append = (\<lambda>b. b),
     cd_decode = (\<lambda>bytes. if length bytes \<noteq> n then Inl (InvalidByteLength (length bytes) n)
                          else Inr bytes)\<rparr>"

section \<open>Lists and vectors\<close>

definition u32_le :: "nat \<Rightarrow> u8 list" where
  "u32_le n = le_bytes 4 (word_of_nat n :: u32)"

definition u32_from_le :: "u8 list \<Rightarrow> nat" where
  "u32_from_le bs = unat (from_le_bytes bs :: u32)"

definition variable_elems_ssz_bytes_len :: "'a codec \<Rightarrow> 'a list \<Rightarrow> nat" where
  "variable_elems_ssz_bytes_len c elems =
     length elems * BYTES_PER_LENGTH_OFFSET + (\<Sum>e\<leftarrow>elems. cd_bytes_len c e)"

text \<open>The offset of each element, from a running offset.\<close>

fun running_offsets :: "nat \<Rightarrow> nat list \<Rightarrow> nat list" where
  "running_offsets offset [] = []"
| "running_offsets offset (len # lens) = offset # running_offsets (offset + len) lens"

definition encode_variable_elems :: "'a codec \<Rightarrow> 'a list \<Rightarrow> u8 list" where
  "encode_variable_elems c elems =
     concat (map u32_le (running_offsets (length elems * BYTES_PER_LENGTH_OFFSET)
                           (map (cd_bytes_len c) elems)))
     @ concat (map (cd_append c) elems)"

definition seq_bytes_len :: "'a codec \<Rightarrow> 'a list \<Rightarrow> nat" where
  "seq_bytes_len c elems =
     (if cd_fixed c then length elems * cd_fixed_len c else variable_elems_ssz_bytes_len c elems)"

definition seq_append :: "'a codec \<Rightarrow> 'a list \<Rightarrow> u8 list" where
  "seq_append c elems =
     (if cd_fixed c then concat (map (cd_append c) elems) else encode_variable_elems c elems)"

fun validate_offsets :: "nat \<Rightarrow> nat \<Rightarrow> nat option \<Rightarrow> nat list \<Rightarrow> (ssz_error, unit) result" where
  "validate_offsets first_offset total_len prev [] = Inr ()"
| "validate_offsets first_offset total_len prev (off # offs) =
     (if off < first_offset then Inl OffsetIntoFixedRegion
      else if total_len < off then Inl (OffsetOutOfRange off total_len)
      else if (case prev of None \<Rightarrow> False | Some p \<Rightarrow> off < p) then Inl OffsetsNotMonotonic
      else validate_offsets first_offset total_len (Some off) offs)"

text \<open>The region of each element: from its offset to the next one, the last to the end.\<close>

fun body_slices :: "u8 list \<Rightarrow> nat list \<Rightarrow> u8 list list" where
  "body_slices bytes [] = []"
| "body_slices bytes [off] = [drop off bytes]"
| "body_slices bytes (off # off' # offs) =
     take (off' - off) (drop off bytes) # body_slices bytes (off' # offs)"

definition decode_list_items :: "'a codec \<Rightarrow> u8 list \<Rightarrow> (ssz_error, 'a list) result" where
  "decode_list_items c bytes =
     (if bytes = [] then Inr []
      else if cd_fixed c then
        let elem_len = cd_fixed_len c in
        if elem_len = 0 then Inl (CustomError ''zero-size element type in list/vector'')
        else if length bytes mod elem_len \<noteq> 0
        then Inl (InvalidByteLength (length bytes) (length bytes div elem_len * elem_len))
        else map_result (\<lambda>i. cd_decode c (take elem_len (drop (i * elem_len) bytes)))
               [0..<length bytes div elem_len]
      else if length bytes < BYTES_PER_LENGTH_OFFSET
      then Inl (IncompleteData BYTES_PER_LENGTH_OFFSET (length bytes))
      else
        let first_offset = u32_from_le (take 4 bytes) in
        if first_offset mod BYTES_PER_LENGTH_OFFSET \<noteq> 0 then Inl OffsetIntoFixedRegion
        else if length bytes < first_offset then Inl (OffsetOutOfRange first_offset (length bytes))
        else
          let n = first_offset div BYTES_PER_LENGTH_OFFSET in
          if n = 0 then Inl (ExtraBytes (length bytes))
          else
            let offsets = map (\<lambda>i. u32_from_le (take 4 (drop (i * BYTES_PER_LENGTH_OFFSET) bytes))) [0..<n]
            in bind_result (validate_offsets first_offset (length bytes) None offsets) (\<lambda>_.
                 map_result (cd_decode c) (body_slices bytes offsets)))"

definition list_codec :: "u64 \<Rightarrow> 'a codec \<Rightarrow> 'a list codec" where
  "list_codec N c = \<lparr>cd_fixed = False, cd_fixed_len = BYTES_PER_LENGTH_OFFSET,
     cd_bytes_len = seq_bytes_len c, cd_append = seq_append c,
     cd_decode = (\<lambda>bytes. bind_result (decode_list_items c bytes) (\<lambda>items.
       if unat N < length items then Inl (ListLimitExceeded (length items) N) else Inr items))\<rparr>"

definition vector_codec :: "u64 \<Rightarrow> 'a codec \<Rightarrow> 'a list codec" where
  "vector_codec N c = \<lparr>cd_fixed = cd_fixed c,
     cd_fixed_len = (if cd_fixed c then cd_fixed_len c * unat N else BYTES_PER_LENGTH_OFFSET),
     cd_bytes_len = seq_bytes_len c, cd_append = seq_append c,
     cd_decode = (\<lambda>bytes.
       if N = 0 then Inl (CustomError ''Vector[T, 0] is not a valid SSZ type'')
       else bind_result (decode_list_items c bytes) (\<lambda>items.
         if length items \<noteq> unat N then Inl (VectorLengthMismatch (length items) (unat N)) else Inr items))\<rparr>"

section \<open>Containers\<close>

datatype field_slot = FixedSlot nat nat | VariableSlot nat

text \<open>\<^verbatim>\<open>register_type\<close> and \<^verbatim>\<open>register_anonymous_variable_length_item\<close>, field by field.\<close>

definition register_field ::
  "'v codec \<Rightarrow> u8 list \<Rightarrow> nat \<Rightarrow> (ssz_error, field_slot \<times> nat) result" where
  "register_field c bytes cursor =
     (let stop = cursor + (if cd_fixed c then cd_fixed_len c else BYTES_PER_LENGTH_OFFSET) in
      if length bytes < stop then Inl (IncompleteData stop (length bytes))
      else if cd_fixed c then Inr (FixedSlot cursor (cd_fixed_len c), stop)
      else Inr (VariableSlot (u32_from_le (take 4 (drop cursor bytes))), stop))"

fun register_fields ::
  "'v codec list \<Rightarrow> u8 list \<Rightarrow> nat \<Rightarrow> (ssz_error, field_slot list \<times> nat) result" where
  "register_fields [] bytes cursor = Inr ([], cursor)"
| "register_fields (c # cs) bytes cursor =
     bind_result (register_field c bytes cursor) (\<lambda>(slot, cursor').
       bind_result (register_fields cs bytes cursor') (\<lambda>(slots, stop). Inr (slot # slots, stop)))"

fun variable_offsets :: "field_slot list \<Rightarrow> nat list" where
  "variable_offsets [] = []"
| "variable_offsets (FixedSlot _ _ # slots) = variable_offsets slots"
| "variable_offsets (VariableSlot off # slots) = off # variable_offsets slots"

definition maybe_resolve_offsets ::
  "field_slot list \<Rightarrow> nat \<Rightarrow> nat \<Rightarrow> (ssz_error, unit) result" where
  "maybe_resolve_offsets slots fixed_len total_len =
     (case variable_offsets slots of
        [] \<Rightarrow> if fixed_len \<noteq> total_len then Inl (ExtraBytes (total_len - fixed_len)) else Inr ()
      | off # offs \<Rightarrow>
          if off \<noteq> fixed_len then Inl OffsetIntoFixedRegion
          else validate_offsets fixed_len total_len None (off # offs))"

text \<open>The slice \<^verbatim>\<open>decode_next\<close> hands to each field; the regions of the variable fields come in order.\<close>

fun field_slices :: "u8 list \<Rightarrow> field_slot list \<Rightarrow> u8 list list \<Rightarrow> u8 list list" where
  "field_slices bytes [] bodies = []"
| "field_slices bytes (FixedSlot start len # slots) bodies =
     take len (drop start bytes) # field_slices bytes slots bodies"
| "field_slices bytes (VariableSlot off # slots) bodies =
     hd bodies # field_slices bytes slots (tl bodies)"

definition container_decode :: "'v codec list \<Rightarrow> u8 list \<Rightarrow> (ssz_error, 'v list) result" where
  "container_decode cs bytes =
     (if cs = [] then (if bytes \<noteq> [] then Inl (ExtraBytes (length bytes)) else Inr [])
      else bind_result (register_fields cs bytes 0) (\<lambda>(slots, fixed_len).
        bind_result (maybe_resolve_offsets slots fixed_len (length bytes)) (\<lambda>_.
          map_result (\<lambda>(c, slice). cd_decode c slice)
            (zip cs (field_slices bytes slots (body_slices bytes (variable_offsets slots)))))))"

text \<open>The two passes of the derived \<^verbatim>\<open>ssz_append\<close>.\<close>

fun fixed_pass :: "('v codec \<times> 'v) list \<Rightarrow> nat \<Rightarrow> u8 list" where
  "fixed_pass [] offset = []"
| "fixed_pass ((c, v) # fs) offset =
     (if cd_fixed c then cd_append c v @ fixed_pass fs offset
      else u32_le offset @ fixed_pass fs (offset + cd_bytes_len c v))"

fun var_pass :: "('v codec \<times> 'v) list \<Rightarrow> u8 list" where
  "var_pass [] = []"
| "var_pass ((c, v) # fs) = (if cd_fixed c then var_pass fs else cd_append c v @ var_pass fs)"

definition container_append :: "'v codec list \<Rightarrow> 'v list \<Rightarrow> u8 list" where
  "container_append cs vs =
     (let fixed_len = (\<Sum>c\<leftarrow>cs. cd_fixed_len c); fs = zip cs vs in fixed_pass fs fixed_len @ var_pass fs)"

definition container_bytes_len :: "'v codec list \<Rightarrow> 'v list \<Rightarrow> nat" where
  "container_bytes_len cs vs =
     (\<Sum>(c, v)\<leftarrow>zip cs vs. if cd_fixed c then cd_fixed_len c
                          else BYTES_PER_LENGTH_OFFSET + cd_bytes_len c v)"

definition container_codec :: "'v codec list \<Rightarrow> 'v list codec" where
  "container_codec cs =
     (let is_fixed = list_all cd_fixed cs in
      \<lparr>cd_fixed = is_fixed,
       cd_fixed_len = (if is_fixed then \<Sum>c\<leftarrow>cs. cd_fixed_len c else BYTES_PER_LENGTH_OFFSET),
       cd_bytes_len = container_bytes_len cs, cd_append = container_append cs,
       cd_decode = container_decode cs\<rparr>)"

section \<open>The contract\<close>

locale ssz_codec =
  fixes c :: "'a codec" and good :: "'a \<Rightarrow> bool"
  assumes decode_iff: "cd_decode c bs = Inr x \<longleftrightarrow> good x \<and> cd_append c x = bs"
    and bytes_len: "good x \<Longrightarrow> length (cd_append c x) = cd_bytes_len c x"
    and fixed_len: "cd_fixed c \<Longrightarrow> good x \<Longrightarrow> cd_bytes_len c x = cd_fixed_len c"
    and variable_len: "\<not> cd_fixed c \<Longrightarrow> cd_fixed_len c = BYTES_PER_LENGTH_OFFSET"
begin

lemma roundtrip: "good x \<Longrightarrow> cd_decode c (cd_append c x) = Inr x"
  by (simp add: decode_iff)

lemma unique_encoding: "cd_decode c bs = Inr x \<Longrightarrow> cd_decode c bs' = Inr x \<Longrightarrow> bs = bs'"
  by (simp add: decode_iff)

lemma decode_all:
  "list_all2 (\<lambda>bs x. cd_decode c bs = Inr x) bss xs \<longleftrightarrow> list_all good xs \<and> bss = map (cd_append c) xs"
  by (induction bss arbitrary: xs) (auto simp: decode_iff list_all2_Cons1 Cons_eq_map_conv)

lemma lengths: "list_all good xs \<Longrightarrow> map length (map (cd_append c) xs) = map (cd_bytes_len c) xs"
  by (auto simp: list_all_iff bytes_len)

end

interpretation bool_cd: ssz_codec bool_codec "\<lambda>_. True"
proof
  show "cd_decode bool_codec bs = Inr x \<longleftrightarrow> True \<and> cd_append bool_codec x = bs" for bs x
    by (cases bs rule: decode_bool.cases) (auto simp: bool_codec_def)
qed (simp_all add: bool_codec_def)

lemma uint_codec_ok:
  assumes "LENGTH('w :: len) = 8 * n"
  shows "ssz_codec (uint_codec n :: 'w word codec) (\<lambda>_. True)"
proof
  show "cd_decode (uint_codec n :: 'w word codec) bs = Inr x
          \<longleftrightarrow> True \<and> cd_append (uint_codec n) x = bs" for bs x
    using assms from_le_bytes_le_bytes [of n x] le_bytes_from_le_bytes [of bs, where ?'a = 'w]
    by (auto simp: uint_codec_def)
qed (simp_all add: uint_codec_def)

interpretation u8_cd: ssz_codec "uint_codec 1 :: u8 codec" "\<lambda>_. True"
  by (rule uint_codec_ok) simp

interpretation u64_cd: ssz_codec "uint_codec 8 :: u64 codec" "\<lambda>_. True"
  by (rule uint_codec_ok) simp

interpretation uint256_cd: ssz_codec "uint_codec 32 :: 256 word codec" "\<lambda>_. True"
  by (rule uint_codec_ok) simp

interpretation fixed_bytes_cd: ssz_codec "fixed_bytes_codec n" "\<lambda>b. length b = n" for n
  by unfold_locales (auto simp: fixed_bytes_codec_def)

section \<open>Offsets\<close>

lemma length_u32_le [simp]: "length (u32_le n) = 4"
  by (simp add: u32_le_def)

lemma u32_from_le_u32_le: "n < 2 ^ 32 \<Longrightarrow> u32_from_le (u32_le n) = n"
  by (simp add: u32_from_le_def u32_le_def from_le_bytes_le_bytes unat_of_nat)

lemma u32_le_u32_from_le: "length bs = 4 \<Longrightarrow> u32_le (u32_from_le bs) = bs"
  using le_bytes_from_le_bytes [of bs, where ?'a = 32]
  by (simp add: u32_from_le_def u32_le_def)

lemma u32_from_le_less: "u32_from_le bs < 2 ^ 32"
  using unsigned_less [of "from_le_bytes bs :: u32", where ?'a = nat] by (simp add: u32_from_le_def)

lemma length_running_offsets [simp]: "length (running_offsets off lens) = length lens"
  by (induction lens arbitrary: off) simp_all

lemma running_offsets_bounds:
  "o' \<in> set (running_offsets off lens) \<Longrightarrow> off \<le> o' \<and> o' \<le> off + sum_list lens"
  by (induction lens arbitrary: off) fastforce+

lemma validate_running_offsets:
  "first \<le> off \<Longrightarrow> off + sum_list lens \<le> total_len \<Longrightarrow> (\<forall>p. prev = Some p \<longrightarrow> p \<le> off) \<Longrightarrow>
     validate_offsets first total_len prev (running_offsets off lens) = Inr ()"
  by (induction lens arbitrary: off prev) (auto split: option.splits)

lemma validate_offsets_Inr:
  "validate_offsets first total_len prev offs = Inr u \<longleftrightarrow>
     (\<forall>off \<in> set offs. first \<le> off \<and> off \<le> total_len) \<and> sorted (case prev of None \<Rightarrow> offs | Some p \<Rightarrow> p # offs)"
proof (induction offs arbitrary: prev)
  case (Cons off offs)
  then show ?case by (cases prev) (auto simp: not_less)
qed (simp split: option.splits)

lemma concat_body_slices:
  "offs \<noteq> [] \<Longrightarrow> sorted offs \<Longrightarrow> \<forall>off \<in> set offs. off \<le> length bytes \<Longrightarrow>
     concat (body_slices bytes offs) = drop (hd offs) bytes
     \<and> offs = running_offsets (hd offs) (map length (body_slices bytes offs))"
proof (induction bytes offs rule: body_slices.induct)
  case (3 bytes off off' offs)
  have "take (off' - off) (drop off bytes) @ drop off' bytes = drop off bytes"
    using 3 append_take_drop_id [of "off' - off" "drop off bytes"] by simp
  moreover have "off + min (length bytes - off) (off' - off) = off'" using 3 by auto
  ultimately show ?case using 3 by simp
qed simp_all

lemma length_body_slices [simp]: "length (body_slices bytes offs) = length offs"
  by (induction bytes offs rule: body_slices.induct) simp_all

lemma body_slices_running:
  "bodies \<noteq> [] \<Longrightarrow> length pre = off \<Longrightarrow>
     body_slices (pre @ concat bodies) (running_offsets off (map length bodies)) = bodies"
proof (induction bodies arbitrary: pre off)
  case (Cons b bodies)
  show ?case
  proof (cases bodies)
    case (Cons b' bs)
    have "body_slices ((pre @ b) @ concat bodies) (running_offsets (off + length b) (map length bodies)) = bodies"
      using Cons.IH [of "pre @ b"] Cons Cons.prems by simp
    then show ?thesis using Cons Cons.prems by simp
  qed (use Cons.prems in simp)
qed simp

lemma read_offsets_Suc:
  "map (\<lambda>i. u32_from_le (take 4 (drop (i * 4) bytes))) [0..<Suc n]
     = u32_from_le (take 4 bytes) # map (\<lambda>i. u32_from_le (take 4 (drop (i * 4) (drop 4 bytes)))) [0..<n]"
  by (simp only: upt_conv_Cons [OF zero_less_Suc] map_Suc_upt [symmetric])
    (simp add: add.commute)

lemma read_offsets_table:
  "\<forall>off \<in> set offs. off < 2 ^ 32 \<Longrightarrow>
     map (\<lambda>i. u32_from_le (take 4 (drop (i * 4) (concat (map u32_le offs) @ rest)))) [0..<length offs] = offs"
proof (induction offs)
  case (Cons off offs)
  then show ?case by (simp only: length_Cons read_offsets_Suc) (simp add: u32_from_le_u32_le)
qed simp

lemma table_read_offsets:
  "n * 4 \<le> length bytes \<Longrightarrow>
     concat (map u32_le (map (\<lambda>i. u32_from_le (take 4 (drop (i * 4) bytes))) [0..<n])) = take (n * 4) bytes"
proof (induction n arbitrary: bytes)
  case (Suc n)
  have "take 4 bytes @ take (n * 4) (drop 4 bytes) = take (Suc n * 4) bytes"
    by (metis mult_Suc take_add)
  moreover have "concat (map u32_le (map (\<lambda>i. u32_from_le (take 4 (drop (i * 4) (drop 4 bytes)))) [0..<n]))
                   = take (n * 4) (drop 4 bytes)"
    using Suc.prems by (intro Suc.IH) simp
  moreover have "u32_le (u32_from_le (take 4 bytes)) = take 4 bytes"
    using Suc.prems by (intro u32_le_u32_from_le) simp
  ultimately show ?case by (simp only: read_offsets_Suc list.map concat.simps)
qed simp

lemma length_offset_table [simp]: "length (concat (map u32_le offs)) = length offs * 4"
  by (induction offs) simp_all

section \<open>Lists and vectors keep the contract\<close>

lemma chunks_of_concat:
  "0 < k \<Longrightarrow> \<forall>b \<in> set bs. length b = k \<Longrightarrow> chunks_of k (concat bs) = bs"
proof (induction bs)
  case (Cons b bs)
  then show ?case by (subst chunks_of.simps) (auto simp flip: length_0_conv)
qed simp

lemma indexed_chunks:
  assumes "0 < k" and "length bytes mod k = 0"
  shows "map (\<lambda>i. take k (drop (i * k) bytes)) [0..<length bytes div k] = chunks_of k bytes"
proof (rule nth_equalityI)
  have len: "length (chunks_of k bytes) = length bytes div k"
  proof -
    have "length bytes = k * (length bytes div k)" using assms(2) by auto
    then have "length bytes + k - 1 = (k - 1) + k * (length bytes div k)" using assms(1) by simp
    then show ?thesis using assms(1) by (simp only: length_chunks_of div_mult_self2) simp
  qed
  then show "length (map (\<lambda>i. take k (drop (i * k) bytes)) [0..<length bytes div k])
               = length (chunks_of k bytes)" by simp
  fix i assume "i < length (map (\<lambda>i. take k (drop (i * k) bytes)) [0..<length bytes div k])"
  then have "i < length (chunks_of k bytes)" "i < length bytes div k" using len by simp_all
  then show "map (\<lambda>i. take k (drop (i * k) bytes)) [0..<length bytes div k] ! i = chunks_of k bytes ! i"
    using assms(1) by (simp add: less_length_chunks_of nth_chunks_of mult.commute)
qed

lemma map_result_map: "map_result f (map g xs) = map_result (\<lambda>x. f (g x)) xs"
  by (induction xs) simp_all

lemma bind_result_guard:
  "bind_result m (\<lambda>a. if P a then Inl (e a) else Inr a) = Inr x \<longleftrightarrow> m = Inr x \<and> \<not> P x"
  by (cases m) auto

text \<open>\<open>seq_wf\<close>: the sequences of elements with a unique encoding that decodes.\<close>

definition seq_wf :: "'a codec \<Rightarrow> ('a \<Rightarrow> bool) \<Rightarrow> 'a list \<Rightarrow> bool" where
  "seq_wf c good xs \<longleftrightarrow> list_all good xs
     \<and> (if cd_fixed c then cd_fixed_len c = 0 \<longrightarrow> xs = []
        else \<forall>off \<in> set (running_offsets (length xs * BYTES_PER_LENGTH_OFFSET)
                            (map (cd_bytes_len c) xs)). off < 2 ^ 32)"

context ssz_codec
begin

lemma decode_fixed_items:
  assumes "cd_fixed c"
  shows "decode_list_items c bs = Inr xs \<longleftrightarrow> seq_wf c good xs \<and> seq_append c xs = bs"
proof (cases "bs = [] \<or> cd_fixed_len c = 0")
  case True
  have "length (concat (map (cd_append c) xs)) = length xs * cd_fixed_len c" if "list_all good xs" for xs
    using that assms by (induction xs) (simp_all add: bytes_len fixed_len)
  then have "concat (map (cd_append c) xs) = [] \<longleftrightarrow> xs = []"
    if "list_all good xs" "cd_fixed_len c \<noteq> 0" for xs
    using that by (metis length_0_conv mult_is_0)
  then show ?thesis using True assms
    by (auto simp: decode_list_items_def seq_wf_def seq_append_def)
next
  case False
  let ?k = "cd_fixed_len c"
  have len: "\<forall>b \<in> set (map (cd_append c) xs). length b = ?k" if "list_all good xs" for xs
    using that assms by (auto simp: list_all_iff bytes_len fixed_len)
  show ?thesis
  proof (cases "length bs mod ?k = 0")
    case True
    have "decode_list_items c bs = map_result (cd_decode c) (chunks_of ?k bs)"
      using False True assms
      by (simp add: decode_list_items_def Let_def indexed_chunks [symmetric] map_result_map)
    then have "decode_list_items c bs = Inr xs \<longleftrightarrow> list_all good xs \<and> chunks_of ?k bs = map (cd_append c) xs"
      by (simp add: map_result_Inr decode_all)
    also have "\<dots> \<longleftrightarrow> list_all good xs \<and> concat (map (cd_append c) xs) = bs"
      using chunks_of_concat [OF _ len] concat_chunks_of [of ?k bs] False by (metis gr0I)
    finally show ?thesis using False assms by (simp add: seq_wf_def seq_append_def)
  next
    case mod: False
    have "length (concat (map (cd_append c) xs)) mod ?k = 0" if "list_all good xs"
      using that assms by (induction xs) (simp_all add: bytes_len fixed_len)
    then show ?thesis using False mod assms
      by (auto simp: decode_list_items_def Let_def seq_wf_def seq_append_def)
  qed
qed

lemma decode_variable_items:
  assumes "\<not> cd_fixed c"
  shows "decode_list_items c bs = Inr xs \<longleftrightarrow> seq_wf c good xs \<and> seq_append c xs = bs"
proof
  assume d: "decode_list_items c bs = Inr xs"
  show "seq_wf c good xs \<and> seq_append c xs = bs"
  proof (cases "bs = []")
    case True
    with d show ?thesis
      by (auto simp: decode_list_items_def seq_wf_def seq_append_def encode_variable_elems_def)
  next
    case False
    define f where "f = u32_from_le (take 4 bs)"
    define n where "n = f div 4"
    define offs where "offs = map (\<lambda>i. u32_from_le (take 4 (drop (i * 4) bs))) [0..<n]"
    from d False assms have f: "f mod 4 = 0" "f \<le> length bs" and n: "n \<noteq> 0"
      and v: "validate_offsets f (length bs) None offs = Inr ()"
      and r: "map_result (cd_decode c) (body_slices bs offs) = Inr xs"
      by (auto simp: decode_list_items_def Let_def f_def n_def offs_def BYTES_PER_LENGTH_OFFSET_def
          bind_result_Inr split: if_splits)
    then have fn: "f = n * 4" unfolding n_def by auto
    obtain m where m: "n = Suc m" using n by (cases n) auto
    have offs: "offs \<noteq> []" "hd offs = f"
      unfolding offs_def m by (simp_all only: read_offsets_Suc f_def) simp_all
    from r have xs: "list_all good xs" "body_slices bs offs = map (cd_append c) xs"
      by (simp_all add: map_result_Inr decode_all)
    have len: "length xs = n" using arg_cong [OF xs(2), of length] by (simp add: offs_def)
    have "concat (body_slices bs offs) = drop f bs"
      "offs = running_offsets f (map length (body_slices bs offs))"
      using concat_body_slices [of offs bs] offs v by (auto simp: validate_offsets_Inr)
    then have b: "concat (map (cd_append c) xs) = drop f bs"
      and o: "offs = running_offsets (length xs * 4) (map (cd_bytes_len c) xs)"
      using xs lengths [OF xs(1)] fn len by (simp_all del: map_map)
    have "concat (map u32_le offs) = take f bs"
      unfolding offs_def fn by (rule table_read_offsets) (use f fn in simp)
    with b o have "seq_append c xs = bs"
      using assms by (simp add: seq_append_def encode_variable_elems_def BYTES_PER_LENGTH_OFFSET_def)
    moreover have "\<forall>off \<in> set offs. off < 2 ^ 32" unfolding offs_def by (auto simp: u32_from_le_less [simplified])
    ultimately show ?thesis using xs o assms
      by (simp add: seq_wf_def BYTES_PER_LENGTH_OFFSET_def)
  qed
next
  assume a: "seq_wf c good xs \<and> seq_append c xs = bs"
  show "decode_list_items c bs = Inr xs"
  proof (cases "xs = []")
    case True
    with a assms show ?thesis by (simp add: decode_list_items_def seq_append_def encode_variable_elems_def)
  next
    case False
    define offs where "offs = running_offsets (length xs * 4) (map (cd_bytes_len c) xs)"
    have good: "list_all good xs" and o32: "\<forall>off \<in> set offs. off < 2 ^ 32"
      and bs: "bs = concat (map u32_le offs) @ concat (map (cd_append c) xs)"
      using a assms by (auto simp: seq_wf_def seq_append_def encode_variable_elems_def offs_def
          BYTES_PER_LENGTH_OFFSET_def)
    obtain x ys where x: "xs = x # ys" using False by (cases xs) auto
    have lo: "length offs = length xs" by (simp add: offs_def)
    have offs: "map (\<lambda>i. u32_from_le (take 4 (drop (i * 4) bs))) [0..<length xs] = offs"
      using read_offsets_table [OF o32] lo unfolding bs by simp
    then have f: "u32_from_le (take 4 bs) = length xs * 4"
      unfolding x length_Cons read_offsets_Suc offs_def by simp
    have sums: "length (concat (map (cd_append c) xs)) = sum_list (map (cd_bytes_len c) xs)"
      by (simp only: length_concat lengths [OF good])
    then have "validate_offsets (length xs * 4) (length bs) None offs = Inr ()"
      unfolding offs_def by (intro validate_running_offsets) (simp_all add: bs offs_def)
    moreover have "body_slices bs offs = map (cd_append c) xs"
      using body_slices_running [of "map (cd_append c) xs" "concat (map u32_le offs)" "length xs * 4"] False
      unfolding lengths [OF good] bs by (simp add: offs_def)
    moreover have "4 \<le> length bs" "length xs * 4 \<le> length bs" "bs \<noteq> []"
      using lo by (simp_all add: bs x flip: length_0_conv)
    ultimately show ?thesis using f offs good False assms decode_all [of "map (cd_append c) xs" xs]
      by (simp add: decode_list_items_def Let_def BYTES_PER_LENGTH_OFFSET_def map_result_Inr)
  qed
qed

lemmas decode_items = decode_fixed_items decode_variable_items

lemma decode_items_iff: "decode_list_items c bs = Inr xs \<longleftrightarrow> seq_wf c good xs \<and> seq_append c xs = bs"
  by (cases "cd_fixed c") (simp_all add: decode_items)

lemma seq_length: "list_all good xs \<Longrightarrow> length (seq_append c xs) = seq_bytes_len c xs"
proof -
  assume g: "list_all good xs"
  have "length (concat (map (cd_append c) xs)) = sum_list (map (cd_bytes_len c) xs)"
    by (simp only: length_concat lengths [OF g])
  moreover have "sum_list (map (cd_bytes_len c) xs) = length xs * cd_fixed_len c" if "cd_fixed c"
    using g that by (induction xs) (simp_all add: fixed_len)
  ultimately show ?thesis
    by (simp add: seq_append_def seq_bytes_len_def encode_variable_elems_def
        variable_elems_ssz_bytes_len_def BYTES_PER_LENGTH_OFFSET_def)
qed

lemma list_codec_ok: "ssz_codec (list_codec N c) (\<lambda>xs. seq_wf c good xs \<and> length xs \<le> unat N)"
  by unfold_locales
    (auto simp: list_codec_def bind_result_guard decode_items_iff seq_length seq_wf_def split: if_splits)

lemma vector_codec_ok:
  "ssz_codec (vector_codec N c) (\<lambda>xs. seq_wf c good xs \<and> length xs = unat N \<and> N \<noteq> 0)"
  by unfold_locales
    (auto simp: vector_codec_def bind_result_guard decode_items_iff seq_length seq_wf_def seq_bytes_len_def
      split: if_splits)

end

text \<open>
  \<^verbatim>\<open>balances\<close> (a list of \<^verbatim>\<open>u64\<close>), a transaction list (lists of byte lists) and
  \<^verbatim>\<open>block_roots\<close> (a vector of 32-byte roots).
\<close>

interpretation balances_cd: ssz_codec "list_codec 1099511627776 (uint_codec 8 :: u64 codec)"
  "\<lambda>xs. seq_wf (uint_codec 8) (\<lambda>_. True) xs \<and> length xs \<le> unat (1099511627776 :: u64)"
  by (rule u64_cd.list_codec_ok)

interpretation transaction_cd: ssz_codec "list_codec 1073741824 (uint_codec 1 :: u8 codec)"
  "\<lambda>xs. seq_wf (uint_codec 1) (\<lambda>_. True) xs \<and> length xs \<le> unat (1073741824 :: u64)"
  by (rule u8_cd.list_codec_ok)

interpretation transactions_cd: ssz_codec
  "list_codec 1048576 (list_codec 1073741824 (uint_codec 1 :: u8 codec))"
  "\<lambda>xs. seq_wf (list_codec 1073741824 (uint_codec 1))
          (\<lambda>xs. seq_wf (uint_codec 1) (\<lambda>_. True) xs \<and> length xs \<le> unat (1073741824 :: u64)) xs
        \<and> length xs \<le> unat (1048576 :: u64)"
  by (rule transaction_cd.list_codec_ok)

interpretation block_roots_cd: ssz_codec "vector_codec 8192 (fixed_bytes_codec 32)"
  "\<lambda>xs. seq_wf (fixed_bytes_codec 32) (\<lambda>b. length b = 32) xs \<and> length xs = unat (8192 :: u64) \<and> (8192 :: u64) \<noteq> 0"
  by (rule fixed_bytes_cd.vector_codec_ok)

section \<open>Containers keep the contract\<close>

fun field_slots :: "'v codec list \<Rightarrow> u8 list \<Rightarrow> nat \<Rightarrow> field_slot list" where
  "field_slots [] bytes cursor = []"
| "field_slots (c # cs) bytes cursor =
     (if cd_fixed c then FixedSlot cursor (cd_fixed_len c)
      else VariableSlot (u32_from_le (take 4 (drop cursor bytes))))
     # field_slots cs bytes (cursor + cd_fixed_len c)"

text \<open>The encodings of the variable fields, and whether the fixed ones stand at their place.\<close>

fun var_bodies :: "('v codec \<times> 'v) list \<Rightarrow> u8 list list" where
  "var_bodies [] = []"
| "var_bodies ((c, v) # fs) = (if cd_fixed c then var_bodies fs else cd_append c v # var_bodies fs)"

fun fixed_match :: "('v codec \<times> 'v) list \<Rightarrow> u8 list \<Rightarrow> nat \<Rightarrow> bool" where
  "fixed_match [] bytes cursor \<longleftrightarrow> True"
| "fixed_match ((c, v) # fs) bytes cursor \<longleftrightarrow>
     (cd_fixed c \<longrightarrow> cd_append c v = take (cd_fixed_len c) (drop cursor bytes))
     \<and> fixed_match fs bytes (cursor + cd_fixed_len c)"

abbreviation fixed_size :: "'v codec list \<Rightarrow> nat" where
  "fixed_size cs \<equiv> \<Sum>c\<leftarrow>cs. cd_fixed_len c"

abbreviation fields_ok :: "'v codec list \<Rightarrow> ('v \<Rightarrow> bool) list \<Rightarrow> bool" where
  "fields_ok cs gs \<equiv> list_all2 ssz_codec cs gs"

abbreviation values_ok :: "('v \<Rightarrow> bool) list \<Rightarrow> 'v list \<Rightarrow> bool" where
  "values_ok gs vs \<equiv> list_all2 (\<lambda>g v. g v) gs vs"

lemma var_pass_bodies: "var_pass fs = concat (var_bodies fs)"
  by (induction fs rule: var_pass.induct) simp_all

lemma register_fields_Inr:
  assumes "fields_ok cs gs" and "cursor \<le> length bytes"
  shows "register_fields cs bytes cursor = Inr (slots, stop) \<longleftrightarrow>
           cursor + fixed_size cs \<le> length bytes \<and> slots = field_slots cs bytes cursor
           \<and> stop = cursor + fixed_size cs"
  using assms
proof (induction cs arbitrary: gs cursor slots stop)
  case (Cons c cs)
  then obtain g gs' where c: "ssz_codec c g" "fields_ok cs gs'" by (auto simp: list_all2_Cons1)
  have step: "(if cd_fixed c then cd_fixed_len c else BYTES_PER_LENGTH_OFFSET) = cd_fixed_len c"
    using ssz_codec.variable_len [OF c(1)] by simp
  show ?case
  proof (cases "cursor + cd_fixed_len c \<le> length bytes")
    case True
    have "register_fields (c # cs) bytes cursor =
            bind_result (register_fields cs bytes (cursor + cd_fixed_len c))
              (\<lambda>(slots, stop). Inr (hd (field_slots (c # cs) bytes cursor) # slots, stop))"
      using True step by (simp add: register_field_def Let_def)
    then show ?thesis using Cons.IH [OF c(2) True] by (auto simp: bind_result_Inr split: prod.splits)
  next
    case False
    then show ?thesis using step by (simp add: register_field_def Let_def)
  qed
qed auto

lemma length_field_slices: "length (field_slices bytes slots bodies) = length slots"
  by (induction bytes slots bodies rule: field_slices.induct) simp_all

lemma length_field_slots [simp]: "length (field_slots cs bytes cursor) = length cs"
  by (induction cs arbitrary: cursor) simp_all

lemma fields_decode:
  assumes "fields_ok cs gs" and "length bodies = length (variable_offsets (field_slots cs bytes cursor))"
  shows "map_result (\<lambda>(c, slice). cd_decode c slice)
           (zip cs (field_slices bytes (field_slots cs bytes cursor) bodies)) = Inr vs \<longleftrightarrow>
         values_ok gs vs \<and> fixed_match (zip cs vs) bytes cursor \<and> var_bodies (zip cs vs) = bodies"
  using assms
proof (induction cs arbitrary: gs cursor bodies vs)
  case (Cons c cs)
  then obtain g gs' where c: "gs = g # gs'" "ssz_codec c g" "fields_ok cs gs'"
    by (auto simp: list_all2_Cons1)
  note dec = ssz_codec.decode_iff [OF c(2)]
  let ?cur = "cursor + cd_fixed_len c"
  show ?case
  proof (cases "cd_fixed c")
    case True
    then have "length bodies = length (variable_offsets (field_slots cs bytes ?cur))"
      using Cons.prems(2) by simp
    from Cons.IH [OF c(3) this] show ?thesis using True c(1) dec
      by (auto simp: bind_result_Inr list_all2_Cons1)
  next
    case False
    then obtain b bs where b: "bodies = b # bs" using Cons.prems(2) by (cases bodies) auto
    then have "length bs = length (variable_offsets (field_slots cs bytes ?cur))"
      using Cons.prems(2) False by simp
    from Cons.IH [OF c(3) this] show ?thesis using False c(1) dec b
      by (auto simp: bind_result_Inr list_all2_Cons1)
  qed
qed auto

lemma length_fixed_pass:
  assumes "fields_ok cs gs" and "values_ok gs vs"
  shows "length (fixed_pass (zip cs vs) offset) = fixed_size cs"
  using assms
proof (induction cs arbitrary: gs vs offset)
  case (Cons c cs)
  then obtain g gs' v vs' where c: "ssz_codec c g" "fields_ok cs gs'" "vs = v # vs'" "g v" "values_ok gs' vs'"
    by (auto simp: list_all2_Cons1)
  from Cons.IH [OF c(2,5)] c(3) show ?case
    using ssz_codec.bytes_len [OF c(1,4)] ssz_codec.fixed_len [OF c(1) _ c(4)]
      ssz_codec.variable_len [OF c(1)] by (simp add: BYTES_PER_LENGTH_OFFSET_def)
qed simp

lemma take_append_eq_iff:
  "length a = k \<Longrightarrow> k \<le> length xs \<Longrightarrow> a @ b = take (k + n) xs \<longleftrightarrow> a = take k xs \<and> b = take n (drop k xs)"
  by (simp add: take_add)

lemma fixed_pass_slots:
  assumes "fields_ok cs gs" and "values_ok gs vs" and "cursor + fixed_size cs \<le> length bytes"
  shows "fixed_pass (zip cs vs) offset = take (fixed_size cs) (drop cursor bytes)
           \<and> (\<forall>off \<in> set (running_offsets offset (map length (var_bodies (zip cs vs)))). off < 2 ^ 32)
         \<longleftrightarrow> fixed_match (zip cs vs) bytes cursor
           \<and> variable_offsets (field_slots cs bytes cursor)
               = running_offsets offset (map length (var_bodies (zip cs vs)))"
  using assms
proof (induction cs arbitrary: gs vs cursor offset)
  case (Cons c cs)
  then obtain g gs' v vs' where c: "ssz_codec c g" "fields_ok cs gs'" "vs = v # vs'" "g v" "values_ok gs' vs'"
    by (auto simp: list_all2_Cons1)
  let ?cur = "cursor + cd_fixed_len c"
  have le: "?cur + fixed_size cs \<le> length bytes" "cd_fixed_len c \<le> length (drop cursor bytes)"
    using Cons.prems(3) by simp_all
  note len = ssz_codec.bytes_len [OF c(1,4)]
  show ?case
  proof (cases "cd_fixed c")
    case True
    have "length (cd_append c v) = cd_fixed_len c" using len ssz_codec.fixed_len [OF c(1) True c(4)] by simp
    from take_append_eq_iff [OF this le(2), of "fixed_pass (zip cs vs') offset" "fixed_size cs"]
    show ?thesis using Cons.IH [OF c(2,5) le(1), of offset] True c(3)
      by (auto simp: add.commute)
  next
    case False
    then have k: "cd_fixed_len c = 4" using ssz_codec.variable_len [OF c(1)] by (simp add: BYTES_PER_LENGTH_OFFSET_def)
    let ?s = "take 4 (drop cursor bytes)" and ?off = "offset + cd_bytes_len c v"
    have "u32_le offset = ?s \<and> offset < 2 ^ 32 \<longleftrightarrow> u32_from_le ?s = offset"
      using u32_from_le_u32_le [of offset] u32_le_u32_from_le [of ?s] u32_from_le_less [of ?s] le k by auto
    moreover have "u32_le offset @ fixed_pass (zip cs vs') ?off = take (4 + fixed_size cs) (drop cursor bytes)
        \<longleftrightarrow> u32_le offset = ?s \<and> fixed_pass (zip cs vs') ?off = take (fixed_size cs) (drop 4 (drop cursor bytes))"
      using take_append_eq_iff [of "u32_le offset" 4 "drop cursor bytes"] le k by simp
    ultimately show ?thesis using Cons.IH [OF c(2,5) le(1), of ?off] False c(3) k len
      by (auto simp: add.commute)
  qed
qed simp

definition container_wf :: "'v codec list \<Rightarrow> ('v \<Rightarrow> bool) list \<Rightarrow> 'v list \<Rightarrow> bool" where
  "container_wf cs gs vs \<longleftrightarrow> values_ok gs vs
     \<and> (\<forall>off \<in> set (running_offsets (\<Sum>c\<leftarrow>cs. cd_fixed_len c)
                       (map length (var_bodies (zip cs vs)))). off < 2 ^ 32)"

lemma container_decode_iff:
  assumes "fields_ok cs gs"
  shows "container_decode cs bs = Inr vs \<longleftrightarrow> container_wf cs gs vs \<and> container_append cs vs = bs"
proof (cases "cs = []")
  case True
  then show ?thesis using assms by (auto simp: container_decode_def container_wf_def container_append_def)
next
  case ne: False
  let ?F = "fixed_size cs" and ?fs = "zip cs vs"
  let ?slots = "field_slots cs bs 0"
  let ?offs = "variable_offsets ?slots" and ?lens = "map length (var_bodies ?fs)"
  have dec: "container_decode cs bs = Inr vs \<longleftrightarrow>
          ?F \<le> length bs \<and> maybe_resolve_offsets ?slots ?F (length bs) = Inr ()
          \<and> values_ok gs vs \<and> fixed_match ?fs bs 0 \<and> var_bodies ?fs = body_slices bs ?offs"
    using ne register_fields_Inr [OF assms, of 0 bs] fields_decode [OF assms, of "body_slices bs ?offs" bs 0 vs]
    by (auto simp: container_decode_def bind_result_Inr split: prod.splits)
  have pass: "?F \<le> length bs \<Longrightarrow> values_ok gs vs \<Longrightarrow>
      (fixed_pass ?fs ?F = take ?F bs \<and> container_wf cs gs vs \<longleftrightarrow>
         fixed_match ?fs bs 0 \<and> ?offs = running_offsets ?F ?lens)"
    using fixed_pass_slots [OF assms, of vs 0 bs ?F] by (auto simp: container_wf_def)
  show ?thesis
  proof
    assume "container_decode cs bs = Inr vs"
    with dec have d: "?F \<le> length bs" "maybe_resolve_offsets ?slots ?F (length bs) = Inr ()"
      "values_ok gs vs" "fixed_match ?fs bs 0" "var_bodies ?fs = body_slices bs ?offs" by simp_all
    have cov: "?offs = running_offsets ?F ?lens \<and> concat (var_bodies ?fs) = drop ?F bs"
    proof (cases ?offs)
      case Nil
      then show ?thesis using d by (simp add: maybe_resolve_offsets_def split: if_splits)
    next
      case (Cons o1 os)
      then have hd: "hd ?offs = ?F" and v: "validate_offsets ?F (length bs) None ?offs = Inr ()"
        using d(2) by (auto simp: maybe_resolve_offsets_def split: if_splits)
      have "\<forall>off \<in> set ?offs. off \<le> length bs" "sorted ?offs"
        using v unfolding validate_offsets_Inr by auto
      moreover have "?offs \<noteq> []" using Cons by simp
      ultimately show ?thesis using concat_body_slices [of ?offs bs] unfolding hd d(5) by blast
    qed
    have "fixed_pass ?fs ?F = take ?F bs" "container_wf cs gs vs" using cov pass d(1,3,4) by blast+
    moreover have "var_pass ?fs = drop ?F bs" using cov by (simp only: var_pass_bodies)
    ultimately show "container_wf cs gs vs \<and> container_append cs vs = bs"
      by (simp add: container_append_def Let_def)
  next
    assume a: "container_wf cs gs vs \<and> container_append cs vs = bs"
    then have good: "values_ok gs vs" and bs: "bs = fixed_pass ?fs ?F @ concat (var_bodies ?fs)"
      by (auto simp: container_wf_def container_append_def Let_def var_pass_bodies)
    have F: "length (fixed_pass ?fs ?F) = ?F" by (rule length_fixed_pass [OF assms good])
    then have "?F \<le> length bs" "fixed_pass ?fs ?F = take ?F bs" unfolding bs by simp_all
    with pass good a have m: "fixed_match ?fs bs 0" and offs: "?offs = running_offsets ?F ?lens" by blast+
    have "maybe_resolve_offsets ?slots ?F (length bs) = Inr ()
          \<and> var_bodies ?fs = body_slices bs ?offs"
    proof (cases "var_bodies ?fs")
      case Nil
      then show ?thesis using offs F bs by (simp add: maybe_resolve_offsets_def)
    next
      case (Cons b bodies)
      have "length bs = ?F + sum_list ?lens" using F bs by (simp add: length_concat)
      then have "validate_offsets ?F (length bs) None ?offs = Inr ()"
        unfolding offs by (intro validate_running_offsets) simp_all
      moreover have "body_slices (fixed_pass ?fs ?F @ concat (var_bodies ?fs)) (running_offsets ?F ?lens)
                       = var_bodies ?fs"
        using F Cons by (intro body_slices_running) simp_all
      then have "body_slices bs ?offs = var_bodies ?fs" unfolding bs [symmetric] offs .
      ultimately show ?thesis using offs Cons by (simp add: maybe_resolve_offsets_def)
    qed
    then show "container_decode cs bs = Inr vs" using dec m good \<open>?F \<le> length bs\<close> by blast
  qed
qed

lemma container_bytes_len:
  assumes "fields_ok cs gs" and "values_ok gs vs"
  shows "length (container_append cs vs) = container_bytes_len cs vs"
proof -
  have "length (fixed_pass (zip cs vs) off) + length (var_pass (zip cs vs)) = container_bytes_len cs vs" for off
    using assms
  proof (induction cs arbitrary: gs vs off)
    case (Cons c cs)
    then obtain g gs' v vs' where c: "ssz_codec c g" "fields_ok cs gs'" "vs = v # vs'" "g v" "values_ok gs' vs'"
      by (auto simp: list_all2_Cons1)
    from Cons.IH [OF c(2,5), of off] Cons.IH [OF c(2,5), of "off + cd_bytes_len c v"] c(3) show ?case
      using ssz_codec.bytes_len [OF c(1,4)] ssz_codec.fixed_len [OF c(1) _ c(4)]
      by (simp add: container_bytes_len_def BYTES_PER_LENGTH_OFFSET_def)
  qed (simp add: container_bytes_len_def)
  then show ?thesis by (simp add: container_append_def Let_def)
qed

lemma container_codec_ok:
  assumes "fields_ok cs gs"
  shows "ssz_codec (container_codec cs) (container_wf cs gs)"
proof
  fix bs x
  show "cd_decode (container_codec cs) bs = Inr x \<longleftrightarrow> container_wf cs gs x \<and> cd_append (container_codec cs) x = bs"
    using container_decode_iff [OF assms] by (simp add: container_codec_def Let_def)
  assume "container_wf cs gs x"
  then have v: "values_ok gs x" by (simp add: container_wf_def)
  then show "length (cd_append (container_codec cs) x) = cd_bytes_len (container_codec cs) x"
    using container_bytes_len [OF assms] by (simp add: container_codec_def Let_def)
  assume "cd_fixed (container_codec cs)"
  then have f: "list_all cd_fixed cs" by (simp add: container_codec_def Let_def)
  have "container_bytes_len cs x = fixed_size cs"
    using f list_all2_lengthD [OF assms] list_all2_lengthD [OF v]
  proof (induction cs x arbitrary: gs rule: list_induct2')
    case (4 c cs y ys)
    then show ?case by (cases gs) (auto simp: container_bytes_len_def)
  qed (simp_all add: container_bytes_len_def)
  then show "cd_bytes_len (container_codec cs) x = cd_fixed_len (container_codec cs)"
    using f by (simp add: container_codec_def Let_def)
qed (simp add: container_codec_def Let_def)
section \<open>Properties\<close>

text \<open>C29: Decoding an \<^verbatim>\<open>SszList\<close> succeeds exactly on the encodings of the lists that respect the limit and
  whose offsets fit in four bytes, and gives that list back.  So encoding followed by decoding is
  the identity, and no two byte strings decode to the same list.  This holds for elements of fixed
  and of variable size, and whatever element type has the same property.\<close>

theorem list_decode_exact:
  assumes "ssz_codec c good"
  shows "cd_decode (list_codec N c) bs = Inr xs \<longleftrightarrow>
           seq_wf c good xs \<and> length xs \<le> unat N \<and> cd_append (list_codec N c) xs = bs"
  using ssz_codec.decode_iff [OF ssz_codec.list_codec_ok [OF assms]] by auto

theorem list_decode_exact_witness:
  "cd_decode (list_codec 4 (list_codec 8 (uint_codec 1 :: u8 codec)))
     [12, 0, 0, 0, 13, 0, 0, 0, 13, 0, 0, 0, 1, 2, 3] = Inr [[1], [], [2, 3]]"
proof -
  have "cd_append (list_codec 4 (list_codec 8 (uint_codec 1 :: u8 codec))) [[1], [], [2, 3]]
          = [12, 0, 0, 0, 13, 0, 0, 0, 13, 0, 0, 0, 1, 2, 3]"
    by code_simp
  moreover have "seq_wf (list_codec 8 (uint_codec 1 :: u8 codec))
      (\<lambda>xs. seq_wf (uint_codec 1) (\<lambda>_. True) xs \<and> length xs \<le> unat (8 :: u64)) [[1], [], [2, 3]]"
    by (simp add: seq_wf_def list_codec_def uint_codec_def seq_bytes_len_def BYTES_PER_LENGTH_OFFSET_def)
  ultimately show ?thesis
    using list_decode_exact [OF u8_cd.list_codec_ok [of 8], of 4
        "[12, 0, 0, 0, 13, 0, 0, 0, 13, 0, 0, 0, 1, 2, 3]" "[[1], [], [2, 3]]"] by simp
qed

text \<open>C28: The decoder the derive macro emits for a struct accepts exactly the encodings of well-formed
  field values: every offset is checked against the end of the fixed part, the other offsets and
  the total length, no byte is left over, and each field gets its own bytes back.\<close>

theorem container_decode_exact:
  assumes "list_all2 ssz_codec cs gs"
  shows "cd_decode (container_codec cs) bs = Inr vs \<longleftrightarrow>
           container_wf cs gs vs \<and> cd_append (container_codec cs) vs = bs"
  using ssz_codec.decode_iff [OF container_codec_ok [OF assms]] .

theorem container_decode_exact_witness:
  "cd_decode (container_codec [fixed_bytes_codec 2, list_codec 8 (uint_codec 1), fixed_bytes_codec 1,
       list_codec 8 (uint_codec 1 :: u8 codec)])
     [1, 2, 11, 0, 0, 0, 6, 14, 0, 0, 0, 3, 4, 5] = Inr [[1, 2], [3, 4, 5], [6], []]"
proof -
  let ?l = "list_codec 8 (uint_codec 1 :: u8 codec)"
  let ?g = "\<lambda>xs. seq_wf (uint_codec 1) (\<lambda>_ :: u8. True) xs \<and> length xs \<le> unat (8 :: u64)"
  let ?cs = "[fixed_bytes_codec 2, ?l, fixed_bytes_codec 1, ?l]"
  let ?gs = "[\<lambda>b. length b = 2, ?g, \<lambda>b. length b = 1, ?g]"
  have ok: "list_all2 ssz_codec ?cs ?gs"
    by (intro list_all2_Cons [THEN iffD2] conjI fixed_bytes_cd.ssz_codec_axioms u8_cd.list_codec_ok) simp
  have "cd_append (container_codec ?cs) [[1, 2], [3, 4, 5], [6], []]
          = [1, 2, 11, 0, 0, 0, 6, 14, 0, 0, 0, 3, 4, 5]"
    by code_simp
  moreover have "container_wf ?cs ?gs [[1, 2], [3, 4, 5], [6], []]"
    by (simp add: container_wf_def seq_wf_def list_codec_def uint_codec_def fixed_bytes_codec_def
        seq_append_def BYTES_PER_LENGTH_OFFSET_def)
  ultimately show ?thesis using container_decode_exact [OF ok] by simp
qed

end
