(* ===== verification/Pharos_Types.thy ===== *)
theory Pharos_Types
  imports Prelude
begin

text \<open>
  Presets and containers of the consensus types crate
  (\<^verbatim>\<open>src/crates/pharos-types\<close>).

  The trait \<^verbatim>\<open>BeaconSpec\<close> is a bag of associated constants: a record
  \<open>preset\<close> whose two values are the mainnet and the minimal preset.  Every
  definition that is generic over \<^verbatim>\<open>E: BeaconSpec\<close> takes such a record.
  Containers are records with the fields of the source, prefixed by a
  short tag because HOL field names share one name space.  The fork enums of the
  source (one variant per fork for states and blocks) become one record with a
  \<open>fork_variant\<close> tag: it holds the phase 0 fields, which all forks share, and
  as options the execution payload (header) that Bellatrix adds.
\<close>

section \<open>Presets\<close>

record preset =
  MAX_COMMITTEES_PER_SLOT :: u64
  TARGET_COMMITTEE_SIZE :: u64
  MAX_VALIDATORS_PER_COMMITTEE :: u64
  SHUFFLE_ROUND_COUNT :: u64
  HYSTERESIS_QUOTIENT :: u64
  HYSTERESIS_DOWNWARD_MULTIPLIER :: u64
  HYSTERESIS_UPWARD_MULTIPLIER :: u64
  MIN_DEPOSIT_AMOUNT :: u64
  MAX_EFFECTIVE_BALANCE :: u64
  EFFECTIVE_BALANCE_INCREMENT :: u64
  MIN_ATTESTATION_INCLUSION_DELAY :: u64
  SLOTS_PER_EPOCH :: u64
  MIN_SEED_LOOKAHEAD :: u64
  MAX_SEED_LOOKAHEAD :: u64
  EPOCHS_PER_ETH1_VOTING_PERIOD :: u64
  SLOTS_PER_HISTORICAL_ROOT :: u64
  MIN_EPOCHS_TO_INACTIVITY_PENALTY :: u64
  EPOCHS_PER_HISTORICAL_VECTOR :: u64
  EPOCHS_PER_SLASHINGS_VECTOR :: u64
  HISTORICAL_ROOTS_LIMIT :: u64
  VALIDATOR_REGISTRY_LIMIT :: u64
  BASE_REWARD_FACTOR :: u64
  WHISTLEBLOWER_REWARD_QUOTIENT :: u64
  PROPOSER_REWARD_QUOTIENT :: u64
  INACTIVITY_PENALTY_QUOTIENT :: u64
  MIN_SLASHING_PENALTY_QUOTIENT :: u64
  PROPORTIONAL_SLASHING_MULTIPLIER :: u64
  MAX_PROPOSER_SLASHINGS :: u64
  MAX_ATTESTER_SLASHINGS :: u64
  MAX_ATTESTATIONS :: u64
  MAX_DEPOSITS :: u64
  MAX_VOLUNTARY_EXITS :: u64
  JUSTIFICATION_BITS_LENGTH :: u64
  DEPOSIT_CONTRACT_TREE_DEPTH :: u64
  BASE_REWARDS_PER_EPOCH :: u64
  ETH1_DATA_VOTES_LIMIT :: u64
  MAX_PENDING_ATTESTATIONS :: u64
  DEPOSIT_PROOF_LENGTH :: u64
  GENESIS_FORK_VERSION :: "u8 list"
  GENESIS_DELAY :: u64
  MIN_GENESIS_ACTIVE_VALIDATOR_COUNT :: u64
  MIN_GENESIS_TIME :: u64
  MIN_VALIDATOR_WITHDRAWABILITY_DELAY :: u64
  SHARD_COMMITTEE_PERIOD :: u64
  MIN_PER_EPOCH_CHURN_LIMIT :: u64
  CHURN_LIMIT_QUOTIENT :: u64
  SLOT_DURATION_MS :: u64
  ATTESTATION_DUE_BPS :: u64
  MAX_EFFECTIVE_BALANCE_ELECTRA :: u64
  MAX_AGGREGATION_BITS_ELECTRA :: u64

definition BASIS_POINTS :: u64 where
  "BASIS_POINTS = 10000"

definition mainnet_preset :: preset where
  "mainnet_preset = \<lparr>
     MAX_COMMITTEES_PER_SLOT = 64,
     TARGET_COMMITTEE_SIZE = 128,
     MAX_VALIDATORS_PER_COMMITTEE = 2048,
     SHUFFLE_ROUND_COUNT = 90,
     HYSTERESIS_QUOTIENT = 4,
     HYSTERESIS_DOWNWARD_MULTIPLIER = 1,
     HYSTERESIS_UPWARD_MULTIPLIER = 5,
     MIN_DEPOSIT_AMOUNT = 1000000000,
     MAX_EFFECTIVE_BALANCE = 32000000000,
     EFFECTIVE_BALANCE_INCREMENT = 1000000000,
     MIN_ATTESTATION_INCLUSION_DELAY = 1,
     SLOTS_PER_EPOCH = 32,
     MIN_SEED_LOOKAHEAD = 1,
     MAX_SEED_LOOKAHEAD = 4,
     EPOCHS_PER_ETH1_VOTING_PERIOD = 64,
     SLOTS_PER_HISTORICAL_ROOT = 8192,
     MIN_EPOCHS_TO_INACTIVITY_PENALTY = 4,
     EPOCHS_PER_HISTORICAL_VECTOR = 65536,
     EPOCHS_PER_SLASHINGS_VECTOR = 8192,
     HISTORICAL_ROOTS_LIMIT = 16777216,
     VALIDATOR_REGISTRY_LIMIT = 1099511627776,
     BASE_REWARD_FACTOR = 64,
     WHISTLEBLOWER_REWARD_QUOTIENT = 512,
     PROPOSER_REWARD_QUOTIENT = 8,
     INACTIVITY_PENALTY_QUOTIENT = 67108864,
     MIN_SLASHING_PENALTY_QUOTIENT = 128,
     PROPORTIONAL_SLASHING_MULTIPLIER = 1,
     MAX_PROPOSER_SLASHINGS = 16,
     MAX_ATTESTER_SLASHINGS = 2,
     MAX_ATTESTATIONS = 128,
     MAX_DEPOSITS = 16,
     MAX_VOLUNTARY_EXITS = 16,
     JUSTIFICATION_BITS_LENGTH = 4,
     DEPOSIT_CONTRACT_TREE_DEPTH = 32,
     BASE_REWARDS_PER_EPOCH = 4,
     ETH1_DATA_VOTES_LIMIT = 2048,
     MAX_PENDING_ATTESTATIONS = 4096,
     DEPOSIT_PROOF_LENGTH = 33,
     GENESIS_FORK_VERSION = [0, 0, 0, 0],
     GENESIS_DELAY = 604800,
     MIN_GENESIS_ACTIVE_VALIDATOR_COUNT = 16384,
     MIN_GENESIS_TIME = 1606824000,
     MIN_VALIDATOR_WITHDRAWABILITY_DELAY = 256,
     SHARD_COMMITTEE_PERIOD = 256,
     MIN_PER_EPOCH_CHURN_LIMIT = 4,
     CHURN_LIMIT_QUOTIENT = 65536,
     SLOT_DURATION_MS = 12000,
     ATTESTATION_DUE_BPS = 3333,
     MAX_EFFECTIVE_BALANCE_ELECTRA = 2048000000000,
     MAX_AGGREGATION_BITS_ELECTRA = 131072\<rparr>"

definition minimal_preset :: preset where
  "minimal_preset = \<lparr>
     MAX_COMMITTEES_PER_SLOT = 4,
     TARGET_COMMITTEE_SIZE = 4,
     MAX_VALIDATORS_PER_COMMITTEE = 2048,
     SHUFFLE_ROUND_COUNT = 10,
     HYSTERESIS_QUOTIENT = 4,
     HYSTERESIS_DOWNWARD_MULTIPLIER = 1,
     HYSTERESIS_UPWARD_MULTIPLIER = 5,
     MIN_DEPOSIT_AMOUNT = 1000000000,
     MAX_EFFECTIVE_BALANCE = 32000000000,
     EFFECTIVE_BALANCE_INCREMENT = 1000000000,
     MIN_ATTESTATION_INCLUSION_DELAY = 1,
     SLOTS_PER_EPOCH = 8,
     MIN_SEED_LOOKAHEAD = 1,
     MAX_SEED_LOOKAHEAD = 4,
     EPOCHS_PER_ETH1_VOTING_PERIOD = 4,
     SLOTS_PER_HISTORICAL_ROOT = 64,
     MIN_EPOCHS_TO_INACTIVITY_PENALTY = 4,
     EPOCHS_PER_HISTORICAL_VECTOR = 64,
     EPOCHS_PER_SLASHINGS_VECTOR = 64,
     HISTORICAL_ROOTS_LIMIT = 16777216,
     VALIDATOR_REGISTRY_LIMIT = 1099511627776,
     BASE_REWARD_FACTOR = 64,
     WHISTLEBLOWER_REWARD_QUOTIENT = 512,
     PROPOSER_REWARD_QUOTIENT = 8,
     INACTIVITY_PENALTY_QUOTIENT = 33554432,
     MIN_SLASHING_PENALTY_QUOTIENT = 64,
     PROPORTIONAL_SLASHING_MULTIPLIER = 2,
     MAX_PROPOSER_SLASHINGS = 16,
     MAX_ATTESTER_SLASHINGS = 2,
     MAX_ATTESTATIONS = 128,
     MAX_DEPOSITS = 16,
     MAX_VOLUNTARY_EXITS = 16,
     JUSTIFICATION_BITS_LENGTH = 4,
     DEPOSIT_CONTRACT_TREE_DEPTH = 32,
     BASE_REWARDS_PER_EPOCH = 4,
     ETH1_DATA_VOTES_LIMIT = 32,
     MAX_PENDING_ATTESTATIONS = 1024,
     DEPOSIT_PROOF_LENGTH = 33,
     GENESIS_FORK_VERSION = [0, 0, 0, 1],
     GENESIS_DELAY = 300,
     MIN_GENESIS_ACTIVE_VALIDATOR_COUNT = 64,
     MIN_GENESIS_TIME = 1578009600,
     MIN_VALIDATOR_WITHDRAWABILITY_DELAY = 256,
     SHARD_COMMITTEE_PERIOD = 64,
     MIN_PER_EPOCH_CHURN_LIMIT = 2,
     CHURN_LIMIT_QUOTIENT = 32,
     SLOT_DURATION_MS = 6000,
     ATTESTATION_DUE_BPS = 3333,
     MAX_EFFECTIVE_BALANCE_ELECTRA = 2048000000000,
     MAX_AGGREGATION_BITS_ELECTRA = 8192\<rparr>"

section \<open>Small containers\<close>

datatype fork_variant = Phase0 | Altair | Bellatrix | Capella | Deneb | Electra | Fulu

record fork =
  fk_previous_version :: "32 word"
  fk_current_version :: "32 word"
  fk_epoch :: u64

record checkpoint =
  cp_epoch :: u64
  cp_root :: root

record validator =
  v_pubkey :: "384 word"
  v_withdrawal_credentials :: hash256
  v_effective_balance :: u64
  v_slashed :: bool
  v_activation_eligibility_epoch :: u64
  v_activation_epoch :: u64
  v_exit_epoch :: u64
  v_withdrawable_epoch :: u64

record attestation_data =
  ad_slot :: u64
  ad_index :: u64
  ad_beacon_block_root :: root
  ad_source :: checkpoint
  ad_target :: checkpoint

record eth1_data =
  ed_deposit_root :: root
  ed_deposit_count :: u64
  ed_block_hash :: hash256

record indexed_attestation =
  ia_attesting_indices :: "u64 list"
  ia_data :: attestation_data
  ia_signature :: "768 word"

record pending_attestation =
  pa_aggregation_bits :: "bool list"
  pa_data :: attestation_data
  pa_inclusion_delay :: u64
  pa_proposer_index :: u64

section \<open>Operations\<close>

record beacon_block_header =
  bh_slot :: u64
  bh_proposer_index :: u64
  bh_parent_root :: root
  bh_state_root :: root
  bh_body_root :: root

record signed_beacon_block_header =
  sbh_message :: beacon_block_header
  sbh_signature :: "768 word"

record proposer_slashing =
  ps_signed_header_1 :: signed_beacon_block_header
  ps_signed_header_2 :: signed_beacon_block_header

record attester_slashing =
  as_attestation_1 :: indexed_attestation
  as_attestation_2 :: indexed_attestation

record attestation =
  at_aggregation_bits :: "bool list"
  at_data :: attestation_data
  at_signature :: "768 word"

record deposit_data =
  dd_pubkey :: "384 word"
  dd_withdrawal_credentials :: hash256
  dd_amount :: u64
  dd_signature :: "768 word"

record deposit =
  dp_proof :: "hash256 list"
  dp_data :: deposit_data

record voluntary_exit =
  ve_epoch :: u64
  ve_validator_index :: u64

record signed_voluntary_exit =
  sve_message :: voluntary_exit
  sve_signature :: "768 word"

section \<open>Execution payloads\<close>

record execution_payload =
  ep_parent_hash :: hash256
  ep_fee_recipient :: "160 word"
  ep_state_root :: hash256
  ep_receipts_root :: hash256
  ep_logs_bloom :: "u8 list"
  ep_prev_randao :: hash256
  ep_block_number :: u64
  ep_gas_limit :: u64
  ep_gas_used :: u64
  ep_timestamp :: u64
  ep_extra_data :: "u8 list"
  ep_base_fee_per_gas :: "256 word"
  ep_block_hash :: hash256
  ep_transactions :: "u8 list list"

record execution_payload_header =
  eh_parent_hash :: hash256
  eh_fee_recipient :: "160 word"
  eh_state_root :: hash256
  eh_receipts_root :: hash256
  eh_logs_bloom :: "u8 list"
  eh_prev_randao :: hash256
  eh_block_number :: u64
  eh_gas_limit :: u64
  eh_gas_used :: u64
  eh_timestamp :: u64
  eh_extra_data :: "u8 list"
  eh_base_fee_per_gas :: "256 word"
  eh_block_hash :: hash256
  eh_transactions_root :: hash256

text \<open>Both \<^verbatim>\<open>Default\<close> impls fill the logs bloom, a 256-byte vector, with zero bytes.\<close>

definition default_execution_payload :: execution_payload where
  "default_execution_payload = \<lparr>
     ep_parent_hash = 0, ep_fee_recipient = 0, ep_state_root = 0, ep_receipts_root = 0,
     ep_logs_bloom = replicate 256 0, ep_prev_randao = 0, ep_block_number = 0,
     ep_gas_limit = 0, ep_gas_used = 0, ep_timestamp = 0, ep_extra_data = [],
     ep_base_fee_per_gas = 0, ep_block_hash = 0, ep_transactions = []\<rparr>"

definition default_execution_payload_header :: execution_payload_header where
  "default_execution_payload_header = \<lparr>
     eh_parent_hash = 0, eh_fee_recipient = 0, eh_state_root = 0, eh_receipts_root = 0,
     eh_logs_bloom = replicate 256 0, eh_prev_randao = 0, eh_block_number = 0,
     eh_gas_limit = 0, eh_gas_used = 0, eh_timestamp = 0, eh_extra_data = [],
     eh_base_fee_per_gas = 0, eh_block_hash = 0, eh_transactions_root = 0\<rparr>"

section \<open>Blocks and states\<close>

record beacon_block_body =
  bb_randao_reveal :: "768 word"
  bb_eth1_data :: eth1_data
  bb_graffiti :: hash256
  bb_proposer_slashings :: "proposer_slashing list"
  bb_attester_slashings :: "attester_slashing list"
  bb_attestations :: "attestation list"
  bb_deposits :: "deposit list"
  bb_voluntary_exits :: "signed_voluntary_exit list"
  bb_execution_payload :: execution_payload

record beacon_block =
  b_fork_variant :: fork_variant
  b_slot :: u64
  b_proposer_index :: u64
  b_parent_root :: root
  b_state_root :: root
  b_body :: beacon_block_body

record signed_beacon_block =
  sb_message :: beacon_block
  sb_signature :: "768 word"

record beacon_state =
  st_fork_variant :: fork_variant
  st_genesis_time :: u64
  st_genesis_validators_root :: root
  st_slot :: u64
  st_fork :: fork
  st_latest_block_header :: beacon_block_header
  st_block_roots :: "root list"
  st_state_roots :: "root list"
  st_historical_roots :: "root list"
  st_eth1_data :: eth1_data
  st_eth1_data_votes :: "eth1_data list"
  st_eth1_deposit_index :: u64
  st_validators :: "validator list"
  st_balances :: "u64 list"
  st_randao_mixes :: "hash256 list"
  st_slashings :: "u64 list"
  st_previous_epoch_attestations :: "pending_attestation list"
  st_current_epoch_attestations :: "pending_attestation list"
  st_justification_bits :: "bool list"
  st_previous_justified_checkpoint :: checkpoint
  st_current_justified_checkpoint :: checkpoint
  st_finalized_checkpoint :: checkpoint
  st_latest_execution_payload_header :: execution_payload_header
  st_proposer_lookahead :: "u64 list"

datatype payload_status = Valid | Invalid | NotValidated

text \<open>
  The fork dispatch on blocks: only variants from Bellatrix on carry a payload, so
  the payload field of a \<^const>\<open>Phase0\<close> or \<^const>\<open>Altair\<close> block is never read.
\<close>

definition has_execution_payload :: "fork_variant \<Rightarrow> bool" where
  "has_execution_payload v \<longleftrightarrow> v \<noteq> Phase0 \<and> v \<noteq> Altair"

definition get_execution_block_hash :: "beacon_block \<Rightarrow> hash256 option" where
  "get_execution_block_hash b =
     (if has_execution_payload (b_fork_variant b)
      then Some (ep_block_hash (bb_execution_payload (b_body b))) else None)"

definition get_execution_payload_parent_hash :: "beacon_block \<Rightarrow> hash256 option" where
  "get_execution_payload_parent_hash b =
     (if has_execution_payload (b_fork_variant b)
      then Some (ep_parent_hash (bb_execution_payload (b_body b))) else None)"

definition is_merge_transition_block :: "beacon_state \<Rightarrow> beacon_block \<Rightarrow> bool" where
  "is_merge_transition_block pre_state block =
     (if st_fork_variant pre_state \<noteq> Bellatrix then False
      else if b_fork_variant block \<noteq> Bellatrix then False
      else
        let merge_complete =
              st_latest_execution_payload_header pre_state \<noteq> default_execution_payload_header
        in \<not> merge_complete
           \<and> bb_execution_payload (b_body block) \<noteq> default_execution_payload)"

section \<open>Sample values\<close>

text \<open>Concrete values for witnesses; they model no code.\<close>

definition sample_block :: "u64 \<Rightarrow> root \<Rightarrow> beacon_block" where
  "sample_block slot parent = \<lparr>
     b_fork_variant = Phase0, b_slot = slot, b_proposer_index = 0,
     b_parent_root = parent, b_state_root = 0,
     b_body = \<lparr>
       bb_randao_reveal = 0,
       bb_eth1_data = \<lparr>ed_deposit_root = 0, ed_deposit_count = 0, ed_block_hash = 0\<rparr>,
       bb_graffiti = 0, bb_proposer_slashings = [], bb_attester_slashings = [],
       bb_attestations = [], bb_deposits = [], bb_voluntary_exits = [],
       bb_execution_payload = default_execution_payload\<rparr>\<rparr>"

definition sample_validator :: validator where
  "sample_validator = \<lparr>
     v_pubkey = 0, v_withdrawal_credentials = 0, v_effective_balance = 32000000000,
     v_slashed = False, v_activation_eligibility_epoch = 0, v_activation_epoch = 0,
     v_exit_epoch = 18446744073709551615, v_withdrawable_epoch = 18446744073709551615\<rparr>"

definition sample_state :: "u64 \<Rightarrow> validator list \<Rightarrow> beacon_state" where
  "sample_state slot vs = \<lparr>
     st_fork_variant = Phase0, st_genesis_time = 0, st_genesis_validators_root = 0,
     st_slot = slot,
     st_fork = \<lparr>fk_previous_version = 0, fk_current_version = 0, fk_epoch = 0\<rparr>,
     st_latest_block_header = \<lparr>bh_slot = 0, bh_proposer_index = 0, bh_parent_root = 0,
       bh_state_root = 0, bh_body_root = 0\<rparr>,
     st_block_roots = replicate 64 0, st_state_roots = replicate 64 0,
     st_historical_roots = [],
     st_eth1_data = \<lparr>ed_deposit_root = 0, ed_deposit_count = 0, ed_block_hash = 0\<rparr>,
     st_eth1_data_votes = [], st_eth1_deposit_index = 0,
     st_validators = vs, st_balances = map v_effective_balance vs,
     st_randao_mixes = replicate 64 0, st_slashings = replicate 64 0,
     st_previous_epoch_attestations = [], st_current_epoch_attestations = [],
     st_justification_bits = replicate 4 False,
     st_previous_justified_checkpoint = \<lparr>cp_epoch = 0, cp_root = 0\<rparr>,
     st_current_justified_checkpoint = \<lparr>cp_epoch = 0, cp_root = 0\<rparr>,
     st_finalized_checkpoint = \<lparr>cp_epoch = 0, cp_root = 0\<rparr>,
     st_latest_execution_payload_header = default_execution_payload_header,
     st_proposer_lookahead = []\<rparr>"

definition sample_attestation :: attestation where
  "sample_attestation = \<lparr>
     at_aggregation_bits = [True],
     at_data = \<lparr>ad_slot = 7, ad_index = 0, ad_beacon_block_root = 0,
       ad_source = \<lparr>cp_epoch = 0, cp_root = 0\<rparr>, ad_target = \<lparr>cp_epoch = 0, cp_root = 0\<rparr>\<rparr>,
     at_signature = 0\<rparr>"

section \<open>Well-formed presets\<close>

text \<open>
  What the arithmetic of the modelled code relies on: no divisor is zero.  Both
  presets of the source satisfy it.
\<close>

definition wf_preset :: "preset \<Rightarrow> bool" where
  "wf_preset E \<longleftrightarrow>
     0 < SLOTS_PER_EPOCH E \<and> 0 < TARGET_COMMITTEE_SIZE E \<and>
     0 < MAX_COMMITTEES_PER_SLOT E \<and> 0 < SLOTS_PER_HISTORICAL_ROOT E \<and>
     0 < EPOCHS_PER_HISTORICAL_VECTOR E \<and> 0 < EPOCHS_PER_SLASHINGS_VECTOR E \<and>
     0 < CHURN_LIMIT_QUOTIENT E \<and> 0 < EFFECTIVE_BALANCE_INCREMENT E \<and>
     1000 \<le> SLOT_DURATION_MS E \<and> SLOT_DURATION_MS E mod 1000 = 0"

lemma wf_mainnet_preset [simp]: "wf_preset mainnet_preset"
  by (simp add: wf_preset_def mainnet_preset_def)

lemma wf_minimal_preset [simp]: "wf_preset minimal_preset"
  by (simp add: wf_preset_def minimal_preset_def)

lemma get_execution_block_hash_Some_iff [pharos_simps]:
  "get_execution_block_hash b = Some h \<longleftrightarrow>
     has_execution_payload (b_fork_variant b) \<and> h = ep_block_hash (bb_execution_payload (b_body b))"
  by (auto simp: get_execution_block_hash_def)

lemma is_merge_transition_block_payload:
  assumes "is_merge_transition_block pre b"
  shows "get_execution_payload_parent_hash b
           = Some (ep_parent_hash (bb_execution_payload (b_body b)))"
  using assms
  by (simp add: is_merge_transition_block_def get_execution_payload_parent_hash_def
      has_execution_payload_def split: if_splits)

end
