(* ===== verification/Phase0_Shuffling.thy ===== *)
theory Phase0_Shuffling
  imports Bytes Pharos_Types
begin

text \<open>
  The swap-or-not shuffle: the single-index form
  (\<^verbatim>\<open>src/crates/pharos-types/src/shuffling.rs\<close>) and the batched form with its per-round
  hash cache (\<^verbatim>\<open>src/crates/pharos-stf/src/phase0/shuffling.rs\<close>).

  Every round is an involution on the indices below \<open>index_count\<close>, so the single-index
  form is a bijection, and the batched form lists exactly its values.  Both need
  \<open>index_count \<le> 2 ^ 63\<close>: beyond that \<^verbatim>\<open>pivot + index_count\<close> overflows a \<^verbatim>\<open>u64\<close>.
  The validator registry holds at most \<open>2 ^ 40\<close> entries.
\<close>

unbundle bit_operations_syntax

section \<open>Definitions\<close>

text \<open>\<^verbatim>\<open>buf[..33]\<close> is the seed and the round byte, \<^verbatim>\<open>buf[..37]\<close> adds the bucket.\<close>

definition shuffle_pivot :: "sha256 \<Rightarrow> hash256 \<Rightarrow> u64 \<Rightarrow> u64 \<Rightarrow> u64" where
  "shuffle_pivot sha seed index_count current_round =
     bytes_to_uint64 (take 8 (hash_bytes (sha (hash_bytes seed @ [ucast current_round]))))
       mod index_count"

definition shuffle_bucket :: "u64 \<Rightarrow> u32" where
  "shuffle_bucket position = ucast (position div 256)"

definition shuffle_source :: "sha256 \<Rightarrow> hash256 \<Rightarrow> u64 \<Rightarrow> u32 \<Rightarrow> hash256" where
  "shuffle_source sha seed current_round bucket =
     sha (hash_bytes seed @ [ucast current_round] @ le_bytes 4 bucket)"

definition shuffle_flip :: "u64 \<Rightarrow> u64 \<Rightarrow> u64 \<Rightarrow> u64" where
  "shuffle_flip pivot index_count cur = (pivot + index_count - cur) mod index_count"

definition shuffle_bit :: "hash256 \<Rightarrow> u64 \<Rightarrow> bool" where
  "shuffle_bit source position \<longleftrightarrow>
     (let byte_val = hash_bytes source ! unat (position mod 256 div 8)
      in drop_bit (unat (position mod 8)) byte_val AND 1 \<noteq> 0)"

definition shuffle_round :: "sha256 \<Rightarrow> hash256 \<Rightarrow> u64 \<Rightarrow> u64 \<Rightarrow> u64 \<Rightarrow> u64" where
  "shuffle_round sha seed index_count current_round cur =
     (let pivot = shuffle_pivot sha seed index_count current_round;
          flip = shuffle_flip pivot index_count cur;
          position = max cur flip;
          source = shuffle_source sha seed current_round (shuffle_bucket position)
      in if shuffle_bit source position then flip else cur)"

definition compute_shuffled_index :: "sha256 \<Rightarrow> u64 \<Rightarrow> u64 \<Rightarrow> hash256 \<Rightarrow> u64 \<Rightarrow> u64 option" where
  "compute_shuffled_index sha index index_count seed round_count =
     (if \<not> index < index_count then None
      else Some (fold (\<lambda>r cur. shuffle_round sha seed index_count (word_of_nat r) cur)
                      [0..<unat round_count] index))"

text \<open>
  The inner loop of the batched form: \<^verbatim>\<open>source_cache\<close> maps buckets to hashes, and
  \<^verbatim>\<open>entry(bucket).or_insert_with(..)\<close> computes a hash on the first use of a bucket.
\<close>

fun shuffle_pass :: "sha256 \<Rightarrow> hash256 \<Rightarrow> u64 \<Rightarrow> u64 \<Rightarrow> u64 \<Rightarrow> (u32 \<rightharpoonup> hash256) \<Rightarrow> u64 list \<Rightarrow> u64 list" where
  "shuffle_pass sha seed index_count current_round pivot source_cache [] = []"
| "shuffle_pass sha seed index_count current_round pivot source_cache (idx # indices) =
     (let flip = shuffle_flip pivot index_count idx;
          position = max idx flip;
          bucket = shuffle_bucket position;
          source = (case source_cache bucket of Some s \<Rightarrow> s
                    | None \<Rightarrow> shuffle_source sha seed current_round bucket)
      in (if shuffle_bit source position then flip else idx)
         # shuffle_pass sha seed index_count current_round pivot (source_cache(bucket \<mapsto> source)) indices)"

definition compute_shuffled_permutation :: "sha256 \<Rightarrow> u64 \<Rightarrow> hash256 \<Rightarrow> u64 \<Rightarrow> u64 list" where
  "compute_shuffled_permutation sha index_count seed round_count =
     (if index_count = 0 then []
      else fold (\<lambda>r indices.
                   shuffle_pass sha seed index_count (word_of_nat r)
                     (shuffle_pivot sha seed index_count (word_of_nat r)) Map.empty indices)
             [0..<unat round_count] (map word_of_nat [0..<unat index_count]))"

section \<open>A round is an involution\<close>

lemma unat_shuffle_flip:
  assumes "pivot < n" and "c < n" and "n \<le> 2 ^ 63"
  shows "unat (shuffle_flip pivot n c) = (unat pivot + unat n - unat c) mod unat n"
proof -
  have bounds: "unat pivot < unat n" "unat c < unat n" "unat n \<le> 2 ^ 63"
    using assms by (simp_all add: word_less_nat_alt word_le_nat_alt)
  then have "unat (pivot + n) = unat pivot + unat n" by (intro unat_add_u64) simp
  moreover from this bounds have "unat (pivot + n - c) = unat pivot + unat n - unat c"
    by (simp add: unat_sub_if')
  ultimately show ?thesis by (simp add: shuffle_flip_def unat_mod)
qed

lemma mod_reflect_involution:
  fixes n p c :: nat
  assumes "p < n" and "c < n"
  shows "(p + n - (p + n - c) mod n) mod n = c"
proof (cases "c \<le> p")
  case True
  have "p + n - c = (p - c) + n" using True by linarith
  then have 1: "(p + n - c) mod n = p - c"
    using assms(1) by (metis less_imp_diff_less mod_add_self2 mod_less)
  have "p + n - (p - c) = c + n" using True by linarith
  then show ?thesis
    unfolding 1 using assms(2) by (metis mod_add_self2 mod_less)
next
  case False
  then have "p + n - c < n" using assms by linarith
  then have 1: "(p + n - c) mod n = p + n - c" by (rule mod_less)
  have "p + n - (p + n - c) = c" using assms(2) by linarith
  then show ?thesis
    unfolding 1 using assms(2) by (metis mod_less)
qed

lemma u64_mod_less: "c < n \<Longrightarrow> m mod n < n" for m n c :: u64
  by (simp add: word_less_nat_alt unat_mod)

lemma shuffle_flip_less: "c < n \<Longrightarrow> shuffle_flip pivot n c < n"
  unfolding shuffle_flip_def by (rule u64_mod_less)

lemma shuffle_pivot_less: "c < n \<Longrightarrow> shuffle_pivot sha seed n r < n"
  unfolding shuffle_pivot_def by (rule u64_mod_less)

lemma shuffle_flip_involution:
  assumes "pivot < n" and "c < n" and "n \<le> 2 ^ 63"
  shows "shuffle_flip pivot n (shuffle_flip pivot n c) = c"
proof -
  have f: "shuffle_flip pivot n c < n" using assms(2) by (rule shuffle_flip_less)
  have "unat (shuffle_flip pivot n (shuffle_flip pivot n c)) = unat c"
    using unat_shuffle_flip [OF assms(1) f assms(3)] unat_shuffle_flip [OF assms]
      mod_reflect_involution [of "unat pivot" "unat n" "unat c"] assms(1,2)
    by (simp add: word_less_nat_alt)
  then show ?thesis by (simp add: word_unat_eq_iff)
qed

lemma shuffle_round_less: "c < n \<Longrightarrow> shuffle_round sha seed n r c < n"
  by (auto simp: shuffle_round_def Let_def intro: shuffle_flip_less)

lemma shuffle_round_involution:
  assumes "c < n" and "n \<le> 2 ^ 63"
  shows "shuffle_round sha seed n r (shuffle_round sha seed n r c) = c"
proof -
  let ?p = "shuffle_pivot sha seed n r"
  have "?p < n" using assms(1) by (rule shuffle_pivot_less)
  then have "shuffle_flip ?p n (shuffle_flip ?p n c) = c"
    using assms by (intro shuffle_flip_involution)
  then show ?thesis by (auto simp: shuffle_round_def Let_def max.commute)
qed

lemma fold_rounds_less:
  "c < n \<Longrightarrow> fold (\<lambda>r. shuffle_round sha seed n (word_of_nat r)) rs c < n"
  by (induction rs arbitrary: c) (auto intro: shuffle_round_less)

text \<open>Undoing the rounds last to first recovers the index.\<close>

lemma fold_rounds_inverse:
  assumes "c < n" and "n \<le> 2 ^ 63"
  shows "fold (\<lambda>r. shuffle_round sha seed n (word_of_nat r)) (rev rs)
           (fold (\<lambda>r. shuffle_round sha seed n (word_of_nat r)) rs c) = c"
  using assms(1)
proof (induction rs arbitrary: c)
  case (Cons r rs)
  then have "shuffle_round sha seed n (word_of_nat r) c < n" by (rule_tac shuffle_round_less)
  with Cons assms(2) show ?case by (simp add: shuffle_round_involution)
qed simp

section \<open>The cached pass\<close>

lemma shuffle_pass_map:
  assumes "\<And>b s. source_cache b = Some s \<Longrightarrow> s = shuffle_source sha seed r b"
  shows "shuffle_pass sha seed n r (shuffle_pivot sha seed n r) source_cache xs
           = map (shuffle_round sha seed n r) xs"
  using assms
proof (induction xs arbitrary: source_cache)
  case (Cons x xs)
  let ?pos = "max x (shuffle_flip (shuffle_pivot sha seed n r) n x)"
  let ?b = "shuffle_bucket ?pos"
  have hit: "(case source_cache ?b of Some s \<Rightarrow> s | None \<Rightarrow> shuffle_source sha seed r ?b)
               = shuffle_source sha seed r ?b"
    using Cons.prems by (auto split: option.splits)
  have "shuffle_pass sha seed n r (shuffle_pivot sha seed n r)
          (source_cache(?b \<mapsto> shuffle_source sha seed r ?b)) xs = map (shuffle_round sha seed n r) xs"
    using Cons.prems by (intro Cons.IH) (auto split: if_splits)
  then show ?case
    unfolding shuffle_pass.simps Let_def hit by (simp add: shuffle_round_def Let_def)
qed simp

lemma fold_map_commute:
  "fold (\<lambda>r. map (f r)) rs xs = map (fold f rs) xs"
  by (induction rs arbitrary: xs) (simp_all add: comp_def)

lemma compute_shuffled_permutation_eq_map:
  "compute_shuffled_permutation sha n seed rc =
     map (fold (\<lambda>r. shuffle_round sha seed n (word_of_nat r)) [0..<unat rc])
       (map word_of_nat [0..<unat n])"
proof -
  have "shuffle_pass sha seed n r (shuffle_pivot sha seed n r) Map.empty xs
          = map (shuffle_round sha seed n r) xs" for r xs
    by (rule shuffle_pass_map) simp
  then show ?thesis
    by (simp add: compute_shuffled_permutation_def fold_map_commute)
qed

lemma distinct_word_of_nat_upt: "distinct (map word_of_nat [0..<unat (n :: u64)] :: u64 list)"
  by (auto simp: distinct_map unat_word_of_nat_below intro!: inj_on_inverseI [of _ unat])

lemma set_word_of_nat_upt: "set (map word_of_nat [0..<unat (n :: u64)] :: u64 list) = {x. x < n}"
proof -
  have "x \<in> word_of_nat ` {0..<unat n}" if "x < n" for x :: u64
    using that by (intro image_eqI [of _ _ "unat x"]) (simp_all add: word_less_nat_alt)
  moreover have "word_of_nat k < n" if "k < unat n" for k
    using that by (simp add: word_less_nat_alt unat_word_of_nat_below)
  ultimately show ?thesis by auto
qed

lemma shuffled_permutation_distinct_set:
  assumes "index_count \<le> 2 ^ 63"
  shows "distinct (compute_shuffled_permutation sha index_count seed round_count)
         \<and> set (compute_shuffled_permutation sha index_count seed round_count) = {i. i < index_count}"
proof -
  let ?f = "fold (\<lambda>r. shuffle_round sha seed index_count (word_of_nat r)) [0..<unat round_count]"
  have inj: "inj_on ?f {i. i < index_count}"
    using fold_rounds_inverse [OF _ assms, of _ sha seed "[0..<unat round_count]"]
    by (intro inj_on_inverseI) simp
  moreover have into: "?f ` {i. i < index_count} \<subseteq> {i. i < index_count}"
    by (auto intro: fold_rounds_less)
  ultimately have "?f ` {i. i < index_count} = {i. i < index_count}"
    by (intro card_subset_eq) (simp_all add: card_image)
  then show ?thesis
    using inj distinct_word_of_nat_upt [of index_count] set_word_of_nat_upt [of index_count]
    unfolding compute_shuffled_permutation_eq_map by (simp only: distinct_map set_map)
qed

lemma batched_shuffle_eq:
  "compute_shuffled_index sha i index_count seed round_count =
     nth_opt (compute_shuffled_permutation sha index_count seed round_count) (unat i)"
proof (cases "i < index_count")
  case True
  then have "unat i < unat index_count" by (simp add: word_less_nat_alt)
  with True show ?thesis
    by (simp add: compute_shuffled_index_def compute_shuffled_permutation_eq_map nth_opt_def)
next
  case False
  then have "unat index_count \<le> unat i" by (simp add: word_less_nat_alt)
  with False show ?thesis
    by (simp add: compute_shuffled_index_def compute_shuffled_permutation_eq_map nth_opt_def)
qed

section \<open>Properties\<close>

text \<open>C33: the shuffle is a permutation: for any seed, round count and hash function, the batched
  \<^verbatim>\<open>compute_shuffled_permutation\<close> lists each index below \<^verbatim>\<open>index_count\<close> exactly once.\<close>

theorem shuffled_permutation_is_permutation:
  assumes "index_count \<le> 2 ^ 63"
  shows "distinct (compute_shuffled_permutation sha index_count seed round_count)
         \<and> set (compute_shuffled_permutation sha index_count seed round_count) = {i. i < index_count}"
  using assms by (rule shuffled_permutation_distinct_set)

theorem shuffled_permutation_is_permutation_witness:
  "distinct (compute_shuffled_permutation (\<lambda>bs. hash_of_bytes (take 32 (bs @ replicate 32 7))) 4 9 2)"
  using shuffled_permutation_is_permutation [of 4] by simp

text \<open>C34: the batched and the single-index shuffle agree: entry \<open>i\<close> of
  \<^verbatim>\<open>compute_shuffled_permutation\<close>, computed with the per-round hash cache, is
  \<^verbatim>\<open>compute_shuffled_index\<close> of \<open>i\<close>, which panics exactly on the indices out of range.\<close>

theorem batched_shuffle_eq_single:
  "compute_shuffled_index sha i index_count seed round_count =
     nth_opt (compute_shuffled_permutation sha index_count seed round_count) (unat i)"
  by (rule batched_shuffle_eq)

end
