(* ===== verification/Phase0_Helpers.thy ===== *)
theory Phase0_Helpers
  imports Ssz_Merkle Phase0_Shuffling
begin

text \<open>
  Pure helpers of the phase 0 state transition: constants and the integer square root
  (\<^verbatim>\<open>helpers.rs\<close>), predicates on validators and attestations (\<^verbatim>\<open>predicates.rs\<close>), and
  domains and signing roots (\<^verbatim>\<open>accessors.rs\<close>, \<^verbatim>\<open>pharos-types/src/fork.rs\<close>).

  The \<^verbatim>\<open>blst\<close> and \<^verbatim>\<open>sha2\<close> crates are not part of the sources: the record \<open>crypto\<close> holds
  their functions as parameters.  A signature check that \<^verbatim>\<open>blst\<close> cannot run (malformed key or
  signature) is \<open>None\<close>.
\<close>

section \<open>Cryptography the code calls\<close>

record crypto =
  cr_sha :: sha256
  cr_bls_aggregate :: "384 word list \<Rightarrow> u8 list \<Rightarrow> 768 word \<Rightarrow> bool option"
  cr_bls_verify :: "384 word \<Rightarrow> u8 list \<Rightarrow> 768 word \<Rightarrow> bool option"

definition fast_aggregate_verify :: "crypto \<Rightarrow> 384 word list \<Rightarrow> u8 list \<Rightarrow> 768 word \<Rightarrow> bool option" where
  "fast_aggregate_verify cr pubkeys msg signature =
     (if pubkeys = [] then None else cr_bls_aggregate cr pubkeys msg signature)"

text \<open>A concrete instance for witnesses: a constant hash, and signatures that always verify.\<close>

definition sample_crypto :: crypto where
  "sample_crypto = \<lparr>cr_sha = (\<lambda>_. 0), cr_bls_aggregate = (\<lambda>_ _ _. Some True),
                    cr_bls_verify = (\<lambda>_ _ _. Some True)\<rparr>"

section \<open>Constants\<close>

definition UINT64_MAX :: u64 where "UINT64_MAX = - 1"

definition UINT64_MAX_SQRT :: u64 where "UINT64_MAX_SQRT = 4294967295"

definition FAR_FUTURE_EPOCH :: u64 where "FAR_FUTURE_EPOCH = - 1"

definition GENESIS_EPOCH :: u64 where "GENESIS_EPOCH = 0"

definition DOMAIN_BEACON_PROPOSER :: "u8 list" where "DOMAIN_BEACON_PROPOSER = [0, 0, 0, 0]"

definition DOMAIN_BEACON_ATTESTER :: "u8 list" where "DOMAIN_BEACON_ATTESTER = [1, 0, 0, 0]"

definition DOMAIN_RANDAO :: "u8 list" where "DOMAIN_RANDAO = [2, 0, 0, 0]"

definition DOMAIN_DEPOSIT :: "u8 list" where "DOMAIN_DEPOSIT = [3, 0, 0, 0]"

definition DOMAIN_VOLUNTARY_EXIT :: "u8 list" where "DOMAIN_VOLUNTARY_EXIT = [4, 0, 0, 0]"

section \<open>Integer square root\<close>

function integer_squareroot_loop :: "u64 \<Rightarrow> u64 \<Rightarrow> u64 \<Rightarrow> u64" where
  "integer_squareroot_loop n x y =
     (if y < x then integer_squareroot_loop n y ((y + n div y) div 2) else x)"
  by auto
termination by (relation "measure (\<lambda>(n, x, y). unat x)") (auto simp: word_less_nat_alt)

declare integer_squareroot_loop.simps [simp del]

definition integer_squareroot :: "u64 \<Rightarrow> u64" where
  "integer_squareroot n =
     (if n = UINT64_MAX then UINT64_MAX_SQRT
      else let x = n; y = (x + 1) div 2 in integer_squareroot_loop n x y)"

section \<open>Predicates\<close>

definition is_active_validator :: "validator \<Rightarrow> u64 \<Rightarrow> bool" where
  "is_active_validator v epoch \<longleftrightarrow> v_activation_epoch v \<le> epoch \<and> epoch < v_exit_epoch v"

definition is_eligible_for_activation_queue :: "preset \<Rightarrow> validator \<Rightarrow> bool" where
  "is_eligible_for_activation_queue E v \<longleftrightarrow>
     v_activation_eligibility_epoch v = FAR_FUTURE_EPOCH
     \<and> v_effective_balance v = MAX_EFFECTIVE_BALANCE E"

definition is_eligible_for_activation :: "u64 \<Rightarrow> validator \<Rightarrow> bool" where
  "is_eligible_for_activation finalized_epoch v \<longleftrightarrow>
     v_activation_eligibility_epoch v \<le> finalized_epoch \<and> v_activation_epoch v = FAR_FUTURE_EPOCH"

definition is_slashable_validator :: "validator \<Rightarrow> u64 \<Rightarrow> bool" where
  "is_slashable_validator v epoch \<longleftrightarrow>
     \<not> v_slashed v \<and> v_activation_epoch v \<le> epoch \<and> epoch < v_withdrawable_epoch v"

definition is_slashable_attestation_data :: "attestation_data \<Rightarrow> attestation_data \<Rightarrow> bool" where
  "is_slashable_attestation_data d1 d2 \<longleftrightarrow>
     (d1 \<noteq> d2 \<and> cp_epoch (ad_target d1) = cp_epoch (ad_target d2))
     \<or> (cp_epoch (ad_source d1) < cp_epoch (ad_source d2)
        \<and> cp_epoch (ad_target d2) < cp_epoch (ad_target d1))"

definition TARGET_AGGREGATORS_PER_COMMITTEE :: nat where
  "TARGET_AGGREGATORS_PER_COMMITTEE = 16"

definition is_aggregator :: "sha256 \<Rightarrow> nat \<Rightarrow> 768 word \<Rightarrow> bool" where
  "is_aggregator sha committee_len slot_signature \<longleftrightarrow>
     (let modulo = max 1 (committee_len div TARGET_AGGREGATORS_PER_COMMITTEE);
          h = sha (be_bytes 96 slot_signature);
          n = from_le_bytes (take 8 (hash_bytes h)) :: u64
      in n mod word_of_nat modulo = 0)"

section \<open>Container roots, domains and signing roots\<close>

text \<open>
  The derived \<^verbatim>\<open>tree_hash_root\<close> of a container merkleizes the roots of its fields.
  \<^const>\<open>merkleize\<close> panics on no container (lemma \<open>merkleize_small\<close> below), so the default of
  \<^const>\<open>unwrap_or\<close> is never taken.
\<close>

definition container_root :: "sha256 \<Rightarrow> hash256 list \<Rightarrow> hash256" where
  "container_root sha field_roots = unwrap_or (merkleize sha field_roots) 0"

definition bytes_root :: "sha256 \<Rightarrow> u8 list \<Rightarrow> hash256" where
  "bytes_root sha bs = unwrap_or (fixed_bytes_root sha bs) 0"

definition checkpoint_root :: "sha256 \<Rightarrow> checkpoint \<Rightarrow> hash256" where
  "checkpoint_root sha c = container_root sha [uint64_root (cp_epoch c), cp_root c]"

definition attestation_data_root :: "sha256 \<Rightarrow> attestation_data \<Rightarrow> hash256" where
  "attestation_data_root sha d =
     container_root sha
       [uint64_root (ad_slot d), uint64_root (ad_index d), ad_beacon_block_root d,
        checkpoint_root sha (ad_source d), checkpoint_root sha (ad_target d)]"

definition beacon_block_header_root :: "sha256 \<Rightarrow> beacon_block_header \<Rightarrow> hash256" where
  "beacon_block_header_root sha h =
     container_root sha
       [uint64_root (bh_slot h), uint64_root (bh_proposer_index h), bh_parent_root h,
        bh_state_root h, bh_body_root h]"

definition voluntary_exit_root :: "sha256 \<Rightarrow> voluntary_exit \<Rightarrow> hash256" where
  "voluntary_exit_root sha e =
     container_root sha [uint64_root (ve_epoch e), uint64_root (ve_validator_index e)]"

definition compute_fork_data_root :: "sha256 \<Rightarrow> 32 word \<Rightarrow> root \<Rightarrow> root" where
  "compute_fork_data_root sha current_version genesis_validators_root =
     container_root sha [bytes_root sha (be_bytes 4 current_version), genesis_validators_root]"

definition compute_domain :: "sha256 \<Rightarrow> u8 list \<Rightarrow> 32 word \<Rightarrow> root \<Rightarrow> hash256" where
  "compute_domain sha domain_type fork_version genesis_validators_root =
     (let fork_data_root = compute_fork_data_root sha fork_version genesis_validators_root
      in hash_of_bytes (take 4 domain_type @ take 28 (hash_bytes fork_data_root)))"

definition compute_signing_root :: "sha256 \<Rightarrow> hash256 \<Rightarrow> hash256 \<Rightarrow> root" where
  "compute_signing_root sha object_root domain = container_root sha [object_root, domain]"

section \<open>Lemmas\<close>

lemma merkleize_small: "length roots \<le> 2 ^ 63 \<Longrightarrow> \<exists>r. merkleize sha roots = Some r"
proof -
  assume len: "length roots \<le> 2 ^ 63"
  from next_pow_of_two_ex [of "length roots"] obtain d where
    d: "next_pow_of_two (length roots) = 2 ^ d" "length roots \<le> 2 ^ d"
    "\<And>e. length roots \<le> 2 ^ e \<Longrightarrow> d \<le> e" by auto
  from d(3) [OF len] have "d < 64" by simp
  with merkleize_padded_inner_root [OF d(2), of sha] d(1) show ?thesis
    by (simp add: merkleize_def zero_hash_def)
qed

lemma merkleize_pair: "merkleize sha [a, b] = Some (hash_concat sha a b)"
proof -
  have "next_pow_of_two (length [a, b]) = 2 ^ 1" by (simp add: next_pow_of_two.simps)
  then show ?thesis
    using merkleize_padded_inner_root [of "[a, b]" 1 sha] by (simp add: merkleize_def pad_chunks_def)
qed

lemma compute_signing_root_eq: "compute_signing_root sha r d = hash_concat sha r d"
  by (simp add: compute_signing_root_def container_root_def merkleize_pair)

lemma newton_step_ge:
  fixes n s x :: nat
  assumes "s * s \<le> n" and "0 < x"
  shows "s \<le> (x + n div x) div 2"
proof -
  have "2 * s \<le> x + n div x"
  proof (cases "2 * s \<le> x")
    case False
    then have "int ((2 * s - x) * x) = 2 * int s * int x - int x * int x"
      by (simp add: of_nat_diff algebra_simps)
    also have "\<dots> \<le> int s * int s"
      using zero_le_square [of "int s - int x"] by (simp add: algebra_simps)
    also have "\<dots> = int (s * s)" by simp
    finally have "(2 * s - x) * x \<le> s * s" by (simp only: of_nat_le_iff)
    with assms have "(2 * s - x) * x \<le> n" by linarith
    then have "2 * s - x \<le> n div x" using assms(2) by (simp add: less_eq_div_iff_mult_less_eq)
    then show ?thesis by linarith
  qed simp
  then show ?thesis by simp
qed


lemma newton_step_unat:
  fixes x n :: u64
  assumes "0 < x" and "unat x \<le> unat n" and "unat n + 1 < 2 ^ 64"
  shows "unat ((x + n div x) div 2) = (unat x + unat n div unat x) div 2"
proof -
  have x: "0 < unat x" using assms(1) by (simp add: word_less_nat_alt)
  have "0 < unat n div unat x" using x assms(2) by (simp add: div_greater_zero_iff)
  then obtain a b where ab: "unat x = Suc a" "unat n div unat x = Suc b"
    using x by (metis Suc_pred)
  have "unat x * (unat n div unat x) \<le> unat n" by simp
  then have "Suc a * Suc b \<le> unat n" using ab by simp
  then have "unat x + unat n div unat x \<le> unat n + 1" using ab by simp
  then have "unat (x + n div x) = unat x + unat n div unat x"
    using assms(3) unat_add_u64 [of x "n div x"] unfolding unat_div by linarith
  then show ?thesis by (simp only: unat_div) simp
qed

lemma unat_less_max: "n \<noteq> - 1 \<Longrightarrow> unat n + 1 < 2 ^ 64" for n :: u64
proof (rule ccontr)
  assume "n \<noteq> - 1" and "\<not> unat n + 1 < 2 ^ 64"
  moreover have "unat n < 2 ^ 64" using unsigned_less [of n, where ?'a = nat] by simp
  ultimately have "unat n = 2 ^ 64 - 1" by linarith
  with \<open>n \<noteq> - 1\<close> show False by (metis unat_minus_1_u64 word_unat_eq_iff)
qed

lemma integer_squareroot_loop_correct:
  assumes "0 < x" and "unat x \<le> unat n" and "unat n + 1 < 2 ^ 64"
    and "y = (x + n div x) div 2" and "\<And>s. s * s \<le> unat n \<Longrightarrow> s \<le> unat x"
  shows "unat (integer_squareroot_loop n x y) * unat (integer_squareroot_loop n x y) \<le> unat n
         \<and> (\<forall>s. s * s \<le> unat n \<longrightarrow> s \<le> unat (integer_squareroot_loop n x y))"
  using assms
proof (induction n x y rule: integer_squareroot_loop.induct)
  case (1 n x y)
  have x: "0 < unat x" using "1.prems"(1) by (simp add: word_less_nat_alt)
  have y: "unat y = (unat x + unat n div unat x) div 2"
    using "1.prems"(1-4) by (simp add: newton_step_unat)
  have ge: "s \<le> unat y" if "s * s \<le> unat n" for s
    using newton_step_ge [OF that x] y by simp
  show ?case
  proof (cases "y < x")
    case True
    have "0 < unat y" using ge [of 1] x "1.prems"(2) by simp
    then have "0 < y" by (simp add: word_less_nat_alt)
    moreover have "unat y \<le> unat n" using True "1.prems"(2) by (simp add: word_less_nat_alt)
    ultimately show ?thesis
      using "1.IH" [OF True] "1.prems"(3) ge True by (simp add: integer_squareroot_loop.simps [of n x])
  next
    case False
    then have "unat x \<le> (unat x + unat n div unat x) div 2" using y by (simp add: word_less_nat_alt)
    then have "unat x \<le> unat n div unat x" by simp
    then have "unat x * unat x \<le> unat n"
      using x by (simp add: less_eq_div_iff_mult_less_eq)
    then show ?thesis using False "1.prems"(5) by (simp add: integer_squareroot_loop.simps [of n x])
  qed
qed

lemma square_bound_u64: "s * s < 2 ^ 64 \<Longrightarrow> s < 4294967296" for s :: nat
proof (rule ccontr)
  assume "s * s < 2 ^ 64" and "\<not> s < 4294967296"
  then have "4294967296 * 4294967296 \<le> s * s" by (intro mult_le_mono) simp_all
  with \<open>s * s < 2 ^ 64\<close> show False by simp
qed

text \<open>C37: \<^verbatim>\<open>integer_squareroot\<close> terminates on every \<^verbatim>\<open>u64\<close> and returns the floor of the square
  root: the largest \<open>x\<close> with \<open>x * x \<le> n\<close>; no intermediate sum overflows.\<close>

theorem integer_squareroot_floor:
  "unat (integer_squareroot n) * unat (integer_squareroot n) \<le> unat n
   \<and> unat n < (unat (integer_squareroot n) + 1) * (unat (integer_squareroot n) + 1)"
proof -
  have max: "unat (integer_squareroot n) * unat (integer_squareroot n) \<le> unat n
             \<and> (\<forall>s. s * s \<le> unat n \<longrightarrow> s \<le> unat (integer_squareroot n))"
  proof -
    consider "n = UINT64_MAX" | "n = 0" | "n \<noteq> UINT64_MAX" "n \<noteq> 0" by auto
    then show ?thesis
    proof cases
      case 1
      have "s \<le> 4294967295" if "s * s \<le> 18446744073709551615" for s :: nat
        using square_bound_u64 [of s] that by simp
      with 1 show ?thesis
        by (simp add: integer_squareroot_def UINT64_MAX_def UINT64_MAX_SQRT_def unat_minus_1_u64)
    next
      case 2
      then show ?thesis
        by (simp add: integer_squareroot_def UINT64_MAX_def integer_squareroot_loop.simps)
    next
      case 3
      have small: "unat n + 1 < 2 ^ 64" using 3(1) unfolding UINT64_MAX_def by (rule unat_less_max)
      have pos: "0 < n" using 3(2) by (simp add: word_neq_0_conv)
      have "n div n = 1" using 3(2) by (simp add: word_unat_eq_iff unat_div)
      then have y: "(n + 1) div 2 = (n + n div n) div 2" by simp
      have le: "s \<le> unat n" if "s * s \<le> unat n" for s
        using that le_square [of s] by (rule order.trans [rotated])
      have eq: "integer_squareroot n = integer_squareroot_loop n n ((n + 1) div 2)"
        using 3(1) by (simp add: integer_squareroot_def Let_def)
      show ?thesis
        unfolding eq by (rule integer_squareroot_loop_correct [OF pos order.refl small y le])
    qed
  qed
  have "unat n < (unat (integer_squareroot n) + 1) * (unat (integer_squareroot n) + 1)"
  proof (rule ccontr)
    assume "\<not> ?thesis"
    then have "unat (integer_squareroot n) + 1 \<le> unat (integer_squareroot n)"
      using max by (simp only: not_less)
    then show False by simp
  qed
  with max show ?thesis by (simp only:)
qed

end
