(* ===== verification/Phase0_Accessors.thy ===== *)
theory Phase0_Accessors
  imports Phase0_Helpers "HOL-Library.Multiset"
begin

text \<open>
  Read-only accessors of the phase 0 beacon state
  (\<^verbatim>\<open>src/crates/pharos-stf/src/phase0/accessors.rs\<close>), the signature check of indexed
  attestations (\<^verbatim>\<open>predicates.rs\<close>) and the error enums of the state transition
  (\<^verbatim>\<open>src/crates/pharos-stf/src/error.rs\<close>).

  \<open>None\<close> is a panic (a failed \<^verbatim>\<open>assert!\<close>, \<^verbatim>\<open>unwrap\<close> or \<^verbatim>\<open>expect\<close>) or, in the
  proposer loop, divergence.  The main results: the committees of an epoch partition its active
  validators, and the fused active-balance sum equals the two-pass one.
\<close>

section \<open>Errors of the state transition\<close>

datatype attestation_invalid_reason =
    SlotTooOld | SlotTooNew | TargetEpochMismatch | CommitteeIndexOutOfRange
  | AggregationBitsLengthMismatch | InvalidSourceCheckpoint | AttInvalidSignature
  | EmptyAttestingIndices | IndicesNotSortedOrUnique

datatype block_header_invalid_reason =
    HeaderSlotMismatch | SlotNotLater | ParentRootMismatch | ProposerSlashed
  | HeaderProposerIndexMismatch

datatype deposit_invalid_reason =
    DepositIndexMismatch | InvalidMerkleProof | DepositInvalidSignature

datatype proposer_slashing_invalid_reason =
    PsSlotMismatch | PsProposerIndexMismatch | HeadersIdentical | ValidatorNotSlashable
  | PsInvalidSignature

datatype attester_slashing_invalid_reason =
    AttestationsNotSlashable | NoSlashableIndices | InvalidIndexedAttestation

datatype voluntary_exit_invalid_reason =
    ValidatorNotActive | ExitAlreadyInitiated | EpochTooEarly | InsufficientActiveEpochs
  | VeInvalidSignature

datatype state_transition_error =
    InvalidAttestation attestation_invalid_reason
  | InvalidBlockHeader block_header_invalid_reason
  | InvalidDeposit deposit_invalid_reason
  | InvalidProposerSlashing proposer_slashing_invalid_reason
  | InvalidAttesterSlashing attester_slashing_invalid_reason
  | InvalidVoluntaryExit voluntary_exit_invalid_reason
  | EpochProcessing epoch_processing_error
  | SlotOutOfRange
  | TargetSlotNotAfterCurrent u64 u64
  | InvalidBlockSignature
  | StateRootMismatch root root
  | InvalidDepositCount
  | InvalidRandaoReveal
  | SszError
  | UnsupportedFork
  | InvalidSyncCommittee
  | InvalidExecutionPayload string
  | WithdrawalsMismatch
  | InvalidBlsToExecutionChange string
  | TooManyBlobCommitments nat u64
  | IndexOutOfRange nat
and epoch_processing_error =
    BalanceIndexOutOfRange nat
  | ValidatorIndexOutOfRange nat
  | BlockRootUnavailable
  | InvalidEpochForAttestation
  | EpochUnsupportedFork
  | EpochSsz
  | StateTransition state_transition_error

text \<open>\<^verbatim>\<open>impl From<StateTransitionError> for EpochProcessingError\<close>.\<close>

definition epoch_error_of :: "state_transition_error \<Rightarrow> epoch_processing_error" where
  "epoch_error_of e = (case e of SszError \<Rightarrow> EpochSsz | other \<Rightarrow> StateTransition other)"

section \<open>Slots and epochs\<close>

definition compute_epoch_at_slot :: "u64 \<Rightarrow> u64 \<Rightarrow> u64" where
  "compute_epoch_at_slot slot slots_per_epoch = slot div slots_per_epoch"

definition compute_start_slot_at_epoch :: "u64 \<Rightarrow> u64 \<Rightarrow> u64" where
  "compute_start_slot_at_epoch epoch slots_per_epoch = epoch * slots_per_epoch"

definition compute_activation_exit_epoch :: "u64 \<Rightarrow> u64 \<Rightarrow> u64" where
  "compute_activation_exit_epoch epoch max_seed_lookahead = epoch + 1 + max_seed_lookahead"

definition get_current_epoch :: "preset \<Rightarrow> beacon_state \<Rightarrow> u64" where
  "get_current_epoch E st = compute_epoch_at_slot (st_slot st) (SLOTS_PER_EPOCH E)"

definition get_previous_epoch :: "preset \<Rightarrow> beacon_state \<Rightarrow> u64" where
  "get_previous_epoch E st =
     (let current = get_current_epoch E st
      in if current = GENESIS_EPOCH then GENESIS_EPOCH else current - 1)"

section \<open>History\<close>

definition get_block_root_at_slot ::
  "preset \<Rightarrow> beacon_state \<Rightarrow> u64 \<Rightarrow> (state_transition_error, root) result" where
  "get_block_root_at_slot E st slot =
     (if \<not> (slot < st_slot st \<and> st_slot st \<le> slot + SLOTS_PER_HISTORICAL_ROOT E)
      then Inl SlotOutOfRange
      else ok_or (nth_opt (st_block_roots st) (unat (slot mod SLOTS_PER_HISTORICAL_ROOT E)))
             SlotOutOfRange)"

definition get_block_root ::
  "preset \<Rightarrow> beacon_state \<Rightarrow> u64 \<Rightarrow> (state_transition_error, root) result" where
  "get_block_root E st epoch =
     get_block_root_at_slot E st (compute_start_slot_at_epoch epoch (SLOTS_PER_EPOCH E))"

definition get_randao_mix :: "preset \<Rightarrow> beacon_state \<Rightarrow> u64 \<Rightarrow> hash256" where
  "get_randao_mix E st epoch =
     unwrap_or (nth_opt (st_randao_mixes st) (unat (epoch mod EPOCHS_PER_HISTORICAL_VECTOR E))) 0"

section \<open>Validators and committees\<close>

definition get_active_validator_indices :: "preset \<Rightarrow> beacon_state \<Rightarrow> u64 \<Rightarrow> u64 list" where
  "get_active_validator_indices E st epoch =
     map (\<lambda>(i, v). word_of_nat i)
       (filter (\<lambda>(i, v). is_active_validator v epoch) (enumerate 0 (st_validators st)))"

definition get_validator_churn_limit :: "preset \<Rightarrow> beacon_state \<Rightarrow> u64" where
  "get_validator_churn_limit E st =
     (let active = get_active_validator_indices E st (get_current_epoch E st)
      in max (word_of_nat (length active) div CHURN_LIMIT_QUOTIENT E) (MIN_PER_EPOCH_CHURN_LIMIT E))"

definition get_seed :: "preset \<Rightarrow> sha256 \<Rightarrow> beacon_state \<Rightarrow> u64 \<Rightarrow> u8 list \<Rightarrow> hash256" where
  "get_seed E sha st epoch domain_type =
     (let mix_epoch_raw = epoch + EPOCHS_PER_HISTORICAL_VECTOR E - MIN_SEED_LOOKAHEAD E - 1;
          mix = get_randao_mix E st mix_epoch_raw
      in sha (domain_type @ uint_to_bytes epoch @ hash_bytes mix))"

definition get_committee_count_per_slot :: "preset \<Rightarrow> beacon_state \<Rightarrow> u64 \<Rightarrow> u64" where
  "get_committee_count_per_slot E st epoch =
     (let active = get_active_validator_indices E st epoch
      in min (max (word_of_nat (length active) div SLOTS_PER_EPOCH E div TARGET_COMMITTEE_SIZE E) 1)
             (MAX_COMMITTEES_PER_SLOT E))"

definition compute_committee ::
  "sha256 \<Rightarrow> u64 list \<Rightarrow> hash256 \<Rightarrow> u64 \<Rightarrow> u64 \<Rightarrow> u64 \<Rightarrow> u64 list option" where
  "compute_committee sha indices seed index cnt round_count =
     (let n = word_of_nat (length indices) :: u64;
          start = unat (n * index div cnt);
          stop = unat (n * (index + 1) div cnt)
      in mapM (\<lambda>i. do {
                 shuffled \<leftarrow> compute_shuffled_index sha (word_of_nat i) n seed round_count;
                 nth_opt indices (unat shuffled) })
           [start..<stop])"

definition get_beacon_committee ::
  "preset \<Rightarrow> sha256 \<Rightarrow> beacon_state \<Rightarrow> u64 \<Rightarrow> u64 \<Rightarrow> u64 list option" where
  "get_beacon_committee E sha st slot index =
     (let epoch = compute_epoch_at_slot slot (SLOTS_PER_EPOCH E);
          committees_per_slot = get_committee_count_per_slot E st epoch;
          active = get_active_validator_indices E st epoch;
          seed = get_seed E sha st epoch DOMAIN_BEACON_ATTESTER;
          committee_index = (slot mod SLOTS_PER_EPOCH E) * committees_per_slot + index;
          committee_count = committees_per_slot * SLOTS_PER_EPOCH E
      in compute_committee sha active seed committee_index committee_count (SHUFFLE_ROUND_COUNT E))"

partial_function (option) compute_proposer_index_from ::
  "preset \<Rightarrow> sha256 \<Rightarrow> beacon_state \<Rightarrow> u64 list \<Rightarrow> hash256 \<Rightarrow> u64 \<Rightarrow> u64 option" where
  "compute_proposer_index_from E sha st indices seed i =
     (let total = word_of_nat (length indices) in do {
        shuffled_i \<leftarrow> compute_shuffled_index sha (i mod total) total seed (SHUFFLE_ROUND_COUNT E);
        candidate_index \<leftarrow> nth_opt indices (unat shuffled_i);
        let random_byte =
          ucast (hash_bytes (sha (hash_bytes seed @ uint_to_bytes (i div 32))) ! unat (i mod 32));
        v \<leftarrow> nth_opt (st_validators st) (unat candidate_index);
        if MAX_EFFECTIVE_BALANCE E * random_byte \<le> v_effective_balance v * 255
        then Some candidate_index
        else compute_proposer_index_from E sha st indices seed (i + 1)
      })"

declare compute_proposer_index_from.simps [code]

definition compute_proposer_index ::
  "preset \<Rightarrow> sha256 \<Rightarrow> beacon_state \<Rightarrow> u64 list \<Rightarrow> hash256 \<Rightarrow> u64 option" where
  "compute_proposer_index E sha st indices seed =
     (if indices = [] then None else compute_proposer_index_from E sha st indices seed 0)"

definition get_beacon_proposer_index :: "preset \<Rightarrow> sha256 \<Rightarrow> beacon_state \<Rightarrow> u64 option" where
  "get_beacon_proposer_index E sha st =
     (let epoch = get_current_epoch E st;
          seed_base = get_seed E sha st epoch DOMAIN_BEACON_PROPOSER;
          seed = sha (hash_bytes seed_base @ uint_to_bytes (st_slot st));
          indices = get_active_validator_indices E st epoch
      in compute_proposer_index E sha st indices seed)"

section \<open>Balances\<close>

definition get_total_balance :: "preset \<Rightarrow> beacon_state \<Rightarrow> u64 list \<Rightarrow> u64" where
  "get_total_balance E st indices =
     max (\<Sum>i\<leftarrow>indices. unwrap_or (map_option v_effective_balance (nth_opt (st_validators st) (unat i))) 0)
         (EFFECTIVE_BALANCE_INCREMENT E)"

definition get_total_active_balance :: "preset \<Rightarrow> beacon_state \<Rightarrow> u64" where
  "get_total_active_balance E st =
     (let epoch = get_current_epoch E st
      in max (\<Sum>v\<leftarrow>filter (\<lambda>v. is_active_validator v epoch) (st_validators st). v_effective_balance v)
             (EFFECTIVE_BALANCE_INCREMENT E))"

section \<open>Domains and attestations\<close>

definition get_domain :: "preset \<Rightarrow> sha256 \<Rightarrow> beacon_state \<Rightarrow> u8 list \<Rightarrow> u64 option \<Rightarrow> hash256" where
  "get_domain E sha st domain_type epoch =
     (let epoch = unwrap_or epoch (get_current_epoch E st);
          fork_version = (if epoch < fk_epoch (st_fork st) then fk_previous_version (st_fork st)
                          else fk_current_version (st_fork st))
      in compute_domain sha domain_type fork_version (st_genesis_validators_root st))"

definition get_attesting_indices ::
  "preset \<Rightarrow> sha256 \<Rightarrow> beacon_state \<Rightarrow> attestation_data \<Rightarrow> bool list \<Rightarrow> u64 list option" where
  "get_attesting_indices E sha st data aggregation_bits =
     do {
       committee \<leftarrow> get_beacon_committee E sha st (ad_slot data) (ad_index data);
       Some (map snd (filter (\<lambda>(i, idx). unwrap_or (nth_opt aggregation_bits i) False)
                        (enumerate 0 committee)))
     }"

definition get_indexed_attestation ::
  "preset \<Rightarrow> sha256 \<Rightarrow> beacon_state \<Rightarrow> attestation \<Rightarrow> indexed_attestation option" where
  "get_indexed_attestation E sha st att =
     do {
       attesting \<leftarrow> get_attesting_indices E sha st (at_data att) (at_aggregation_bits att);
       if length attesting \<le> 2048
       then Some \<lparr>ia_attesting_indices = sort attesting, ia_data = at_data att,
                  ia_signature = at_signature att\<rparr>
       else None
     }"

definition ATTESTATION_SUBNET_COUNT :: u64 where
  "ATTESTATION_SUBNET_COUNT = 64"

definition compute_subnet_for_attestation :: "preset \<Rightarrow> u64 \<Rightarrow> u64 \<Rightarrow> u64 \<Rightarrow> u64" where
  "compute_subnet_for_attestation E committees_per_slot slot committee_index =
     (let slots_since_epoch_start = slot mod SLOTS_PER_EPOCH E;
          committees_since = committees_per_slot * slots_since_epoch_start
      in (committees_since + committee_index) mod ATTESTATION_SUBNET_COUNT)"

definition is_valid_indexed_attestation ::
  "preset \<Rightarrow> crypto \<Rightarrow> beacon_state \<Rightarrow> indexed_attestation \<Rightarrow> bool \<Rightarrow> bool" where
  "is_valid_indexed_attestation E cr st indexed_att verify_signatures =
     (let indices = ia_attesting_indices indexed_att in
      if indices = [] then False
      else if \<not> strictly_sorted indices then False
      else if \<not> verify_signatures then True
      else
        let pubkeys = List.map_filter
              (\<lambda>i. map_option v_pubkey (nth_opt (st_validators st) (unat i))) indices
        in if length pubkeys \<noteq> length indices then False
           else
             let domain = get_domain E (cr_sha cr) st DOMAIN_BEACON_ATTESTER
                   (Some (cp_epoch (ad_target (ia_data indexed_att))));
                 signing_root = compute_signing_root (cr_sha cr)
                   (attestation_data_root (cr_sha cr) (ia_data indexed_att)) domain
             in unwrap_or (fast_aggregate_verify cr pubkeys (hash_bytes signing_root)
                             (ia_signature indexed_att)) False)"


section \<open>Committees partition the active validators\<close>

lemma word_of_nat_length_unat: "n < 2 ^ 64 \<Longrightarrow> unat (word_of_nat n :: u64) = n"
  by (simp add: unat_of_nat)

text \<open>The position in the active list that shuffled position \<open>i\<close> reads.\<close>

definition shuffled_member :: "sha256 \<Rightarrow> u64 list \<Rightarrow> hash256 \<Rightarrow> u64 \<Rightarrow> nat \<Rightarrow> u64" where
  "shuffled_member sha indices seed round_count i =
     indices ! unat (compute_shuffled_permutation sha (word_of_nat (length indices)) seed round_count ! i)"

lemma length_compute_shuffled_permutation [simp]:
  "length (compute_shuffled_permutation sha n seed rc) = unat n"
  by (simp add: compute_shuffled_permutation_eq_map)

lemma mset_shuffled_members:
  assumes "length indices \<le> 2 ^ 63"
  shows "mset (map (shuffled_member sha indices seed rc) [0..<length indices]) = mset indices"
proof -
  let ?n = "word_of_nat (length indices) :: u64"
  let ?p = "compute_shuffled_permutation sha ?n seed rc"
  have n: "unat ?n = length indices" using assms by (intro word_of_nat_length_unat) simp
  then have "?n \<le> 2 ^ 63" using assms by (simp add: word_le_nat_alt)
  then have p: "distinct ?p" "set ?p = {i. i < ?n}"
    using shuffled_permutation_distinct_set [of ?n sha seed rc] by auto
  have "distinct (map unat ?p)" using p(1) by (simp add: distinct_map inj_on_def word_unat_eq_iff)
  moreover have "set (map unat ?p) = {0..<length indices}"
  proof -
    have "i \<in> unat ` {i. i < ?n}" if "i < length indices" for i
      using that n unat_word_of_nat_below [of i ?n]
      by (intro image_eqI [of _ _ "word_of_nat i"]) (simp_all add: word_less_nat_alt)
    then show ?thesis using n p(2) by (auto simp: word_less_nat_alt)
  qed
  ultimately have "mset (map unat ?p) = mset [0..<length indices]"
    by (metis atLeast_upt distinct_upt set_eq_iff_mset_eq_distinct set_upt)
  then have "mset (map ((!) indices) (map unat ?p)) = mset (map ((!) indices) [0..<length indices])"
    by (metis mset_map)
  moreover have "map (shuffled_member sha indices seed rc) [0..<length indices]
                   = map ((!) indices) (map unat ?p)"
    using n by (intro nth_equalityI) (simp_all add: shuffled_member_def)
  ultimately show ?thesis by (simp add: map_nth)
qed

lemma compute_committee_eq:
  assumes "length indices * unat cnt < 2 ^ 64" and "length indices \<le> 2 ^ 63" and "index < cnt"
  shows "compute_committee sha indices seed index cnt rc =
           Some (map (shuffled_member sha indices seed rc)
             [length indices * unat index div unat cnt
                ..< length indices * (unat index + 1) div unat cnt])"
proof -
  let ?n = "word_of_nat (length indices) :: u64"
  have n: "unat ?n = length indices" using assms(2) by (intro word_of_nat_length_unat) simp
  have idx: "unat index + 1 \<le> unat cnt" "unat index < unat cnt"
    using assms(3) by (simp_all add: word_less_nat_alt)
  have "unat cnt < 2 ^ 64" using unsigned_less [of cnt, where ?'a = nat] by simp
  then have i1: "unat (index + 1) = unat index + 1" using idx by (intro unat_Suc_u64) linarith
  have le: "length indices * (unat index + 1) \<le> length indices * unat cnt"
    by (rule mult_le_mono2 [OF idx(1)])
  have "length indices * unat index \<le> length indices * (unat index + 1)" by simp
  with le assms(1) have stop: "unat (?n * (index + 1)) = length indices * (unat index + 1)"
    and start: "unat (?n * index) = length indices * unat index"
    using unat_mult_u64 [of ?n "index + 1"] unat_mult_u64 [of ?n index] n i1 by simp_all
  have "length indices * (unat index + 1) div unat cnt \<le> length indices * unat cnt div unat cnt"
    by (rule div_le_mono [OF le])
  also have "\<dots> = length indices" using idx by simp
  finally have bound: "length indices * (unat index + 1) div unat cnt \<le> length indices" .
  have member: "(do { shuffled \<leftarrow> compute_shuffled_index sha (word_of_nat i) ?n seed rc;
              nth_opt indices (unat shuffled) }) = Some (shuffled_member sha indices seed rc i)"
    if "i < length indices" for i
  proof -
    let ?p = "compute_shuffled_permutation sha ?n seed rc"
    have i: "unat (word_of_nat i :: u64) = i" using that n by (metis unat_word_of_nat_below)
    have "?n \<le> 2 ^ 63" using assms(2) n by (simp add: word_le_nat_alt)
    then have "set ?p = {i. i < ?n}" using shuffled_permutation_distinct_set [of ?n sha seed rc] by simp
    moreover have "?p ! i \<in> set ?p" using that n by simp
    ultimately have "unat (?p ! i) < length indices" using n by (simp add: word_less_nat_alt)
    then show ?thesis using that n i by (simp add: batched_shuffle_eq shuffled_member_def)
  qed
  show ?thesis
    unfolding compute_committee_def Let_def unat_div stop start
  proof (intro mapM_total member)
    fix i assume "i \<in> set [length indices * unat index div unat cnt
                          ..< length indices * (unat index + 1) div unat cnt]"
    then have "i < length indices * (unat index + 1) div unat cnt" by (simp only: set_upt atLeastLessThan_iff)
    then show "i < length indices" using bound by (rule less_le_trans)
  qed
qed


text \<open>Consecutive committees read consecutive ranges, so together they read every position once.\<close>

lemma concat_ranges:
  fixes f :: "nat \<Rightarrow> nat"
  assumes "\<And>k. f k \<le> f (Suc k)"
  shows "concat (map (\<lambda>k. [f k..<f (Suc k)]) [0..<m]) = [f 0..<f m]"
proof (induction m)
  case (Suc m)
  have "f 0 \<le> f m" by (rule lift_Suc_mono_le [of f, OF assms]) simp
  then have "[f 0..<f m] @ [f m..<f (Suc m)] = [f 0..<f (Suc m)]"
    using assms [of m] by (metis le_add_diff_inverse upt_add_eq_append)
  with Suc show ?case by simp
qed simp

lemma all_committees:
  assumes "length indices * unat cnt < 2 ^ 64" and "length indices \<le> 2 ^ 63" and "0 < cnt"
  shows "\<exists>cs. mapM (\<lambda>k. compute_committee sha indices seed (word_of_nat k) cnt rc) [0..<unat cnt] = Some cs
           \<and> mset (concat cs) = mset indices"
proof -
  let ?f = "\<lambda>k. length indices * k div unat cnt"
  let ?c = "\<lambda>k. map (shuffled_member sha indices seed rc) [?f k..<?f (Suc k)]"
  have pos: "0 < unat cnt" using assms(3) by (simp add: word_less_nat_alt)
  have "compute_committee sha indices seed (word_of_nat k) cnt rc = Some (?c k)" if "k < unat cnt" for k
    using compute_committee_eq [OF assms(1,2), of "word_of_nat k" sha seed rc] that
    by (simp add: word_less_nat_alt unat_word_of_nat_below)
  then have "mapM (\<lambda>k. compute_committee sha indices seed (word_of_nat k) cnt rc) [0..<unat cnt]
               = Some (map ?c [0..<unat cnt])"
    by (intro mapM_total) simp
  moreover have "concat (map ?c [0..<unat cnt])
      = map (shuffled_member sha indices seed rc) (concat (map (\<lambda>k. [?f k..<?f (Suc k)]) [0..<unat cnt]))"
    by (simp only: map_concat map_map comp_def)
  moreover have "concat (map (\<lambda>k. [?f k..<?f (Suc k)]) [0..<unat cnt]) = [0..<length indices]"
    using concat_ranges [of ?f "unat cnt"] pos by (simp add: div_le_mono)
  ultimately show ?thesis using mset_shuffled_members [OF assms(2), of sha seed rc] by simp
qed


section \<open>Active validators\<close>

lemma set_active_validator_indices:
  "set (get_active_validator_indices E st epoch) =
     word_of_nat ` {i. i < length (st_validators st) \<and> is_active_validator (st_validators st ! i) epoch}"
  by (force simp: get_active_validator_indices_def in_set_enumerate_eq image_def)

lemma length_active_validator_indices:
  "length (get_active_validator_indices E st epoch) \<le> length (st_validators st)"
  unfolding get_active_validator_indices_def
  by (metis length_enumerate length_filter_le length_map)

lemma distinct_active_validator_indices:
  assumes "length (st_validators st) \<le> 2 ^ 64"
  shows "distinct (get_active_validator_indices E st epoch)"
proof -
  let ?g = "\<lambda>(i, v). word_of_nat i :: u64"
  have "inj_on ?g (set (enumerate 0 (st_validators st)))"
  proof (rule inj_onI)
    fix x y assume xy: "x \<in> set (enumerate 0 (st_validators st))" "y \<in> set (enumerate 0 (st_validators st))"
      "?g x = ?g y"
    then have lt: "fst x < 2 ^ 64" "fst y < 2 ^ 64"
      and nth: "st_validators st ! fst x = snd x" "st_validators st ! fst y = snd y"
      using assms by (auto simp: in_set_enumerate_eq)
    have "unat (word_of_nat (fst x) :: u64) = unat (word_of_nat (fst y) :: u64)"
      using xy(3) unfolding case_prod_unfold by (rule arg_cong)
    then have "fst x = fst y" unfolding lt [THEN word_of_nat_length_unat] .
    with nth show "x = y" by (simp add: prod_eq_iff)
  qed
  then show ?thesis
    unfolding get_active_validator_indices_def
    by (simp add: distinct_map distinct_enumerate inj_on_subset)
qed

text \<open>The number of committees of a slot is between one and the maximum.\<close>

lemma committee_count_bounds:
  assumes "wf_preset E"
  shows "0 < get_committee_count_per_slot E st epoch"
    and "get_committee_count_per_slot E st epoch \<le> MAX_COMMITTEES_PER_SLOT E"
  using assms
  by (auto simp: get_committee_count_per_slot_def Let_def wf_preset_def min_def max_def
      word_less_nat_alt word_le_nat_alt)


text \<open>Slot \<open>k div c\<close> of the epoch and committee \<open>k mod c\<close> of that slot address committee \<open>k\<close>.\<close>

lemma get_beacon_committee_at:
  fixes E st epoch
  defines "c \<equiv> get_committee_count_per_slot E st epoch"
  assumes "wf_preset E" and "k < unat c * unat (SLOTS_PER_EPOCH E)"
    and "(unat epoch + 1) * unat (SLOTS_PER_EPOCH E) < 2 ^ 64"
    and "unat c * unat (SLOTS_PER_EPOCH E) < 2 ^ 64"
  shows "get_beacon_committee E sha st
           (compute_start_slot_at_epoch epoch (SLOTS_PER_EPOCH E) + word_of_nat (k div unat c))
           (word_of_nat (k mod unat c)) =
         compute_committee sha (get_active_validator_indices E st epoch)
           (get_seed E sha st epoch DOMAIN_BEACON_ATTESTER) (word_of_nat k)
           (c * SLOTS_PER_EPOCH E) (SHUFFLE_ROUND_COUNT E)"
proof -
  let ?S = "SLOTS_PER_EPOCH E"
  let ?j = "k div unat c"
  let ?slot = "epoch * ?S + word_of_nat ?j :: u64"
  have S: "0 < unat ?S" and c: "0 < unat c"
    using assms(2) committee_count_bounds(1) [OF assms(2), of st epoch]
    by (simp_all add: wf_preset_def word_less_nat_alt c_def)
  have j: "?j < unat ?S" using assms(3) c by (simp add: less_mult_imp_div_less mult.commute)
  then have uj: "unat (word_of_nat ?j :: u64) = ?j" by (rule unat_word_of_nat_below)
  have ar: "unat epoch * unat ?S + ?j < 2 ^ 64" using assms(4) j by simp
  then have start: "unat (epoch * ?S) = unat epoch * unat ?S" by (intro unat_mult_u64) simp
  have slot: "unat ?slot = unat epoch * unat ?S + ?j"
    using ar start uj by (subst unat_add_u64) simp_all
  have epoch: "?slot div ?S = epoch"
    using slot j S by (simp add: word_unat_eq_iff unat_div)
  have "?slot mod ?S = word_of_nat ?j"
    using slot j uj by (simp add: word_unat_eq_iff unat_mod)
  moreover have "unat (word_of_nat ?j * c + word_of_nat (k mod unat c) :: u64) = k"
  proof -
    have m: "unat (word_of_nat (k mod unat c) :: u64) = k mod unat c"
      using c by (intro unat_word_of_nat_below [of _ c]) simp
    have k: "?j * unat c + k mod unat c = k" by (rule div_mult_mod_eq)
    have "k < 2 ^ 64" using assms(3,5) by (rule less_trans)
    then have "?j * unat c < 2 ^ 64" using k by linarith
    then have "unat (word_of_nat ?j * c) = ?j * unat c"
      using unat_mult_u64 [of "word_of_nat ?j" c] unfolding uj by blast
    then show ?thesis using k m \<open>k < 2 ^ 64\<close>
        unat_add_u64 [of "word_of_nat ?j * c" "word_of_nat (k mod unat c)"] by linarith
  qed
  then have "word_of_nat ?j * c + word_of_nat (k mod unat c) = (word_of_nat k :: u64)"
    by (metis of_nat_unat ucast_id)
  ultimately show ?thesis
    using epoch
    by (simp add: get_beacon_committee_def Let_def compute_start_slot_at_epoch_def
        compute_epoch_at_slot_def c_def)
qed


text \<open>Balance sums do not depend on the order of the indices, as hash sets iterate in any order.\<close>

lemma get_total_balance_mset:
  "mset xs = mset ys \<Longrightarrow> get_total_balance E st xs = get_total_balance E st ys"
  by (simp add: get_total_balance_def flip: sum_mset_sum_list)

lemma sum_active_enumerate:
  assumes "k + length vs \<le> 2 ^ 64"
    and "\<And>i. i < length vs \<Longrightarrow> k + i < length all \<and> all ! (k + i) = vs ! i"
  shows "(\<Sum>i\<leftarrow>map (\<lambda>(i, v). word_of_nat i :: u64) (filter (\<lambda>(i, v). P v) (enumerate k vs)).
            unwrap_or (map_option v_effective_balance (nth_opt all (unat i))) 0)
         = (\<Sum>v\<leftarrow>filter P vs. v_effective_balance v)"
  using assms
proof (induction vs arbitrary: k)
  case (Cons v vs)
  have "k < 2 ^ 64" using Cons.prems(1) by simp
  then have k: "unat (word_of_nat k :: u64) = k" by (rule word_of_nat_length_unat)
  have nth: "nth_opt all k = Some v" using Cons.prems(2) [of 0] by simp
  have "(\<Sum>i\<leftarrow>map (\<lambda>(i, v). word_of_nat i :: u64) (filter (\<lambda>(i, v). P v) (enumerate (Suc k) vs)).
            unwrap_or (map_option v_effective_balance (nth_opt all (unat i))) 0)
         = (\<Sum>v\<leftarrow>filter P vs. v_effective_balance v)"
    using Cons.prems(1) Cons.prems(2) [of "Suc i" for i] by (intro Cons.IH) auto
  then show ?case using k nth by (simp add: comp_def)
qed simp

lemma sort_eq_Nil_iff: "sort xs = [] \<longleftrightarrow> xs = []"
  by (induction xs) simp_all

lemma shuffled_members_distinct:
  assumes "distinct indices" and "length indices \<le> 2 ^ 63" and "b \<le> length indices"
  shows "distinct (map (shuffled_member sha indices seed rc) [a..<b])"
proof -
  have "distinct (map (shuffled_member sha indices seed rc) [0..<length indices])"
    using mset_shuffled_members [OF assms(2), of sha seed rc] assms(1)
    by (metis mset_eq_imp_distinct_iff)
  then show ?thesis using assms(3) by (auto simp: distinct_map intro: inj_on_subset)
qed

text \<open>A committee of an existing index never panics and lists distinct active validators.\<close>

lemma get_beacon_committee_distinct:
  fixes E st slot
  defines "epoch \<equiv> compute_epoch_at_slot slot (SLOTS_PER_EPOCH E)"
  assumes "wf_preset E" and "index < get_committee_count_per_slot E st epoch"
    and "length (st_validators st) * (unat (MAX_COMMITTEES_PER_SLOT E) * unat (SLOTS_PER_EPOCH E)) < 2 ^ 64"
    and "unat (MAX_COMMITTEES_PER_SLOT E) * unat (SLOTS_PER_EPOCH E) < 2 ^ 64"
    and "length (st_validators st) \<le> 2 ^ 63"
  shows "\<exists>c. get_beacon_committee E sha st slot index = Some c \<and> distinct c"
proof -
  let ?S = "SLOTS_PER_EPOCH E"
  let ?a = "get_active_validator_indices E st epoch"
  let ?c = "get_committee_count_per_slot E st epoch"
  let ?ci = "(slot mod ?S) * ?c + index"
  have S: "0 < unat ?S" using assms(2) by (simp add: wf_preset_def word_less_nat_alt)
  have c: "unat ?c \<le> unat (MAX_COMMITTEES_PER_SLOT E)" and idx: "unat index < unat ?c"
    using committee_count_bounds [OF assms(2), of st epoch] assms(3)
    by (simp_all add: word_le_nat_alt word_less_nat_alt)
  have cS: "unat ?c * unat ?S \<le> unat (MAX_COMMITTEES_PER_SLOT E) * unat ?S" by (rule mult_le_mono1 [OF c])
  then have cS64: "unat ?c * unat ?S < 2 ^ 64" using assms(5) by (rule le_less_trans)
  then have count: "unat (?c * ?S) = unat ?c * unat ?S" by (rule unat_mult_u64)
  have m: "unat (slot mod ?S) + 1 \<le> unat ?S" using S by (simp add: unat_mod Suc_leI)
  have "unat (slot mod ?S) * unat ?c + unat index < (unat (slot mod ?S) + 1) * unat ?c"
    using idx by simp
  also have "\<dots> \<le> unat ?c * unat ?S" using mult_le_mono1 [OF m, of "unat ?c"] by (simp only: mult.commute)
  finally have lt: "unat (slot mod ?S) * unat ?c + unat index < unat ?c * unat ?S" .
  have m1: "unat ((slot mod ?S) * ?c) = unat (slot mod ?S) * unat ?c"
    using lt cS64 by (intro unat_mult_u64) linarith
  then have ci: "unat ?ci = unat (slot mod ?S) * unat ?c + unat index"
    using lt cS64 unat_add_u64 [of "(slot mod ?S) * ?c" index] by linarith
  have "length ?a * (unat ?c * unat ?S)
          \<le> length (st_validators st) * (unat (MAX_COMMITTEES_PER_SLOT E) * unat ?S)"
    by (intro mult_le_mono length_active_validator_indices cS)
  then have fits: "length ?a * unat (?c * ?S) < 2 ^ 64" using assms(4) unfolding count by linarith
  have len: "length ?a \<le> 2 ^ 63" using length_active_validator_indices assms(6) by (rule order.trans)
  have less: "?ci < ?c * ?S" unfolding word_less_nat_alt count ci by (rule lt)
  have "length ?a * (unat ?ci + 1) div unat (?c * ?S) \<le> length ?a * unat (?c * ?S) div unat (?c * ?S)"
    using less by (intro div_le_mono mult_le_mono2) (simp add: word_less_nat_alt)
  also have "\<dots> \<le> length ?a" by (cases "unat (?c * ?S) = 0") simp_all
  finally have "length ?a * (unat ?ci + 1) div unat (?c * ?S) \<le> length ?a" .
  moreover have "distinct ?a" using assms(6) by (intro distinct_active_validator_indices) simp
  ultimately have "distinct (map (shuffled_member sha ?a seed rc)
      [k..<length ?a * (unat ?ci + 1) div unat (?c * ?S)])" for seed rc k
    using len by (intro shuffled_members_distinct)
  moreover have "get_beacon_committee E sha st slot index =
      Some (map (shuffled_member sha ?a (get_seed E sha st epoch DOMAIN_BEACON_ATTESTER) (SHUFFLE_ROUND_COUNT E))
        [length ?a * unat ?ci div unat (?c * ?S)..<length ?a * (unat ?ci + 1) div unat (?c * ?S)])"
    unfolding get_beacon_committee_def Let_def epoch_def [symmetric]
    by (rule compute_committee_eq [OF fits len less])
  ultimately show ?thesis by blast
qed

section \<open>Properties\<close>

text \<open>C35: the committees of an epoch partition its active validators: fetching every committee of
  every slot of the epoch succeeds, no validator sits in two of them, and their members are exactly the
  validators active in the epoch.  The bounds say that the index products stay below \<open>2 ^ 64\<close>; a
  registry of \<open>2 ^ 40\<close> validators on mainnet satisfies them.\<close>

theorem epoch_committees_partition:
  fixes E st epoch
  defines "S \<equiv> SLOTS_PER_EPOCH E" and "c \<equiv> get_committee_count_per_slot E st epoch"
  assumes "wf_preset E"
    and "length (st_validators st) * (unat (MAX_COMMITTEES_PER_SLOT E) * unat S) < 2 ^ 64"
    and "unat (MAX_COMMITTEES_PER_SLOT E) * unat S < 2 ^ 64"
    and "length (st_validators st) \<le> 2 ^ 63"
    and "(unat epoch + 1) * unat S < 2 ^ 64"
  shows "\<exists>cs. mapM (\<lambda>k. get_beacon_committee E sha st
                          (compute_start_slot_at_epoch epoch S + word_of_nat (k div unat c))
                          (word_of_nat (k mod unat c)))
                [0..<unat c * unat S] = Some cs
              \<and> distinct (concat cs)
              \<and> set (concat cs) = set (get_active_validator_indices E st epoch)"
proof -
  let ?a = "get_active_validator_indices E st epoch"
  have c: "0 < c" "unat c \<le> unat (MAX_COMMITTEES_PER_SLOT E)"
    using committee_count_bounds [OF assms(3), of st epoch] by (simp_all add: c_def word_le_nat_alt)
  have S: "0 < unat S" using assms(3) by (simp add: wf_preset_def S_def word_less_nat_alt)
  have cS: "unat c * unat S \<le> unat (MAX_COMMITTEES_PER_SLOT E) * unat S" by (rule mult_le_mono1 [OF c(2)])
  then have count: "unat (c * S) = unat c * unat S" using assms(5) by (intro unat_mult_u64) linarith
  have "length ?a * (unat c * unat S)
          \<le> length (st_validators st) * (unat (MAX_COMMITTEES_PER_SLOT E) * unat S)"
    by (intro mult_le_mono length_active_validator_indices cS)
  then have fits: "length ?a * unat (c * S) < 2 ^ 64" using assms(4) unfolding count by linarith
  have len: "length ?a \<le> 2 ^ 63" using length_active_validator_indices assms(6) by (rule order.trans)
  have "0 < unat (c * S)" unfolding count using c(1) S by (simp add: word_less_nat_alt)
  then have pos: "0 < c * S" by (simp add: word_less_nat_alt)
  have "distinct ?a" using assms(6) by (intro distinct_active_validator_indices) simp
  moreover obtain cs where cs: "mapM (\<lambda>k. compute_committee sha ?a
      (get_seed E sha st epoch DOMAIN_BEACON_ATTESTER) (word_of_nat k) (c * S) (SHUFFLE_ROUND_COUNT E))
      [0..<unat (c * S)] = Some cs" "mset (concat cs) = mset ?a"
    using all_committees [OF fits len pos] by blast
  moreover have "mapM (\<lambda>k. get_beacon_committee E sha st
                          (compute_start_slot_at_epoch epoch S + word_of_nat (k div unat c))
                          (word_of_nat (k mod unat c))) [0..<unat c * unat S] = Some cs"
    unfolding cs(1) [unfolded count, symmetric]
  proof (intro mapM_cong refl)
    fix k assume "k \<in> set [0..<unat c * unat S]"
    then have "k < unat c * unat S" by simp
    moreover have "unat c * unat S < 2 ^ 64" using cS assms(5) by (rule le_less_trans)
    ultimately show "get_beacon_committee E sha st
        (compute_start_slot_at_epoch epoch S + word_of_nat (k div unat c)) (word_of_nat (k mod unat c))
      = compute_committee sha ?a (get_seed E sha st epoch DOMAIN_BEACON_ATTESTER) (word_of_nat k)
          (c * S) (SHUFFLE_ROUND_COUNT E)"
      using assms(3,7) unfolding S_def c_def by (intro get_beacon_committee_at)
  qed
  ultimately show ?thesis by (metis mset_eq_imp_distinct_iff mset_eq_setD)
qed

theorem epoch_committees_partition_witness:
  "let st = sample_state 0 [sample_validator, sample_validator, sample_validator];
       c = get_committee_count_per_slot minimal_preset st 0;
       S = SLOTS_PER_EPOCH minimal_preset
   in \<exists>cs. mapM (\<lambda>k. get_beacon_committee minimal_preset (\<lambda>_. 3) st
                       (compute_start_slot_at_epoch 0 S + word_of_nat (k div unat c))
                       (word_of_nat (k mod unat c))) [0..<unat c * unat S] = Some cs
         \<and> distinct (concat cs)
         \<and> set (concat cs) = set (get_active_validator_indices minimal_preset st 0)"
proof -
  let ?st = "sample_state 0 [sample_validator, sample_validator, sample_validator]"
  have const: "SLOTS_PER_EPOCH minimal_preset = 8" "MAX_COMMITTEES_PER_SLOT minimal_preset = 4"
    by (simp_all add: minimal_preset_def)
  have len: "length (st_validators ?st) = 3" by (simp add: sample_state_def)
  show ?thesis
    unfolding Let_def by (rule epoch_committees_partition) (simp_all add: const len)
qed

text \<open>The fused one-pass \<^verbatim>\<open>get_total_active_balance\<close> returns the same value as summing
  \<^verbatim>\<open>get_total_balance\<close> over the collected active indices, wrap-around included.\<close>

theorem total_active_balance_fused:
  assumes "length (st_validators st) \<le> 2 ^ 64"
  shows "get_total_active_balance E st
           = get_total_balance E st (get_active_validator_indices E st (get_current_epoch E st))"
proof -
  have "0 + length (st_validators st) \<le> 2 ^ 64" using assms by simp
  then show ?thesis
    unfolding get_total_active_balance_def get_total_balance_def get_active_validator_indices_def Let_def
    by (subst sum_active_enumerate) simp_all
qed

theorem total_active_balance_fused_witness:
  "get_total_balance minimal_preset (sample_state 0 [sample_validator, sample_validator, sample_validator])
     (get_active_validator_indices minimal_preset (sample_state 0 [sample_validator, sample_validator, sample_validator])
       (get_current_epoch minimal_preset (sample_state 0 [sample_validator, sample_validator, sample_validator]))) = 96000000000"
proof -
  let ?st = "sample_state 0 [sample_validator, sample_validator, sample_validator]"
  have "length (st_validators ?st) \<le> 2 ^ 64" by (simp add: sample_state_def)
  then have "get_total_balance minimal_preset ?st (get_active_validator_indices minimal_preset ?st
      (get_current_epoch minimal_preset ?st)) = get_total_active_balance minimal_preset ?st"
    by (rule total_active_balance_fused [symmetric])
  also have "\<dots> = 96000000000"
    by (simp add: get_total_active_balance_def sample_state_def sample_validator_def
        is_active_validator_def minimal_preset_def get_current_epoch_def
        compute_epoch_at_slot_def)
  finally show ?thesis .
qed

text \<open>\<^verbatim>\<open>get_indexed_attestation\<close> of an attestation for an existing committee yields indices in
  strictly increasing order, so the structural half of \<^verbatim>\<open>is_valid_indexed_attestation\<close> accepts
  it exactly when some committee member's bit is set.\<close>

theorem indexed_attestation_well_formed:
  assumes "wf_preset E"
    and "ad_index (at_data att) < get_committee_count_per_slot E st
           (compute_epoch_at_slot (ad_slot (at_data att)) (SLOTS_PER_EPOCH E))"
    and "length (st_validators st) * (unat (MAX_COMMITTEES_PER_SLOT E) * unat (SLOTS_PER_EPOCH E)) < 2 ^ 64"
    and "unat (MAX_COMMITTEES_PER_SLOT E) * unat (SLOTS_PER_EPOCH E) < 2 ^ 64"
    and "length (st_validators st) \<le> 2 ^ 63"
    and "get_indexed_attestation E (cr_sha cr) st att = Some ia"
  shows "strictly_sorted (ia_attesting_indices ia)
         \<and> (is_valid_indexed_attestation E cr st ia False \<longleftrightarrow>
              get_attesting_indices E (cr_sha cr) st (at_data att) (at_aggregation_bits att) \<noteq> Some [])"
proof -
  from get_beacon_committee_distinct [OF assms(1,2,3,4,5)] obtain c
    where c: "get_beacon_committee E (cr_sha cr) st (ad_slot (at_data att)) (ad_index (at_data att)) = Some c"
      "distinct c" by blast
  let ?sel = "map snd (filter (\<lambda>(i, idx). unwrap_or (nth_opt (at_aggregation_bits att) i) False) (enumerate 0 c))"
  have "distinct (map snd (enumerate 0 c))" using c(2) by simp
  then have "distinct ?sel" by (rule distinct_map_filter)
  then have "strictly_sorted (sort ?sel)" by (simp add: strictly_sorted_iff strict_sorted_iff)
  moreover have "ia_attesting_indices ia = sort ?sel"
    using assms(6) c(1)
    by (auto simp: get_indexed_attestation_def get_attesting_indices_def split: if_splits)
  moreover have "sort ?sel = [] \<longleftrightarrow> ?sel = []" by (rule sort_eq_Nil_iff)
  moreover have "get_attesting_indices E (cr_sha cr) st (at_data att) (at_aggregation_bits att) = Some ?sel"
    by (simp add: get_attesting_indices_def c(1))
  ultimately show ?thesis by (simp only: is_valid_indexed_attestation_def Let_def) auto
qed


theorem indexed_attestation_well_formed_witness:
  "\<exists>ia. get_indexed_attestation minimal_preset (\<lambda>_. 0)
           (sample_state 0 [sample_validator, sample_validator]) sample_attestation = Some ia
        \<and> strictly_sorted (ia_attesting_indices ia)
        \<and> is_valid_indexed_attestation minimal_preset sample_crypto
             (sample_state 0 [sample_validator, sample_validator]) ia False"
proof -
  let ?st = "sample_state 0 [sample_validator, sample_validator]"
  let ?ia = "\<lparr>ia_attesting_indices = [1], ia_data = at_data sample_attestation, ia_signature = 0\<rparr>"
  have sha: "cr_sha sample_crypto = (\<lambda>_. 0)" by (simp add: sample_crypto_def)
  have ia: "get_indexed_attestation minimal_preset (cr_sha sample_crypto) ?st sample_attestation = Some ?ia"
    unfolding sha by code_simp
  have bits: "get_attesting_indices minimal_preset (cr_sha sample_crypto) ?st (at_data sample_attestation)
                (at_aggregation_bits sample_attestation) = Some [1]"
    unfolding sha by code_simp
  have const: "SLOTS_PER_EPOCH minimal_preset = 8" "MAX_COMMITTEES_PER_SLOT minimal_preset = 4"
    "length (st_validators ?st) = 2" by (simp_all add: minimal_preset_def sample_state_def)
  have idx: "ad_index (at_data sample_attestation) < get_committee_count_per_slot minimal_preset ?st
      (compute_epoch_at_slot (ad_slot (at_data sample_attestation)) (SLOTS_PER_EPOCH minimal_preset))"
    by code_simp
  have "strictly_sorted (ia_attesting_indices ?ia)
         \<and> (is_valid_indexed_attestation minimal_preset sample_crypto ?st ?ia False \<longleftrightarrow>
              get_attesting_indices minimal_preset (cr_sha sample_crypto) ?st (at_data sample_attestation)
                (at_aggregation_bits sample_attestation) \<noteq> Some [])"
    by (rule indexed_attestation_well_formed [OF _ idx _ _ _ ia]) (simp_all add: const)
  then show ?thesis using ia bits sha by simp
qed

end
