(* ===== verification/Electra_Helpers.thy ===== *)
theory Electra_Helpers
  imports Phase0_Accessors
begin

text \<open>
  The parts of Electra and Fulu that fork choice calls
  (\<^verbatim>\<open>src/crates/pharos-stf/src/electra/helpers.rs\<close>, lines 520 to 588 and 1426 to 1504): the
  proposer election with 16-bit randomness, the attesters of an attestation that covers several
  committees, and the proposer lookahead of a Fulu state.

  The main result: an Electra attestation for one committee names the same validators as the phase 0
  attestation of that committee, and an attester is never named twice.
\<close>

section \<open>Proposers\<close>

definition MAX_RANDOM_VALUE :: u64 where "MAX_RANDOM_VALUE = 65535"

partial_function (option) compute_proposer_index_electra_from ::
  "preset \<Rightarrow> sha256 \<Rightarrow> beacon_state \<Rightarrow> u64 list \<Rightarrow> hash256 \<Rightarrow> u64 \<Rightarrow> u64 option" where
  "compute_proposer_index_electra_from E sha st indices seed i =
     (let total = word_of_nat (length indices) in do {
        shuffled_i \<leftarrow> compute_shuffled_index sha (i mod total) total seed (SHUFFLE_ROUND_COUNT E);
        candidate_index \<leftarrow> nth_opt indices (unat shuffled_i);
        let random_bytes = hash_bytes (sha (hash_bytes seed @ uint_to_bytes (i div 16)));
        let offset = unat (i mod 16 * 2);
        let random_value = bytes_to_uint64 (take 2 (drop offset random_bytes));
        v \<leftarrow> nth_opt (st_validators st) (unat candidate_index);
        if MAX_EFFECTIVE_BALANCE_ELECTRA E * random_value \<le> v_effective_balance v * MAX_RANDOM_VALUE
        then Some candidate_index
        else compute_proposer_index_electra_from E sha st indices seed (i + 1)
      })"

declare compute_proposer_index_electra_from.simps [code]

definition compute_proposer_index_electra ::
  "preset \<Rightarrow> sha256 \<Rightarrow> beacon_state \<Rightarrow> u64 list \<Rightarrow> hash256 \<Rightarrow> u64 option" where
  "compute_proposer_index_electra E sha st indices seed =
     (if indices = [] then None else compute_proposer_index_electra_from E sha st indices seed 0)"

definition get_beacon_proposer_index_electra :: "preset \<Rightarrow> sha256 \<Rightarrow> beacon_state \<Rightarrow> u64 option" where
  "get_beacon_proposer_index_electra E sha st =
     (let epoch = get_current_epoch E st;
          seed_base = get_seed E sha st epoch DOMAIN_BEACON_PROPOSER;
          seed = sha (hash_bytes seed_base @ uint_to_bytes (st_slot st));
          indices = get_active_validator_indices E st epoch
      in compute_proposer_index_electra E sha st indices seed)"

definition proposer_lookahead_at :: "beacon_state \<Rightarrow> u64 \<Rightarrow> u64 option" where
  "proposer_lookahead_at st slots_per_epoch =
     (if st_fork_variant st = Fulu
      then nth_opt (st_proposer_lookahead st) (unat (st_slot st mod slots_per_epoch))
      else None)"

section \<open>Attesters\<close>

record attestation_electra =
  ate_aggregation_bits :: "bool list"
  ate_data :: attestation_data
  ate_signature :: "768 word"
  ate_committee_bits :: "bool list"

definition get_committee_indices :: "bool list \<Rightarrow> u64 list" where
  "get_committee_indices committee_bits =
     List.map_filter (\<lambda>(i, bit). if bit then Some (word_of_nat i) else None) (enumerate 0 committee_bits)"

text \<open>The inner loop over one committee, on the accumulated \<^verbatim>\<open>output\<close>.\<close>

definition push_attesters :: "bool list \<Rightarrow> nat \<Rightarrow> u64 list \<Rightarrow> u64 list \<Rightarrow> u64 list" where
  "push_attesters aggregation_bits committee_offset committee output =
     fold (\<lambda>(i, attester_index) output.
             if unwrap_or (nth_opt aggregation_bits (committee_offset + i)) False
                \<and> attester_index \<notin> set output
             then output @ [attester_index] else output)
       (enumerate 0 committee) output"

definition get_attesting_indices_electra ::
  "preset \<Rightarrow> sha256 \<Rightarrow> beacon_state \<Rightarrow> attestation_electra \<Rightarrow> u64 list option" where
  "get_attesting_indices_electra E sha st att =
     do {
       (output, _) \<leftarrow> foldM (\<lambda>committee_index (output, committee_offset). do {
           committee \<leftarrow> get_beacon_committee E sha st (ad_slot (ate_data att)) committee_index;
           Some (push_attesters (ate_aggregation_bits att) committee_offset committee output,
                 committee_offset + length committee) })
         (get_committee_indices (ate_committee_bits att)) ([], 0);
       Some output
     }"

definition get_indexed_attestation_electra ::
  "preset \<Rightarrow> sha256 \<Rightarrow> beacon_state \<Rightarrow> attestation_electra \<Rightarrow> indexed_attestation option" where
  "get_indexed_attestation_electra E sha st att =
     do {
       attesting \<leftarrow> get_attesting_indices_electra E sha st att;
       if length attesting \<le> unat (MAX_AGGREGATION_BITS_ELECTRA E)
       then Some \<lparr>ia_attesting_indices = sort attesting, ia_data = ate_data att,
                  ia_signature = ate_signature att\<rparr>
       else None
     }"

section \<open>Deduplication\<close>

lemma fold_push_distinct:
  "distinct out \<Longrightarrow>
     distinct (fold (\<lambda>(i, a) out. if P i \<and> a \<notin> set out then out @ [a] else out) xs out)"
  by (induction xs arbitrary: out) auto

lemma fold_push_eq:
  "distinct (map snd xs) \<Longrightarrow> set (map snd xs) \<inter> set out = {} \<Longrightarrow>
     fold (\<lambda>(i, a) out. if P i \<and> a \<notin> set out then out @ [a] else out) xs out
       = out @ map snd (filter (\<lambda>(i, a). P i) xs)"
  by (induction xs arbitrary: out) force+

lemma push_attesters_distinct: "distinct out \<Longrightarrow> distinct (push_attesters bits off c out)"
  unfolding push_attesters_def
  by (rule fold_push_distinct [of out "\<lambda>i. unwrap_or (nth_opt bits (off + i)) False"])

lemma push_attesters_first:
  assumes "distinct c"
  shows "push_attesters bits 0 c [] =
           map snd (filter (\<lambda>(i, idx). unwrap_or (nth_opt bits i) False) (enumerate 0 c))"
  using fold_push_eq [of "enumerate 0 c" "[]" "\<lambda>i. unwrap_or (nth_opt bits (0 + i)) False"] assms
  by (simp add: push_attesters_def)

lemma attesters_electra_distinct:
  assumes "get_attesting_indices_electra E sha st att = Some xs"
  shows "distinct xs"
proof -
  from assms obtain n where
    "foldM (\<lambda>ci (out, off). do {
        c \<leftarrow> get_beacon_committee E sha st (ad_slot (ate_data att)) ci;
        Some (push_attesters (ate_aggregation_bits att) off c out, off + length c) })
       (get_committee_indices (ate_committee_bits att)) ([], 0) = Some (xs, n)"
    by (auto simp: get_attesting_indices_electra_def bind_eq_Some_conv)
  then have "distinct (fst (xs, n))"
    by (rule foldM_invariant) (auto simp: bind_eq_Some_conv push_attesters_distinct)
  then show ?thesis by simp
qed

section \<open>Properties\<close>

text \<open>Electra attestations extend those of phase 0.  The attesters are listed without duplicates
  whatever the committees and bits are, so the sorted indices pass the strictness check; and an
  attestation whose committee bits select the one committee \<open>k\<close> names exactly the attesters that
  phase 0 computes for committee \<open>k\<close> and the same aggregation bits.\<close>

theorem electra_attesters_extend_phase0:
  assumes "get_attesting_indices_electra E sha st att = Some xs"
  shows "strictly_sorted (sort xs)
         \<and> (\<forall>k c. get_committee_indices (ate_committee_bits att) = [k]
              \<and> get_beacon_committee E sha st (ad_slot (ate_data att)) k = Some c \<and> distinct c
            \<longrightarrow> get_attesting_indices E sha st ((ate_data att)\<lparr>ad_index := k\<rparr>) (ate_aggregation_bits att)
                  = Some xs)"
proof -
  have "strictly_sorted (sort xs)"
    using attesters_electra_distinct [OF assms] by (simp add: strictly_sorted_iff strict_sorted_iff)
  moreover have "get_attesting_indices E sha st ((ate_data att)\<lparr>ad_index := k\<rparr>) (ate_aggregation_bits att) = Some xs"
    if "get_committee_indices (ate_committee_bits att) = [k]" "distinct c"
      "get_beacon_committee E sha st (ad_slot (ate_data att)) k = Some c" for k c
    using assms that
    by (simp add: get_attesting_indices_electra_def get_attesting_indices_def push_attesters_first)
  ultimately show ?thesis by blast
qed

definition sample_attestation_electra :: attestation_electra where
  "sample_attestation_electra = \<lparr>
     ate_aggregation_bits = [True], ate_data = at_data sample_attestation,
     ate_signature = 0, ate_committee_bits = [True, False, False, False]\<rparr>"

theorem electra_attesters_extend_phase0_witness:
  "get_attesting_indices minimal_preset (\<lambda>_. 0) (sample_state 0 [sample_validator, sample_validator])
     ((ate_data sample_attestation_electra)\<lparr>ad_index := 0\<rparr>) [True] = Some [1]"
proof -
  let ?st = "sample_state 0 [sample_validator, sample_validator]"
  have xs: "get_attesting_indices_electra minimal_preset (\<lambda>_. 0) ?st sample_attestation_electra = Some [1]"
    by code_simp
  have "get_committee_indices (ate_committee_bits sample_attestation_electra) = [0]" by code_simp
  moreover have "get_beacon_committee minimal_preset (\<lambda>_. 0) ?st
      (ad_slot (ate_data sample_attestation_electra)) 0 = Some [1]" by code_simp
  moreover have "ate_aggregation_bits sample_attestation_electra = [True]" by code_simp
  ultimately show ?thesis using electra_attesters_extend_phase0 [OF xs] by auto
qed

end
