(* ===== verification/FC_Store.thy ===== *)
theory FC_Store
  imports Phase0_Accessors
begin

text \<open>
  The fork-choice store (\<^verbatim>\<open>src/crates/pharos-fork-choice/src/store.rs\<close>), its clock and
  the ancestor walk (\<^verbatim>\<open>get_head.rs\<close>, lines 29 to 129).

  The map of blocks, which the code iterates over, is an association list whose order stands for
  the unspecified iteration order of a \<^verbatim>\<open>HashMap\<close>; the other maps are only looked up and are
  partial functions.  Invariant \<open>wf_store\<close>: keys are distinct and a stored parent has a smaller
  slot than its child.  Under it every ancestor walk ends, and ancestors at falling slots compose.
\<close>

section \<open>State\<close>

record latest_message =
  lm_epoch :: u64
  lm_root :: root

record runtime_config =
  rc_seconds_per_slot :: u64
  rc_altair_fork_epoch :: u64
  rc_bellatrix_fork_epoch :: u64
  rc_capella_fork_epoch :: u64
  rc_deneb_fork_epoch :: u64
  rc_electra_fork_epoch :: u64
  rc_fulu_fork_epoch :: u64

definition default_runtime_config :: runtime_config where
  "default_runtime_config = \<lparr>
     rc_seconds_per_slot = SLOT_DURATION_MS mainnet_preset div 1000,
     rc_altair_fork_epoch = 74240, rc_bellatrix_fork_epoch = 144896,
     rc_capella_fork_epoch = - 1, rc_deneb_fork_epoch = - 1, rc_electra_fork_epoch = - 1,
     rc_fulu_fork_epoch = - 1\<rparr>"

record fork_epochs =
  fe_altair :: u64
  fe_bellatrix :: u64
  fe_capella :: u64
  fe_deneb :: u64
  fe_electra :: u64
  fe_fulu :: u64

record store =
  fc_time :: u64
  fc_genesis_time :: u64
  fc_justified_checkpoint :: checkpoint
  fc_finalized_checkpoint :: checkpoint
  fc_unrealized_justified_checkpoint :: checkpoint
  fc_unrealized_finalized_checkpoint :: checkpoint
  fc_proposer_boost_root :: root
  fc_equivocating_indices :: "u64 set"
  fc_blocks :: "(root \<times> beacon_block) list"
  fc_block_states :: "root \<rightharpoonup> beacon_state"
  fc_block_timeliness :: "root \<rightharpoonup> bool"
  fc_checkpoint_states :: "checkpoint \<rightharpoonup> beacon_state"
  fc_latest_messages :: "u64 \<rightharpoonup> latest_message"
  fc_unrealized_justifications :: "root \<rightharpoonup> checkpoint"
  fc_payload_statuses :: "root \<rightharpoonup> payload_status"
  fc_terminal_total_difficulty :: "256 word"
  fc_terminal_block_hash :: hash256
  fc_terminal_block_hash_activation_epoch :: u64
  fc_altair_fork_epoch :: u64
  fc_bellatrix_fork_epoch :: u64
  fc_capella_fork_epoch :: u64
  fc_runtime_cfg :: runtime_config

definition get_block :: "store \<Rightarrow> root \<Rightarrow> beacon_block option" where
  "get_block s r = map_of (fc_blocks s) r"

definition mark_payload_status :: "root \<Rightarrow> payload_status \<Rightarrow> store \<Rightarrow> store" where
  "mark_payload_status r status s =
     s\<lparr>fc_payload_statuses := (fc_payload_statuses s)(r \<mapsto> status)\<rparr>"

definition mark_payload_status_if_absent :: "root \<Rightarrow> payload_status \<Rightarrow> store \<Rightarrow> store" where
  "mark_payload_status_if_absent r status s =
     (case fc_payload_statuses s r of
        None \<Rightarrow> s\<lparr>fc_payload_statuses := (fc_payload_statuses s)(r \<mapsto> status)\<rparr>
      | Some _ \<Rightarrow> s)"

definition set_terminal_config :: "256 word \<Rightarrow> hash256 \<Rightarrow> u64 \<Rightarrow> store \<Rightarrow> store" where
  "set_terminal_config ttd tbh activation_epoch s =
     s\<lparr>fc_terminal_total_difficulty := ttd, fc_terminal_block_hash := tbh,
       fc_terminal_block_hash_activation_epoch := activation_epoch\<rparr>"

definition set_fork_epochs :: "u64 \<Rightarrow> u64 \<Rightarrow> u64 \<Rightarrow> store \<Rightarrow> store" where
  "set_fork_epochs altair bellatrix capella s =
     s\<lparr>fc_altair_fork_epoch := altair, fc_bellatrix_fork_epoch := bellatrix,
       fc_capella_fork_epoch := capella\<rparr>"

definition store_fork_epochs :: "store \<Rightarrow> fork_epochs" where
  "store_fork_epochs s = \<lparr>
     fe_altair = fc_altair_fork_epoch s,
     fe_bellatrix = fc_bellatrix_fork_epoch s,
     fe_capella = fc_capella_fork_epoch s,
     fe_deneb = rc_deneb_fork_epoch (fc_runtime_cfg s),
     fe_electra = rc_electra_fork_epoch (fc_runtime_cfg s),
     fe_fulu = rc_fulu_fork_epoch (fc_runtime_cfg s)\<rparr>"

section \<open>Clock\<close>

definition store_slot_ms :: "preset \<Rightarrow> store \<Rightarrow> u64" where
  "store_slot_ms E s =
     (let ms = saturating_mul (rc_seconds_per_slot (fc_runtime_cfg s)) 1000
      in if ms = 0 then SLOT_DURATION_MS E else ms)"

definition slot_from_time :: "u64 \<Rightarrow> u64 \<Rightarrow> u64 \<Rightarrow> u64" where
  "slot_from_time time genesis_time slot_ms =
     saturating_sub time genesis_time * 1000 div max slot_ms 1"

definition slot_start_time :: "u64 \<Rightarrow> u64 \<Rightarrow> u64 \<Rightarrow> u64" where
  "slot_start_time slot genesis_time slot_ms = genesis_time + slot * slot_ms div 1000"

definition seconds_to_milliseconds :: "u64 \<Rightarrow> u64" where
  "seconds_to_milliseconds seconds = saturating_mul seconds 1000"

definition time_into_current_slot_ms :: "preset \<Rightarrow> store \<Rightarrow> u64" where
  "time_into_current_slot_ms E s =
     seconds_to_milliseconds (saturating_sub (fc_time s) (fc_genesis_time s))
       mod max (store_slot_ms E s) 1"

definition get_slots_since_genesis :: "preset \<Rightarrow> store \<Rightarrow> u64" where
  "get_slots_since_genesis E s = slot_from_time (fc_time s) (fc_genesis_time s) (store_slot_ms E s)"

definition get_current_slot :: "preset \<Rightarrow> store \<Rightarrow> u64" where
  "get_current_slot E s = get_slots_since_genesis E s"

definition get_current_store_epoch :: "preset \<Rightarrow> store \<Rightarrow> u64" where
  "get_current_store_epoch E s = compute_epoch_at_slot (get_current_slot E s) (SLOTS_PER_EPOCH E)"

definition compute_slots_since_epoch_start :: "preset \<Rightarrow> u64 \<Rightarrow> u64" where
  "compute_slots_since_epoch_start E slot =
     (let epoch = compute_epoch_at_slot slot (SLOTS_PER_EPOCH E);
          start = compute_start_slot_at_epoch epoch (SLOTS_PER_EPOCH E)
      in slot - start)"

section \<open>Ancestors\<close>

partial_function (option) get_ancestor :: "store \<Rightarrow> root \<Rightarrow> u64 \<Rightarrow> root option" where
  "get_ancestor s cur slot =
     (case get_block s cur of
        None \<Rightarrow> Some cur
      | Some block \<Rightarrow>
          if slot < b_slot block then get_ancestor s (b_parent_root block) slot else Some cur)"

declare get_ancestor.simps [code]

definition get_checkpoint_block :: "preset \<Rightarrow> store \<Rightarrow> root \<Rightarrow> u64 \<Rightarrow> root option" where
  "get_checkpoint_block E s r epoch =
     get_ancestor s r (compute_start_slot_at_epoch epoch (SLOTS_PER_EPOCH E))"

section \<open>Construction from an anchor\<close>

text \<open>
  The hash tree roots of blocks and states are parameters here: their containers hold the fields of
  every fork, of which the model keeps the shared ones.
\<close>

definition get_forkchoice_store ::
  "preset \<Rightarrow> (beacon_block \<Rightarrow> root) \<Rightarrow> (beacon_state \<Rightarrow> root) \<Rightarrow> beacon_state \<Rightarrow> beacon_block \<Rightarrow> store option" where
  "get_forkchoice_store E block_root state_root anchor_state anchor_block =
     (if b_state_root anchor_block \<noteq> state_root anchor_state then None
      else
        let anchor_root = block_root anchor_block;
            anchor_epoch = get_current_epoch E anchor_state;
            justified_checkpoint = \<lparr>cp_epoch = anchor_epoch, cp_root = anchor_root\<rparr>;
            finalized_checkpoint = \<lparr>cp_epoch = anchor_epoch, cp_root = anchor_root\<rparr>;
            time = slot_start_time (st_slot anchor_state) (st_genesis_time anchor_state)
                     (SLOT_DURATION_MS E)
        in Some \<lparr>
             fc_time = time,
             fc_genesis_time = st_genesis_time anchor_state,
             fc_justified_checkpoint = justified_checkpoint,
             fc_finalized_checkpoint = finalized_checkpoint,
             fc_unrealized_justified_checkpoint = justified_checkpoint,
             fc_unrealized_finalized_checkpoint = finalized_checkpoint,
             fc_proposer_boost_root = 0,
             fc_equivocating_indices = {},
             fc_blocks = [(anchor_root, anchor_block)],
             fc_block_states = [anchor_root \<mapsto> anchor_state],
             fc_block_timeliness = Map.empty,
             fc_checkpoint_states = [justified_checkpoint \<mapsto> anchor_state],
             fc_latest_messages = Map.empty,
             fc_unrealized_justifications = [anchor_root \<mapsto> justified_checkpoint],
             fc_payload_statuses = [anchor_root \<mapsto> Valid],
             fc_terminal_total_difficulty = 0,
             fc_terminal_block_hash = 0,
             fc_terminal_block_hash_activation_epoch = - 1,
             fc_altair_fork_epoch = - 1,
             fc_bellatrix_fork_epoch = - 1,
             fc_capella_fork_epoch = - 1,
             fc_runtime_cfg =
               default_runtime_config\<lparr>rc_seconds_per_slot := SLOT_DURATION_MS E div 1000\<rparr>\<rparr>)"

text \<open>Concrete stores for witnesses; they model no code.\<close>

definition sample_store :: "(root \<times> beacon_block) list \<Rightarrow> store" where
  "sample_store blocks = \<lparr>
     fc_time = 120, fc_genesis_time = 0,
     fc_justified_checkpoint = \<lparr>cp_epoch = 0, cp_root = 1\<rparr>,
     fc_finalized_checkpoint = \<lparr>cp_epoch = 0, cp_root = 1\<rparr>,
     fc_unrealized_justified_checkpoint = \<lparr>cp_epoch = 0, cp_root = 1\<rparr>,
     fc_unrealized_finalized_checkpoint = \<lparr>cp_epoch = 0, cp_root = 1\<rparr>,
     fc_proposer_boost_root = 0, fc_equivocating_indices = {},
     fc_blocks = blocks, fc_block_states = Map.empty, fc_block_timeliness = Map.empty,
     fc_checkpoint_states =
       [\<lparr>cp_epoch = 0, cp_root = 1\<rparr> \<mapsto> sample_state 0 [sample_validator, sample_validator]],
     fc_latest_messages = [0 \<mapsto> \<lparr>lm_epoch = 0, lm_root = 3\<rparr>, 1 \<mapsto> \<lparr>lm_epoch = 0, lm_root = 2\<rparr>],
     fc_unrealized_justifications = Map.empty, fc_payload_statuses = Map.empty,
     fc_terminal_total_difficulty = 0, fc_terminal_block_hash = 0,
     fc_terminal_block_hash_activation_epoch = - 1, fc_altair_fork_epoch = - 1,
     fc_bellatrix_fork_epoch = - 1, fc_capella_fork_epoch = - 1,
     fc_runtime_cfg = default_runtime_config\<rparr>"

definition sample_chain :: "(root \<times> beacon_block) list" where
  "sample_chain = [(1, sample_block 0 0), (2, sample_block 1 1), (3, sample_block 2 2), (4, sample_block 2 1)]"

section \<open>Well-formed stores\<close>

definition wf_blocks :: "(root \<times> beacon_block) list \<Rightarrow> bool" where
  "wf_blocks bs \<longleftrightarrow>
     distinct (map fst bs)
     \<and> (\<forall>(r, b) \<in> set bs. \<forall>p. map_of bs (b_parent_root b) = Some p \<longrightarrow> b_slot p < b_slot b)"

definition wf_store :: "store \<Rightarrow> bool" where
  "wf_store s \<longleftrightarrow> wf_blocks (fc_blocks s)"

lemma wf_store_distinct: "wf_store s \<Longrightarrow> distinct (map fst (fc_blocks s))"
  by (simp add: wf_store_def wf_blocks_def)

lemma wf_store_parent_slot:
  assumes "wf_store s" and "get_block s r = Some b" and "get_block s (b_parent_root b) = Some p"
  shows "b_slot p < b_slot b"
  using assms by (auto simp: wf_store_def wf_blocks_def get_block_def dest: map_of_SomeD)

lemma wf_store_parent_neq:
  "wf_store s \<Longrightarrow> get_block s r = Some b \<Longrightarrow> b_parent_root b \<noteq> r"
  using wf_store_parent_slot [of s r b b] by auto

lemma wf_sample_chain [simp]: "wf_store (sample_store sample_chain)"
  by (auto simp: wf_store_def wf_blocks_def sample_store_def sample_chain_def sample_block_def)

section \<open>The ancestor walk\<close>

lemmas get_ancestor_unfold = get_ancestor.simps

lemma get_ancestor_missing [pharos_simps]: "get_block s r = None \<Longrightarrow> get_ancestor s r slot = Some r"
  by (subst get_ancestor_unfold) simp

lemma get_ancestor_here [pharos_simps]:
  "get_block s r = Some b \<Longrightarrow> b_slot b \<le> slot \<Longrightarrow> get_ancestor s r slot = Some r"
  by (subst get_ancestor_unfold) (auto dest: leD)

lemma get_ancestor_above [pharos_simps]:
  "get_block s r = Some b \<Longrightarrow> slot < b_slot b \<Longrightarrow>
     get_ancestor s r slot = get_ancestor s (b_parent_root b) slot"
  by (subst get_ancestor_unfold) simp

text \<open>Induction along the chain of stored parents.\<close>

lemma ancestor_induct [consumes 1, case_names missing block]:
  assumes wf: "wf_store s"
    and missing: "\<And>r. get_block s r = None \<Longrightarrow> P r"
    and block: "\<And>r b. get_block s r = Some b \<Longrightarrow> P (b_parent_root b) \<Longrightarrow> P r"
  shows "P r"
proof (induction "case get_block s r of None \<Rightarrow> 0 | Some b \<Rightarrow> Suc (unat (b_slot b))"
    arbitrary: r rule: less_induct)
  case (less r)
  show ?case
  proof (cases "get_block s r")
    case (Some b)
    have "P (b_parent_root b)"
    proof (cases "get_block s (b_parent_root b)")
      case None
      then show ?thesis by (rule missing)
    next
      case (Some p)
      with \<open>get_block s r = Some b\<close> wf have "b_slot p < b_slot b"
        by (intro wf_store_parent_slot)
      with Some \<open>get_block s r = Some b\<close> show ?thesis
        by (intro less) (simp add: word_less_nat_alt)
    qed
    with Some show ?thesis by (rule block)
  qed (rule missing)
qed

lemma get_ancestor_total: "wf_store s \<Longrightarrow> \<exists>a. get_ancestor s r slot = Some a"
proof (induction r rule: ancestor_induct)
  case (block r b)
  then show ?case by (cases "slot < b_slot b") (simp_all add: pharos_simps)
qed (simp add: pharos_simps)

text \<open>What the walk returns is either unknown to the store or at the wanted slot or before.\<close>

lemma get_ancestor_slot:
  assumes "wf_store s" and "get_ancestor s r slot = Some a" and "get_block s a = Some b"
  shows "b_slot b \<le> slot"
  using assms
proof (induction r rule: ancestor_induct)
  case (block r c)
  then show ?case by (cases "slot < b_slot c") (auto simp: pharos_simps)
qed (simp add: pharos_simps)

lemma get_ancestor_compose:
  assumes "wf_store s" and "slot' \<le> slot" and "get_ancestor s r slot = Some a"
  shows "get_ancestor s r slot' = get_ancestor s a slot'"
  using assms
proof (induction r rule: ancestor_induct)
  case (block r b)
  show ?case
  proof (cases "slot < b_slot b")
    case True
    then have "slot' < b_slot b" using block.prems(1) by simp
    with True block show ?thesis by (simp add: pharos_simps)
  qed (use block in \<open>simp add: pharos_simps\<close>)
qed (simp add: pharos_simps)

text \<open>
  Ancestry in the store, apart from the walk: \<open>ancestor s r a\<close> when parent links of stored blocks lead from
  \<open>r\<close> to \<open>a\<close>.
\<close>

inductive ancestor :: "store \<Rightarrow> root \<Rightarrow> root \<Rightarrow> bool" for s where
  self: "ancestor s r r"
| parent: "get_block s r = Some b \<Longrightarrow> ancestor s (b_parent_root b) a \<Longrightarrow> ancestor s r a"

inductive_cases ancestorE: "ancestor s r a"

lemma get_ancestor_is_ancestor:
  assumes "wf_store s" and "get_ancestor s r slot = Some a"
  shows "ancestor s r a"
  using assms
proof (induction r rule: ancestor_induct)
  case (block r b)
  then show ?case
    by (cases "slot < b_slot b") (auto simp: pharos_simps intro: ancestor.intros)
qed (simp add: pharos_simps ancestor.self)

text \<open>No stored ancestor up to the slot is skipped.\<close>

lemma get_ancestor_last:
  assumes "wf_store s" and "get_ancestor s r slot = Some a"
    and "ancestor s r c" and "get_block s c = Some b" and "b_slot b \<le> slot"
  shows "ancestor s a c"
  using assms
proof (induction r rule: ancestor_induct)
  case (missing r)
  then show ?case by (simp add: pharos_simps)
next
  case (block r d)
  show ?case
  proof (cases "slot < b_slot d")
    case True
    then have "c \<noteq> r" using block by auto
    with block.prems(2) block.hyps have "ancestor s (b_parent_root d) c" by (auto elim: ancestorE)
    with True block show ?thesis by (simp add: pharos_simps)
  qed (use block in \<open>simp add: pharos_simps\<close>)
qed

lemma slot_from_start_time_eq:
  assumes "slot_ms mod 1000 = 0" and "0 < slot_ms"
    and "unat genesis_time + unat slot * unat slot_ms < 2 ^ 64"
  shows "slot_from_time (slot_start_time slot genesis_time slot_ms) genesis_time slot_ms = slot"
proof -
  have ms: "unat slot_ms mod 1000 = 0" "0 < unat slot_ms"
    using assms(1,2) by (simp_all add: word_unat_eq_iff unat_mod word_less_nat_alt)
  have prod: "unat (slot * slot_ms) = unat slot * unat slot_ms"
    using assms(3) by (intro unat_mult_u64) linarith
  then have q: "unat (slot * slot_ms div 1000) = unat slot * unat slot_ms div 1000"
    by (simp add: unat_div)
  have "unat slot * unat slot_ms div 1000 \<le> unat slot * unat slot_ms" by (rule div_le_dividend)
  then have start: "unat (slot_start_time slot genesis_time slot_ms)
                      = unat genesis_time + unat slot * unat slot_ms div 1000"
    unfolding slot_start_time_def using assms(3) q
      unat_add_u64 [of genesis_time "slot * slot_ms div 1000"] by linarith
  then have diff: "unat (saturating_sub (slot_start_time slot genesis_time slot_ms) genesis_time)
                     = unat slot * unat slot_ms div 1000" by simp
  have "(1000 :: nat) dvd unat slot * unat slot_ms" using ms(1) by (simp add: mod_0_imp_dvd)
  then have undo: "unat slot * unat slot_ms div 1000 * 1000 = unat slot * unat slot_ms"
    by (rule dvd_div_mult_self)
  have "unat (saturating_sub (slot_start_time slot genesis_time slot_ms) genesis_time * 1000)
          = unat slot * unat slot_ms"
    using diff undo assms(3) unat_mult_u64 [of "saturating_sub (slot_start_time slot genesis_time slot_ms) genesis_time" 1000]
    by simp
  moreover have "max slot_ms 1 = slot_ms" using ms(2) by (intro max_absorb1) (simp add: word_le_nat_alt)
  ultimately have "unat (slot_from_time (slot_start_time slot genesis_time slot_ms) genesis_time slot_ms)
                     = unat slot"
    using ms(2) by (simp add: slot_from_time_def unat_div)
  then show ?thesis by (simp only: word_unat_eq_iff)
qed

section \<open>Properties\<close>

text \<open>C25: \<^verbatim>\<open>get_ancestor\<close> terminates on every well-formed store and returns the last ancestor not after
  the wanted slot: parent links lead from the start to the result; the result is unknown to the store, where
  the chain ends, or has a slot \<open>\<le> slot\<close>; and every stored ancestor of the start with a slot \<open>\<le> slot\<close> is
  an ancestor of the result, so that none is skipped.  Asking for an earlier slot from the result
  gives the same answer as asking from the start.\<close>

theorem get_ancestor_correct:
  assumes "wf_store s"
  shows "\<exists>a. get_ancestor s r slot = Some a
           \<and> ancestor s r a
           \<and> (\<forall>b. get_block s a = Some b \<longrightarrow> b_slot b \<le> slot)
           \<and> (\<forall>c b. ancestor s r c \<and> get_block s c = Some b \<and> b_slot b \<le> slot \<longrightarrow> ancestor s a c)
           \<and> (\<forall>slot' \<le> slot. get_ancestor s r slot' = get_ancestor s a slot')"
proof -
  obtain a where a: "get_ancestor s r slot = Some a" using get_ancestor_total [OF assms] by blast
  then show ?thesis
    using get_ancestor_slot [OF assms a] get_ancestor_compose [OF assms _ a]
      get_ancestor_is_ancestor [OF assms a] get_ancestor_last [OF assms a] by blast
qed

theorem get_ancestor_correct_witness:
  "get_ancestor (sample_store sample_chain) 3 1 = Some 2
   \<and> ancestor (sample_store sample_chain) 3 2 \<and> ancestor (sample_store sample_chain) 2 1"
proof -
  let ?s = "sample_store sample_chain"
  have b: "get_block ?s 3 = Some (sample_block 2 2)" "get_block ?s 2 = Some (sample_block 1 1)"
    "get_block ?s 1 = Some (sample_block 0 0)" "get_ancestor ?s 3 1 = Some 2" by code_simp+
  have "ancestor ?s 3 1"
    by (rule ancestor.parent [OF b(1)]) (simp add: sample_block_def ancestor.parent [OF b(2)] ancestor.self)
  with get_ancestor_correct [OF wf_sample_chain, of 3 1] b show ?thesis
    by (auto simp: sample_block_def)
qed

text \<open>\<^verbatim>\<open>slot_start_time\<close> and \<^verbatim>\<open>slot_from_time\<close> are inverse to each other: the store's clock,
  set to the start of a slot, reads that slot, for slots of a whole number of seconds and times that
  fit into 64 bits.\<close>

theorem slot_from_start_time:
  assumes "slot_ms mod 1000 = 0" and "0 < slot_ms"
    and "unat genesis_time + unat slot * unat slot_ms < 2 ^ 64"
  shows "slot_from_time (slot_start_time slot genesis_time slot_ms) genesis_time slot_ms = slot"
  using assms by (rule slot_from_start_time_eq)

theorem slot_from_start_time_witness:
  "slot_from_time (slot_start_time 7 1606824023 12000) 1606824023 12000 = 7"
  by (rule slot_from_start_time) simp_all

end
