(* ===== verification/FC_Head.thy ===== *)
theory FC_Head
  imports FC_Store "HOL-Library.Product_Lexorder" "HOL-Library.Multiset"
begin

text \<open>
  LMD-GHOST head selection and the proposer's single-slot re-org
  (\<^verbatim>\<open>src/crates/pharos-fork-choice/src/get_head.rs\<close>).

  \<^verbatim>\<open>get_head\<close> is characterised exactly: it is the end of the path that starts at the base
  block and steps to the viable child with the greatest (weight, root), where viability is the
  declarative counterpart of \<^verbatim>\<open>filter_block_tree\<close>.  \<open>None\<close> is divergence; under \<^const>\<open>wf_store\<close> it
  does not occur.
\<close>

section \<open>Constants\<close>

definition PROPOSER_SCORE_BOOST :: u64 where "PROPOSER_SCORE_BOOST = 40"

definition REORG_HEAD_WEIGHT_THRESHOLD :: u64 where "REORG_HEAD_WEIGHT_THRESHOLD = 20"

definition REORG_PARENT_WEIGHT_THRESHOLD :: u64 where "REORG_PARENT_WEIGHT_THRESHOLD = 160"

definition REORG_MAX_EPOCHS_SINCE_FINALIZATION :: u64 where
  "REORG_MAX_EPOCHS_SINCE_FINALIZATION = 2"

definition PROPOSER_REORG_CUTOFF_BPS :: u64 where "PROPOSER_REORG_CUTOFF_BPS = 1667"

section \<open>Scores and weights\<close>

definition active_indices_for_justified :: "preset \<Rightarrow> store \<Rightarrow> u64 list" where
  "active_indices_for_justified E s =
     (case fc_checkpoint_states s (fc_justified_checkpoint s) of
        None \<Rightarrow> []
      | Some st \<Rightarrow> get_active_validator_indices E st (get_current_epoch E st))"

definition block_slot_or_0 :: "store \<Rightarrow> root \<Rightarrow> u64" where
  "block_slot_or_0 s r = unwrap_or (map_option b_slot (get_block s r)) 0"

text \<open>The second \<^verbatim>\<open>filter\<close> of the score: validator \<open>i\<close> votes for \<open>r\<close> or a descendant of it.\<close>

definition votes_for :: "store \<Rightarrow> root \<Rightarrow> u64 \<Rightarrow> bool option" where
  "votes_for s r i =
     (case fc_latest_messages s i of
        None \<Rightarrow> Some False
      | Some msg \<Rightarrow>
          if i \<in> fc_equivocating_indices s then Some False
          else do {
            a \<leftarrow> get_ancestor s (lm_root msg) (block_slot_or_0 s r);
            Some (a = r)
          })"

definition unslashed :: "beacon_state \<Rightarrow> u64 \<Rightarrow> bool" where
  "unslashed st i \<longleftrightarrow>
     (case nth_opt (st_validators st) (unat i) of None \<Rightarrow> False | Some v \<Rightarrow> \<not> v_slashed v)"

definition effective_balance_of :: "beacon_state \<Rightarrow> u64 \<Rightarrow> u64" where
  "effective_balance_of st i =
     unwrap_or (map_option v_effective_balance (nth_opt (st_validators st) (unat i))) 0"

definition get_attestation_score :: "store \<Rightarrow> root \<Rightarrow> beacon_state \<Rightarrow> u64 list \<Rightarrow> u64 option" where
  "get_attestation_score s r st active_indices =
     do {
       voters \<leftarrow> filterM (votes_for s r) (filter (unslashed st) active_indices);
       Some (\<Sum>i\<leftarrow>voters. effective_balance_of st i)
     }"

definition compute_proposer_score :: "preset \<Rightarrow> beacon_state \<Rightarrow> u64" where
  "compute_proposer_score E st =
     (let committee_weight = get_total_active_balance E st div SLOTS_PER_EPOCH E
      in committee_weight * PROPOSER_SCORE_BOOST div 100)"

definition get_proposer_score :: "preset \<Rightarrow> store \<Rightarrow> u64" where
  "get_proposer_score E s =
     (case fc_checkpoint_states s (fc_justified_checkpoint s) of
        None \<Rightarrow> 0
      | Some st \<Rightarrow> compute_proposer_score E st)"

definition get_weight_with :: "preset \<Rightarrow> store \<Rightarrow> root \<Rightarrow> u64 list \<Rightarrow> u64 option" where
  "get_weight_with E s r active_indices =
     (case fc_checkpoint_states s (fc_justified_checkpoint s) of
        None \<Rightarrow> Some 0
      | Some st \<Rightarrow> do {
          attestation_score \<leftarrow> get_attestation_score s r st active_indices;
          if fc_proposer_boost_root s = 0 then Some attestation_score
          else do {
            a \<leftarrow> get_ancestor s (fc_proposer_boost_root s) (block_slot_or_0 s r);
            let proposer_score = (if a = r then get_proposer_score E s else 0);
            Some (attestation_score + proposer_score)
          }
        })"

definition get_weight :: "preset \<Rightarrow> store \<Rightarrow> root \<Rightarrow> u64 option" where
  "get_weight E s r = get_weight_with E s r (active_indices_for_justified E s)"

section \<open>Voting source and the filtered tree\<close>

definition default_checkpoint :: checkpoint where
  "default_checkpoint = \<lparr>cp_epoch = 0, cp_root = 0\<rparr>"

definition get_voting_source :: "preset \<Rightarrow> store \<Rightarrow> root \<Rightarrow> checkpoint" where
  "get_voting_source E s block_root =
     (case get_block s block_root of
        None \<Rightarrow> default_checkpoint
      | Some block \<Rightarrow>
          let current_epoch = get_current_store_epoch E s;
              block_epoch = compute_epoch_at_slot (b_slot block) (SLOTS_PER_EPOCH E)
          in if block_epoch < current_epoch
             then unwrap_or (fc_unrealized_justifications s block_root) default_checkpoint
             else unwrap_or (map_option st_current_justified_checkpoint (fc_block_states s block_root))
                    default_checkpoint)"

definition children_index :: "(root \<times> beacon_block) list \<Rightarrow> root \<Rightarrow> root list option" where
  "children_index blocks =
     fold (\<lambda>(r, b) idx. idx(b_parent_root b \<mapsto> unwrap_or (idx (b_parent_root b)) [] @ [r])) blocks Map.empty"

definition is_viable_leaf :: "preset \<Rightarrow> store \<Rightarrow> root \<Rightarrow> bool option" where
  "is_viable_leaf E s block_root =
     (let current_epoch = get_current_store_epoch E s;
          voting_source = get_voting_source E s block_root;
          correct_justified =
            (cp_epoch (fc_justified_checkpoint s) = GENESIS_EPOCH
             \<or> cp_epoch voting_source = cp_epoch (fc_justified_checkpoint s)
             \<or> current_epoch \<le> cp_epoch voting_source + 2)
      in do {
        finalized_checkpoint_block \<leftarrow>
          get_checkpoint_block E s block_root (cp_epoch (fc_finalized_checkpoint s));
        let correct_finalized =
          (cp_epoch (fc_finalized_checkpoint s) = GENESIS_EPOCH
           \<or> cp_root (fc_finalized_checkpoint s) = finalized_checkpoint_block);
        Some (correct_justified \<and> correct_finalized)
      })"

text \<open>The accumulator is the output map \<^verbatim>\<open>blocks\<close>; \<^const>\<open>AList.update\<close> is \<^verbatim>\<open>HashMap::insert\<close>.\<close>

partial_function (option) filter_block_tree ::
  "preset \<Rightarrow> store \<Rightarrow> (root \<Rightarrow> root list option) \<Rightarrow> root \<Rightarrow> (root \<times> beacon_block) list
     \<Rightarrow> (bool \<times> (root \<times> beacon_block) list) option" where
  "filter_block_tree E s children_idx block_root blocks =
     (case get_block s block_root of
        None \<Rightarrow> Some (False, blocks)
      | Some block \<Rightarrow>
          if fc_payload_statuses s block_root = Some Invalid then Some (False, blocks)
          else
            let children = unwrap_or (children_idx block_root) [] in
            if children \<noteq> [] then do {
              (any_viable, blocks) \<leftarrow> foldM (\<lambda>child (any_viable, blocks). do {
                  (viable, blocks) \<leftarrow> filter_block_tree E s children_idx child blocks;
                  Some (any_viable \<or> viable, blocks) }) children (False, blocks);
              if any_viable then Some (True, AList.update block_root block blocks)
              else Some (False, blocks)
            }
            else do {
              ok \<leftarrow> is_viable_leaf E s block_root;
              if ok then Some (True, AList.update block_root block blocks) else Some (False, blocks)
            })"

declare filter_block_tree.simps [code]

definition effective_base :: "store \<Rightarrow> root" where
  "effective_base s =
     (if get_block s (cp_root (fc_justified_checkpoint s)) \<noteq> None
      then cp_root (fc_justified_checkpoint s) else cp_root (fc_finalized_checkpoint s))"

definition get_filtered_block_tree :: "preset \<Rightarrow> store \<Rightarrow> (root \<times> beacon_block) list option" where
  "get_filtered_block_tree E s =
     do {
       (_, blocks) \<leftarrow> filter_block_tree E s (children_index (fc_blocks s)) (effective_base s) [];
       Some blocks
     }"

section \<open>Head\<close>

text \<open>\<^verbatim>\<open>weights.entry(root).or_insert_with(..)\<close>: a memo of weights for one call of \<^verbatim>\<open>get_head\<close>.\<close>

definition memo_weight ::
  "preset \<Rightarrow> store \<Rightarrow> u64 list \<Rightarrow> root \<Rightarrow> (root \<rightharpoonup> u64) \<Rightarrow> (u64 \<times> (root \<rightharpoonup> u64)) option" where
  "memo_weight E s active_indices r weights =
     (case weights r of
        Some w \<Rightarrow> Some (w, weights)
      | None \<Rightarrow> do {
          w \<leftarrow> get_weight_with E s r active_indices;
          Some (w, weights(r \<mapsto> w))
        })"

text \<open>\<^verbatim>\<open>max_by_key\<close> computes the key of each child in turn, here collected in a list.\<close>

definition weigh_children ::
  "preset \<Rightarrow> store \<Rightarrow> u64 list \<Rightarrow> root list \<Rightarrow> (root \<rightharpoonup> u64) \<Rightarrow> ((u64 \<times> root) list \<times> (root \<rightharpoonup> u64)) option" where
  "weigh_children E s active_indices children weights =
     foldM (\<lambda>r (keyed, weights). do {
         (w, weights) \<leftarrow> memo_weight E s active_indices r weights;
         Some (keyed @ [(w, r)], weights) }) children ([], weights)"

partial_function (option) get_head_loop ::
  "preset \<Rightarrow> store \<Rightarrow> (root \<Rightarrow> root list option) \<Rightarrow> u64 list \<Rightarrow> root \<Rightarrow> (root \<rightharpoonup> u64) \<Rightarrow> root option" where
  "get_head_loop E s children_idx active_indices head weights =
     (case children_idx head of
        None \<Rightarrow> Some head
      | Some children \<Rightarrow> do {
          (keyed, weights) \<leftarrow> weigh_children E s active_indices children weights;
          best \<leftarrow> max_by_key id keyed;
          get_head_loop E s children_idx active_indices (snd best) weights
        })"

declare get_head_loop.simps [code]

definition get_head :: "preset \<Rightarrow> store \<Rightarrow> root option" where
  "get_head E s =
     do {
       blocks \<leftarrow> get_filtered_block_tree E s;
       get_head_loop E s (children_index blocks) (active_indices_for_justified E s)
         (effective_base s) Map.empty
     }"

section \<open>Proposer head\<close>

definition calculate_committee_fraction :: "preset \<Rightarrow> beacon_state \<Rightarrow> u64 \<Rightarrow> u64" where
  "calculate_committee_fraction E st committee_percent =
     (let committee_weight = get_total_active_balance E st div SLOTS_PER_EPOCH E
      in committee_weight * committee_percent div 100)"

definition get_slot_component_duration_ms :: "preset \<Rightarrow> u64 \<Rightarrow> u64" where
  "get_slot_component_duration_ms E basis_points = basis_points * SLOT_DURATION_MS E div BASIS_POINTS"

definition get_proposer_reorg_cutoff_ms :: "preset \<Rightarrow> u64" where
  "get_proposer_reorg_cutoff_ms E = get_slot_component_duration_ms E PROPOSER_REORG_CUTOFF_BPS"

definition is_head_late :: "store \<Rightarrow> root \<Rightarrow> bool" where
  "is_head_late s head_root \<longleftrightarrow> \<not> unwrap_or (fc_block_timeliness s head_root) False"

definition is_shuffling_stable :: "preset \<Rightarrow> u64 \<Rightarrow> bool" where
  "is_shuffling_stable E slot \<longleftrightarrow> slot mod SLOTS_PER_EPOCH E \<noteq> 0"

definition is_ffg_competitive :: "store \<Rightarrow> root \<Rightarrow> root \<Rightarrow> bool" where
  "is_ffg_competitive s head_root parent_root =
     (case (fc_unrealized_justifications s head_root, fc_unrealized_justifications s parent_root) of
        (Some h, Some p) \<Rightarrow> h = p
      | _ \<Rightarrow> False)"

definition is_finalization_ok :: "preset \<Rightarrow> store \<Rightarrow> u64 \<Rightarrow> bool" where
  "is_finalization_ok E s slot \<longleftrightarrow>
     (let current_epoch = compute_epoch_at_slot slot (SLOTS_PER_EPOCH E);
          epochs_since_finalization = saturating_sub current_epoch (cp_epoch (fc_finalized_checkpoint s))
      in epochs_since_finalization \<le> REORG_MAX_EPOCHS_SINCE_FINALIZATION)"

definition is_proposing_on_time :: "preset \<Rightarrow> store \<Rightarrow> bool" where
  "is_proposing_on_time E s \<longleftrightarrow> time_into_current_slot_ms E s \<le> get_proposer_reorg_cutoff_ms E"

definition is_head_weak_with ::
  "preset \<Rightarrow> store \<Rightarrow> root \<Rightarrow> u64 list \<Rightarrow> (root \<rightharpoonup> u64) \<Rightarrow> (bool \<times> (root \<rightharpoonup> u64)) option" where
  "is_head_weak_with E s head_root active_indices weights =
     (case fc_checkpoint_states s (fc_justified_checkpoint s) of
        None \<Rightarrow> Some (False, weights)
      | Some st \<Rightarrow> do {
          let reorg_threshold = calculate_committee_fraction E st REORG_HEAD_WEIGHT_THRESHOLD;
          (head_weight, weights) \<leftarrow> memo_weight E s active_indices head_root weights;
          Some (head_weight < reorg_threshold, weights)
        })"

definition is_head_weak :: "preset \<Rightarrow> store \<Rightarrow> root \<Rightarrow> bool option" where
  "is_head_weak E s head_root =
     map_option fst (is_head_weak_with E s head_root (active_indices_for_justified E s) Map.empty)"

definition is_parent_strong_with ::
  "preset \<Rightarrow> store \<Rightarrow> root \<Rightarrow> u64 list \<Rightarrow> (root \<rightharpoonup> u64) \<Rightarrow> (bool \<times> (root \<rightharpoonup> u64)) option" where
  "is_parent_strong_with E s r active_indices weights =
     (case fc_checkpoint_states s (fc_justified_checkpoint s) of
        None \<Rightarrow> Some (False, weights)
      | Some st \<Rightarrow>
          let parent_threshold = calculate_committee_fraction E st REORG_PARENT_WEIGHT_THRESHOLD in
          (case get_block s r of
             None \<Rightarrow> Some (False, weights)
           | Some b \<Rightarrow> do {
               (parent_weight, weights) \<leftarrow> memo_weight E s active_indices (b_parent_root b) weights;
               Some (parent_threshold < parent_weight, weights)
             }))"

definition is_parent_strong :: "preset \<Rightarrow> store \<Rightarrow> root \<Rightarrow> bool option" where
  "is_parent_strong E s r =
     map_option fst (is_parent_strong_with E s r (active_indices_for_justified E s) Map.empty)"

definition is_proposer_equivocation :: "store \<Rightarrow> root \<Rightarrow> bool" where
  "is_proposer_equivocation s r =
     (case get_block s r of
        None \<Rightarrow> False
      | Some block \<Rightarrow>
          1 < length (filter (\<lambda>b. b_proposer_index b = b_proposer_index block \<and> b_slot b = b_slot block)
                        (map snd (fc_blocks s))))"

definition get_proposer_head :: "preset \<Rightarrow> store \<Rightarrow> root \<Rightarrow> u64 \<Rightarrow> root option" where
  "get_proposer_head E s head_root slot =
     (case get_block s head_root of
        None \<Rightarrow> Some head_root
      | Some head_block \<Rightarrow>
          let parent_root = b_parent_root head_block in
          (case get_block s parent_root of
             None \<Rightarrow> Some head_root
           | Some parent_block \<Rightarrow>
               let head_late = is_head_late s head_root;
                   shuffling_stable = is_shuffling_stable E slot;
                   ffg_competitive = is_ffg_competitive s head_root parent_root;
                   finalization_ok = is_finalization_ok E s slot;
                   proposing_on_time = is_proposing_on_time E s;
                   parent_slot_ok = (b_slot parent_block + 1 = b_slot head_block);
                   current_time_ok = (b_slot head_block + 1 = slot);
                   single_slot_reorg = (parent_slot_ok \<and> current_time_ok)
               in if fc_proposer_boost_root s = head_root then Some head_root
                  else do {
                    let active_indices = active_indices_for_justified E s;
                    (head_weak, weights) \<leftarrow> is_head_weak_with E s head_root active_indices Map.empty;
                    (parent_strong, weights) \<leftarrow>
                      is_parent_strong_with E s head_root active_indices weights;
                    let proposer_equivocation = is_proposer_equivocation s head_root;
                    if head_late \<and> shuffling_stable \<and> ffg_competitive \<and> finalization_ok
                       \<and> proposing_on_time \<and> single_slot_reorg \<and> head_weak \<and> parent_strong
                    then Some parent_root
                    else if head_weak \<and> current_time_ok \<and> proposer_equivocation
                    then Some parent_root
                    else Some head_root
                  }))"


section \<open>Children\<close>

definition is_child :: "store \<Rightarrow> root \<Rightarrow> root \<Rightarrow> bool" where
  "is_child s r c \<longleftrightarrow> (\<exists>b. get_block s c = Some b \<and> b_parent_root b = r)"

lemma fold_children_index:
  "fold (\<lambda>(r, b) idx. idx(b_parent_root b \<mapsto> unwrap_or (idx (b_parent_root b)) [] @ [r])) bs idx p =
     (let cs = map fst (filter (\<lambda>(r, b). b_parent_root b = p) bs)
      in if cs = [] then idx p else Some (unwrap_or (idx p) [] @ cs))"
proof (induction bs arbitrary: idx)
  case (Cons rb bs)
  obtain r b where rb: "rb = (r, b)" by (cases rb)
  show ?case
    using Cons.IH [of "idx(b_parent_root b \<mapsto> unwrap_or (idx (b_parent_root b)) [] @ [r])"]
    by (auto simp: rb Let_def)
qed simp

lemma children_index_eq:
  "children_index bs p =
     (let cs = map fst (filter (\<lambda>(r, b). b_parent_root b = p) bs)
      in if cs = [] then None else Some cs)"
  unfolding children_index_def fold_children_index by (simp add: Let_def)

lemma children_index_list:
  "unwrap_or (children_index bs p) [] = map fst (filter (\<lambda>(r, b). b_parent_root b = p) bs)"
  by (simp add: children_index_eq Let_def)

lemma children_index_mem:
  assumes "distinct (map fst bs)"
  shows "c \<in> set (unwrap_or (children_index bs p) []) \<longleftrightarrow>
           (\<exists>b. map_of bs c = Some b \<and> b_parent_root b = p)"
proof -
  have "c \<in> set (unwrap_or (children_index bs p) []) \<longleftrightarrow>
          (\<exists>b. (c, b) \<in> set bs \<and> b_parent_root b = p)"
    unfolding children_index_list by force
  then show ?thesis using assms by (auto simp: map_of_eq_Some_iff dest: map_of_SomeD)
qed

lemma children_index_nonempty: "children_index bs p = Some cs \<Longrightarrow> cs \<noteq> []"
  by (auto simp: children_index_eq Let_def split: if_splits)

lemma children_index_None:
  assumes "distinct (map fst bs)"
  shows "children_index bs p = None \<longleftrightarrow> \<not> (\<exists>c b. map_of bs c = Some b \<and> b_parent_root b = p)"
proof -
  have "children_index bs p = None \<longleftrightarrow> set (unwrap_or (children_index bs p) []) = {}"
    by (cases "children_index bs p") (auto dest: children_index_nonempty)
  also have "\<dots> \<longleftrightarrow> \<not> (\<exists>c. c \<in> set (unwrap_or (children_index bs p) []))" by (simp only: ex_in_conv not_not)
  finally show ?thesis unfolding children_index_mem [OF assms] .
qed

lemma store_children_mem:
  "wf_store s \<Longrightarrow> c \<in> set (unwrap_or (children_index (fc_blocks s) r) []) \<longleftrightarrow> is_child s r c"
  by (simp add: children_index_mem wf_store_distinct is_child_def get_block_def)

lemma is_child_slot:
  "wf_store s \<Longrightarrow> is_child s r c \<Longrightarrow> get_block s r = Some b \<Longrightarrow>
     \<exists>d. get_block s c = Some d \<and> b_slot b < b_slot d"
  unfolding is_child_def by (metis wf_store_parent_slot)

text \<open>Induction from the leaves towards the root: slots grow along children and are bounded.\<close>

lemma descend_induct [consumes 2, case_names block]:
  assumes "wf_store s" and "get_block s r = Some b"
    and step: "\<And>r b. get_block s r = Some b \<Longrightarrow>
                 (\<And>c d. is_child s r c \<Longrightarrow> get_block s c = Some d \<Longrightarrow> P c) \<Longrightarrow> P r"
  shows "P r"
  using assms(2)
proof (induction "2 ^ 64 - unat (b_slot b)" arbitrary: r b rule: less_induct)
  case less
  show ?case
  proof (rule step [OF less.prems])
    fix c d assume c: "is_child s r c" "get_block s c = Some d"
    with less.prems assms(1) have "b_slot b < b_slot d" using is_child_slot by fastforce
    then have "2 ^ 64 - unat (b_slot d) < 2 ^ 64 - unat (b_slot b)"
      using u64_less_bound [of "b_slot d"] by (simp add: word_less_nat_alt diff_less_mono2)
    then show "P c" using c(2) by (rule less.hyps)
  qed
qed

section \<open>Viability\<close>

text \<open>
  The declarative counterpart of \<^const>\<open>filter_block_tree\<close>: a block is viable when it is stored,
  not known invalid, and either a leaf that passes the leaf check or the parent of a viable block.
\<close>

definition sound :: "store \<Rightarrow> root \<Rightarrow> bool" where
  "sound s r \<longleftrightarrow> get_block s r \<noteq> None \<and> fc_payload_statuses s r \<noteq> Some Invalid"

inductive viable :: "preset \<Rightarrow> store \<Rightarrow> root \<Rightarrow> bool" for E s where
  leaf: "sound s r \<Longrightarrow> \<not> (\<exists>c. is_child s r c) \<Longrightarrow> is_viable_leaf E s r = Some True \<Longrightarrow> viable E s r"
| node: "sound s r \<Longrightarrow> is_child s r c \<Longrightarrow> viable E s c \<Longrightarrow> viable E s r"

inductive_cases viableE: "viable E s r"

text \<open>The blocks \<^const>\<open>filter_block_tree\<close> looks at when started on \<open>r\<close>.\<close>

inductive visits :: "store \<Rightarrow> root \<Rightarrow> root \<Rightarrow> bool" for s where
  here: "visits s r r"
| down: "sound s r \<Longrightarrow> is_child s r c \<Longrightarrow> visits s c x \<Longrightarrow> visits s r x"

inductive_cases visitsE: "visits s r x"

lemma viable_sound: "viable E s r \<Longrightarrow> sound s r"
  by (auto elim: viable.cases)

lemma sound_block: "sound s r \<Longrightarrow> \<exists>b. get_block s r = Some b"
  by (auto simp: sound_def)

lemma viable_block: "viable E s r \<Longrightarrow> \<exists>b. get_block s r = Some b"
  by (intro sound_block viable_sound)

lemma viable_up: "visits s r x \<Longrightarrow> viable E s x \<Longrightarrow> viable E s r"
  by (induction rule: visits.induct) (auto intro: viable.node)

lemma viable_child_iff:
  "is_child s r c \<Longrightarrow> viable E s r \<longleftrightarrow> sound s r \<and> (\<exists>c. is_child s r c \<and> viable E s c)"
  by (auto elim: viableE intro: viable.node)

lemma visits_unfold: "visits s r x \<longleftrightarrow> x = r \<or> (sound s r \<and> (\<exists>c. is_child s r c \<and> visits s c x))"
  by (auto elim: visitsE intro: visits.intros)

lemma is_viable_leaf_total: "wf_store s \<Longrightarrow> \<exists>v. is_viable_leaf E s r = Some v"
  using get_ancestor_total [of s r]
  by (auto simp: is_viable_leaf_def get_checkpoint_block_def Let_def bind_eq_Some_conv)

section \<open>The filter computes viability\<close>

definition filtered :: "preset \<Rightarrow> store \<Rightarrow> root \<Rightarrow> (root \<times> beacon_block) list \<Rightarrow> root \<rightharpoonup> beacon_block" where
  "filtered E s r acc x = (if viable E s x \<and> visits s r x then get_block s x else map_of acc x)"

definition filter_post ::
  "preset \<Rightarrow> store \<Rightarrow> root \<Rightarrow> (root \<times> beacon_block) list \<Rightarrow> bool \<times> (root \<times> beacon_block) list \<Rightarrow> bool" where
  "filter_post E s r acc res \<longleftrightarrow>
     fst res = viable E s r
     \<and> map_of (snd res) = filtered E s r acc
     \<and> (distinct (map fst acc) \<longrightarrow> distinct (map fst (snd res)))"

lemma filter_children:
  assumes "\<And>c acc. c \<in> set cs \<Longrightarrow> \<exists>res. go c acc = Some res \<and> filter_post E s c acc res"
  shows "\<exists>any acc'. foldM (\<lambda>child (any_viable, blocks). do {
            (viable, blocks) \<leftarrow> go child blocks;
            Some (any_viable \<or> viable, blocks) }) cs (v, acc) = Some (any, acc')
          \<and> any = (v \<or> (\<exists>c \<in> set cs. viable E s c))
          \<and> map_of acc' = (\<lambda>x. if viable E s x \<and> (\<exists>c \<in> set cs. visits s c x) then get_block s x
                                else map_of acc x)
          \<and> (distinct (map fst acc) \<longrightarrow> distinct (map fst acc'))"
  using assms
proof (induction cs arbitrary: v acc)
  case (Cons c cs)
  from Cons.prems [of c acc] obtain v1 acc1 where
    1: "go c acc = Some (v1, acc1)" "filter_post E s c acc (v1, acc1)" by auto
  from Cons.IH [of "v \<or> v1" acc1] Cons.prems obtain any acc' where
    2: "foldM (\<lambda>child (any_viable, blocks). do {
            (viable, blocks) \<leftarrow> go child blocks;
            Some (any_viable \<or> viable, blocks) }) cs (v \<or> v1, acc1) = Some (any, acc')"
      "any = ((v \<or> v1) \<or> (\<exists>c \<in> set cs. viable E s c))"
      "map_of acc' = (\<lambda>x. if viable E s x \<and> (\<exists>c \<in> set cs. visits s c x) then get_block s x
                           else map_of acc1 x)"
      "distinct (map fst acc1) \<longrightarrow> distinct (map fst acc')"
    by auto
  from 1 2 show ?case by (auto simp: filter_post_def filtered_def fun_eq_iff)
qed auto


lemma filter_block_tree_leaf:
  assumes "get_block s r = Some b" and "sound s r" and "unwrap_or (idx r) [] = []"
    and "is_viable_leaf E s r = Some v"
  shows "filter_block_tree E s idx r acc = Some (if v then (True, AList.update r b acc) else (False, acc))"
  using assms by (subst filter_block_tree.simps) (simp add: sound_def Let_def)

lemma filter_block_tree_skip:
  "\<not> sound s r \<Longrightarrow> filter_block_tree E s idx r acc = Some (False, acc)"
  by (subst filter_block_tree.simps) (auto simp: sound_def split: option.splits)

lemma filter_block_tree_node:
  assumes "get_block s r = Some b" and "sound s r" and "unwrap_or (idx r) [] \<noteq> []"
  shows "filter_block_tree E s idx r acc =
           do {
             (any_viable, blocks) \<leftarrow> foldM (\<lambda>child (any_viable, blocks). do {
                 (viable, blocks) \<leftarrow> filter_block_tree E s idx child blocks;
                 Some (any_viable \<or> viable, blocks) }) (unwrap_or (idx r) []) (False, acc);
             if any_viable then Some (True, AList.update r b blocks) else Some (False, blocks)
           }"
  using assms by (subst filter_block_tree.simps) (simp add: sound_def Let_def)

text \<open>A visited block below \<open>r\<close> is not \<open>r\<close> itself, as slots strictly grow.\<close>

lemma visits_slot:
  assumes "wf_store s"
  shows "visits s r x \<Longrightarrow> get_block s r = Some b \<Longrightarrow> x = r \<or> (\<exists>d. get_block s x = Some d \<and> b_slot b < b_slot d)"
proof (induction arbitrary: b rule: visits.induct)
  case (down r c x)
  obtain d where d: "get_block s c = Some d" "b_slot b < b_slot d"
    using is_child_slot [OF assms down.hyps(2) down.prems] by blast
  with down.IH [OF d(1)] show ?case by (auto dest: less_trans)
qed simp

lemma filter_block_tree_spec:
  assumes "wf_store s" and "get_block s r = Some b"
  shows "\<exists>res. filter_block_tree E s (children_index (fc_blocks s)) r acc = Some res
           \<and> filter_post E s r acc res"
  using assms(1,2)
proof (induction r arbitrary: acc b rule: descend_induct)
  case (block r b)
  let ?idx = "children_index (fc_blocks s)"
  let ?cs = "unwrap_or (?idx r) []"
  have mem: "c \<in> set ?cs \<longleftrightarrow> is_child s r c" for c by (rule store_children_mem [OF assms(1)])
  show ?case
  proof (cases "sound s r")
    case False
    then have "\<not> viable E s r" "visits s r x \<longleftrightarrow> x = r" for x
      using viable_sound visits_unfold [of s r x] by blast+
    with False show ?thesis by (auto simp: filter_block_tree_skip filter_post_def filtered_def fun_eq_iff)
  next
    case True
    show ?thesis
    proof (cases "?cs = []")
      case leaf: True
      then have none: "\<not> (\<exists>c. is_child s r c)" using mem by auto
      obtain v where v: "is_viable_leaf E s r = Some v" using is_viable_leaf_total [OF assms(1)] by blast
      have "viable E s r \<longleftrightarrow> v" using none v True by (auto elim: viableE intro: viable.leaf)
      moreover have "visits s r x \<longleftrightarrow> x = r" for x using none visits_unfold [of s r x] by blast
      ultimately show ?thesis
        using filter_block_tree_leaf [of s r b ?idx E v acc, OF block(1) True leaf v] block(1)
        by (auto simp: filter_post_def filtered_def fun_eq_iff update_conv' distinct_update)
    next
      case False
      have "\<exists>res. filter_block_tree E s ?idx c acc = Some res \<and> filter_post E s c acc res"
        if "c \<in> set ?cs" for c acc
        using that mem block(2) by (auto simp: is_child_def)
      from filter_children [of ?cs "filter_block_tree E s ?idx", OF this, of False acc,
          unfolded Bex_def mem simp_thms]
      obtain any acc' where f: "foldM (\<lambda>child (any_viable, blocks). do {
            (viable, blocks) \<leftarrow> filter_block_tree E s ?idx child blocks;
            Some (any_viable \<or> viable, blocks) }) ?cs (False, acc) = Some (any, acc')"
          "any = (\<exists>c. is_child s r c \<and> viable E s c)"
          "map_of acc' = (\<lambda>x. if viable E s x \<and> (\<exists>c. is_child s r c \<and> visits s c x)
                               then get_block s x else map_of acc x)"
          "distinct (map fst acc) \<longrightarrow> distinct (map fst acc')"
        by blast
      obtain c where "is_child s r c" using False mem by (cases ?cs) auto
      then have any: "viable E s r \<longleftrightarrow> any" using viable_child_iff [of s r c E] True f(2) by simp
      have res: "filter_block_tree E s ?idx r acc
                   = Some (if any then (True, AList.update r b acc') else (False, acc'))"
        using filter_block_tree_node [of s r b ?idx E acc, OF block(1) True False] f(1) by simp
      have "viable E s x \<Longrightarrow> is_child s r c \<Longrightarrow> visits s c x \<Longrightarrow> any" for x c
        using f(2) viable_up by blast
      then have "map_of (if any then AList.update r b acc' else acc') = filtered E s r acc"
        using f(3) any True block(1)
        by (auto simp: fun_eq_iff filtered_def update_conv' visits_unfold [of s r])
      with res any f(4) show ?thesis by (auto simp: filter_post_def distinct_update)
    qed
  qed
qed


section \<open>Weights\<close>

lemma votes_for_total: "wf_store s \<Longrightarrow> \<exists>v. votes_for s r i = Some v"
  using get_ancestor_total [of s]
  by (auto simp: votes_for_def bind_eq_Some_conv split: option.splits)

lemma get_attestation_score_total:
  assumes "wf_store s"
  shows "\<exists>w. get_attestation_score s r st active = Some w"
proof -
  have "\<exists>ys. filterM (votes_for s r) (filter (unslashed st) active) = Some ys"
    by (intro filterM_returns votes_for_total assms)
  then show ?thesis by (auto simp: get_attestation_score_def)
qed

lemma get_weight_with_total:
  assumes "wf_store s"
  shows "\<exists>w. get_weight_with E s r active = Some w"
proof (cases "fc_checkpoint_states s (fc_justified_checkpoint s)")
  case (Some st)
  obtain w a where "get_attestation_score s r st active = Some w"
    "get_ancestor s (fc_proposer_boost_root s) (block_slot_or_0 s r) = Some a"
    using get_attestation_score_total [OF assms] get_ancestor_total [OF assms] by blast
  with Some show ?thesis by (simp add: get_weight_with_def Let_def)
qed (simp add: get_weight_with_def)

definition weight :: "preset \<Rightarrow> store \<Rightarrow> root \<Rightarrow> u64" where
  "weight E s r = the (get_weight E s r)"

lemma get_weight_with_weight:
  "wf_store s \<Longrightarrow> get_weight_with E s r (active_indices_for_justified E s) = Some (weight E s r)"
  using get_weight_with_total [of s E r] by (fastforce simp: weight_def get_weight_def)

definition memo_ok :: "preset \<Rightarrow> store \<Rightarrow> (root \<rightharpoonup> u64) \<Rightarrow> bool" where
  "memo_ok E s weights \<longleftrightarrow> (\<forall>r w. weights r = Some w \<longrightarrow> w = weight E s r)"

lemma memo_ok_empty [simp]: "memo_ok E s Map.empty"
  by (simp add: memo_ok_def)

lemma memo_weight_ok:
  assumes "wf_store s" and "memo_ok E s weights"
  shows "\<exists>weights'. memo_weight E s (active_indices_for_justified E s) r weights
                      = Some (weight E s r, weights') \<and> memo_ok E s weights'"
  using assms
  by (auto simp: memo_weight_def memo_ok_def get_weight_with_weight split: option.splits)

lemma weigh_children_ok:
  assumes "wf_store s" and "memo_ok E s weights"
  shows "\<exists>weights'. weigh_children E s (active_indices_for_justified E s) cs weights
                      = Some (map (\<lambda>r. (weight E s r, r)) cs, weights') \<and> memo_ok E s weights'"
proof -
  have "\<exists>weights'. foldM (\<lambda>r (keyed, weights). do {
            (w, weights) \<leftarrow> memo_weight E s (active_indices_for_justified E s) r weights;
            Some (keyed @ [(w, r)], weights) }) cs (keyed, weights)
          = Some (keyed @ map (\<lambda>r. (weight E s r, r)) cs, weights') \<and> memo_ok E s weights'"
    for keyed
    using assms(2)
  proof (induction cs arbitrary: keyed weights)
    case (Cons c cs)
    obtain weights1 where 1: "memo_weight E s (active_indices_for_justified E s) c weights
        = Some (weight E s c, weights1)" "memo_ok E s weights1"
      using memo_weight_ok [OF assms(1) Cons.prems] by blast
    show ?case using Cons.IH [OF 1(2), of "keyed @ [(weight E s c, c)]"] 1(1) by simp
  qed simp
  from this [of "[]"] show ?thesis by (simp add: weigh_children_def)
qed

section \<open>The greedy path\<close>

definition ghost_child :: "preset \<Rightarrow> store \<Rightarrow> root \<Rightarrow> root \<Rightarrow> bool" where
  "ghost_child E s r c \<longleftrightarrow> sound s r \<and> is_child s r c \<and> viable E s c"

definition ghost_step :: "preset \<Rightarrow> store \<Rightarrow> root \<Rightarrow> root \<Rightarrow> bool" where
  "ghost_step E s r c \<longleftrightarrow>
     ghost_child E s r c
     \<and> (\<forall>d. ghost_child E s r d \<longrightarrow> (weight E s d, d) \<le> (weight E s c, c))"

lemma visits_last: "visits s r x \<Longrightarrow> x = r \<or> (\<exists>p. visits s r p \<and> sound s p \<and> is_child s p x)"
  by (induction rule: visits.induct) (auto intro: visits.intros)

lemma visits_snoc: "visits s r p \<Longrightarrow> sound s p \<Longrightarrow> is_child s p x \<Longrightarrow> visits s r x"
  by (induction rule: visits.induct) (auto intro: visits.intros)

lemma is_child_unique: "is_child s p c \<Longrightarrow> is_child s q c \<Longrightarrow> p = q"
  by (auto simp: is_child_def)

lemma get_filtered_block_tree_spec:
  assumes "wf_store s"
  shows "\<exists>bs. get_filtered_block_tree E s = Some bs \<and> distinct (map fst bs)
           \<and> map_of bs = (\<lambda>x. if viable E s x \<and> visits s (effective_base s) x then get_block s x else None)"
proof (cases "get_block s (effective_base s)")
  case None
  then have unsound: "\<not> sound s (effective_base s)" by (simp add: sound_def)
  then have "\<not> (viable E s x \<and> visits s (effective_base s) x)" for x
    using visits_unfold [of s "effective_base s" x] by (auto dest: viable_sound)
  then show ?thesis
    by (auto simp: get_filtered_block_tree_def filter_block_tree_skip [OF unsound] fun_eq_iff)
next
  case (Some b)
  from filter_block_tree_spec [OF assms Some, of E "[]"] obtain v bs where
    "filter_block_tree E s (children_index (fc_blocks s)) (effective_base s) [] = Some (v, bs)"
    "filter_post E s (effective_base s) [] (v, bs)" by auto
  then show ?thesis by (auto simp: get_filtered_block_tree_def filter_post_def filtered_def fun_eq_iff)
qed

lemma filtered_children:
  assumes "wf_store s" and "distinct (map fst bs)"
    and bs: "map_of bs = (\<lambda>x. if viable E s x \<and> visits s base x then get_block s x else None)"
    and "visits s base h"
  shows "c \<in> set (unwrap_or (children_index bs h) []) \<longleftrightarrow> ghost_child E s h c"
proof -
  have "c \<in> set (unwrap_or (children_index bs h) []) \<longleftrightarrow> viable E s c \<and> visits s base c \<and> is_child s h c"
    unfolding children_index_mem [OF assms(2)] bs by (auto simp: is_child_def)
  moreover have "sound s h" if c: "visits s base c" "is_child s h c"
  proof -
    have "c \<noteq> base"
    proof
      assume "c = base"
      with c(2) obtain b where b: "get_block s base = Some b" "b_parent_root b = h" by (auto simp: is_child_def)
      then have "h \<noteq> base" using wf_store_parent_neq [OF assms(1)] by blast
      then obtain d where "get_block s h = Some d" "b_slot b < b_slot d"
        using visits_slot [OF assms(1) assms(4) b(1)] by blast
      then show False using wf_store_parent_slot [OF assms(1) b(1)] b(2) by auto
    qed
    then show ?thesis using visits_last [OF c(1)] is_child_unique [OF c(2)] by blast
  qed
  ultimately show ?thesis using visits_snoc [OF assms(4)] by (auto simp: ghost_child_def)
qed

lemma ghost_pick:
  assumes "set cs = {c. ghost_child E s h c}"
    and "max_by_key id (map (\<lambda>r. (weight E s r, r)) cs) = Some best"
  shows "ghost_step E s h (snd best)"
proof -
  have "best \<in> set (map (\<lambda>r. (weight E s r, r)) cs)" by (rule max_by_key_Some(1) [OF assms(2)])
  then obtain c where c: "c \<in> set cs" "best = (weight E s c, c)" by auto
  have "id (weight E s d, d) \<le> id best" if "ghost_child E s h d" for d
    using that assms(1) by (intro max_by_key_Some(2) [OF assms(2)]) auto
  with c assms(1) show ?thesis by (auto simp: ghost_step_def)
qed


lemma get_head_loop_leaf:
  "idx h = None \<Longrightarrow> get_head_loop E s idx active h weights = Some h"
  by (subst get_head_loop.simps) simp

lemma get_head_loop_step:
  assumes "idx h = Some cs" and "weigh_children E s active cs weights = Some (keyed, weights')"
    and "max_by_key id keyed = Some best"
  shows "get_head_loop E s idx active h weights = get_head_loop E s idx active (snd best) weights'"
  using assms by (subst get_head_loop.simps) simp

lemma get_head_loop_stuck:
  assumes "idx h = None" and "\<And>c. c \<in> set (unwrap_or (idx h) []) \<longleftrightarrow> ghost_child E s h c"
  shows "get_head_loop E s idx active h weights = Some h \<and> \<not> (\<exists>c. ghost_child E s h c)"
  using assms(2) by (simp add: get_head_loop_leaf [of idx, OF assms(1)] assms(1))

lemma get_head_loop_spec:
  assumes "wf_store s" and "get_block s h = Some b" and "visits s base h" and "memo_ok E s weights"
    and idx: "\<And>h c. visits s base h \<Longrightarrow> c \<in> set (unwrap_or (idx h) []) \<longleftrightarrow> ghost_child E s h c"
    and nonempty: "\<And>h. idx h \<noteq> Some []"
  shows "\<exists>x. get_head_loop E s idx (active_indices_for_justified E s) h weights = Some x
           \<and> (ghost_step E s)\<^sup>*\<^sup>* h x \<and> \<not> (\<exists>c. ghost_child E s x c)"
  using assms(1-4)
proof (induction h arbitrary: b weights rule: descend_induct)
  case (block h b)
  show ?case
  proof (cases "idx h")
    case None
    then show ?thesis using get_head_loop_stuck [of idx h E s, OF None idx [OF block(3)]] by blast
  next
    case (Some cs)
    have cs: "set cs = {c. ghost_child E s h c}" using idx [OF block(3)] Some by auto
    obtain weights' where w: "weigh_children E s (active_indices_for_justified E s) cs weights
        = Some (map (\<lambda>r. (weight E s r, r)) cs, weights')" "memo_ok E s weights'"
      using weigh_children_ok [OF assms(1) block(4)] by blast
    have "cs \<noteq> []" using nonempty [of h] Some by simp
    then obtain best where best: "max_by_key id (map (\<lambda>r. (weight E s r, r)) cs) = Some best"
      by (cases "max_by_key id (map (\<lambda>r. (weight E s r, r)) cs)") auto
    have step: "ghost_step E s h (snd best)" by (rule ghost_pick [OF cs best])
    then have child: "sound s h" "is_child s h (snd best)" by (simp_all add: ghost_step_def ghost_child_def)
    from child(2) obtain d where d: "get_block s (snd best) = Some d" by (auto simp: is_child_def)
    have "visits s base (snd best)" using visits_snoc [OF block(3) child] .
    from block(2) [OF child(2) d this w(2)] obtain x where
      "get_head_loop E s idx (active_indices_for_justified E s) (snd best) weights' = Some x"
      "(ghost_step E s)\<^sup>*\<^sup>* (snd best) x" "\<not> (\<exists>c. ghost_child E s x c)" by blast
    then show ?thesis
      using get_head_loop_step [of idx h cs E s _ weights, OF Some w(1) best] step
      by (metis converse_rtranclp_into_rtranclp)
  qed
qed

lemma get_head_spec:
  assumes "wf_store s"
  shows "\<exists>h. get_head E s = Some h \<and> (ghost_step E s)\<^sup>*\<^sup>* (effective_base s) h
           \<and> \<not> (\<exists>c. ghost_child E s h c)"
proof -
  from get_filtered_block_tree_spec [OF assms, of E] obtain bs where
    bs: "get_filtered_block_tree E s = Some bs" "distinct (map fst bs)"
      "map_of bs = (\<lambda>x. if viable E s x \<and> visits s (effective_base s) x then get_block s x else None)"
    by blast
  have idx: "c \<in> set (unwrap_or (children_index bs h) []) \<longleftrightarrow> ghost_child E s h c"
    if "visits s (effective_base s) h" for h c
    using that by (rule filtered_children [OF assms bs(2,3)])
  have nonempty: "children_index bs h \<noteq> Some []" for h by (auto dest: children_index_nonempty)
  show ?thesis
  proof (cases "get_block s (effective_base s)")
    case None
    then have stuck: "\<not> (\<exists>c. ghost_child E s (effective_base s) c)"
      by (simp add: ghost_child_def sound_def)
    have "children_index bs (effective_base s) = None"
    proof (cases "children_index bs (effective_base s)")
      case (Some cs)
      then obtain y where "y \<in> set cs" using nonempty [of "effective_base s"] by (cases cs) auto
      then show ?thesis using idx [OF visits.here, of y] Some stuck by auto
    qed
    with stuck show ?thesis
      using bs(1) by (auto simp: get_head_def get_head_loop_leaf)
  next
    case (Some b)
    show ?thesis
      using get_head_loop_spec [OF assms Some visits.here memo_ok_empty idx nonempty] bs(1)
      by (simp add: get_head_def)
  qed
qed

lemma ghost_path_sound:
  assumes "wf_store s" and "get_block s r = Some b" and "(ghost_step E s)\<^sup>*\<^sup>* r h"
  shows "h = r \<or> viable E s h"
    and "get_ancestor s h (b_slot b) = Some r"
proof -
  show "h = r \<or> viable E s h"
    using assms(3) by (cases rule: rtranclp.cases) (auto simp: ghost_step_def ghost_child_def)
  from assms(3) have "\<exists>d. get_block s h = Some d \<and> b_slot b \<le> b_slot d \<and> get_ancestor s h (b_slot b) = Some r"
  proof (induction rule: rtranclp_induct)
    case base
    then show ?case using assms(2) by (simp add: pharos_simps)
  next
    case (step h c)
    then obtain d where d: "get_block s h = Some d" "b_slot b \<le> b_slot d"
      "get_ancestor s h (b_slot b) = Some r" by blast
    have child: "is_child s h c" using step.hyps(2) by (simp add: ghost_step_def ghost_child_def)
    then obtain e where e: "get_block s c = Some e" "b_slot d < b_slot e"
      using is_child_slot [OF assms(1) _ d(1)] by blast
    moreover have "b_parent_root e = h" using child e(1) by (simp add: is_child_def)
    ultimately show ?case using d by (auto simp: pharos_simps)
  qed
  then show "get_ancestor s h (b_slot b) = Some r" by blast
qed

lemma viable_end_leaf:
  assumes "viable E s h" and "\<not> (\<exists>c. ghost_child E s h c)"
  shows "\<not> (\<exists>c. is_child s h c)" and "is_viable_leaf E s h = Some True"
  using assms by (auto simp: ghost_child_def elim: viableE)

lemma ghost_step_unique: "ghost_step E s r c \<Longrightarrow> ghost_step E s r d \<Longrightarrow> c = d"
  unfolding ghost_step_def by (meson Pair_inject antisym)

lemma ghost_end_unique:
  assumes "(ghost_step E s)\<^sup>*\<^sup>* r h" and "\<not> (\<exists>c. ghost_child E s h c)"
    and "(ghost_step E s)\<^sup>*\<^sup>* r h'" and "\<not> (\<exists>c. ghost_child E s h' c)"
  shows "h = h'"
  using assms(1,3)
proof (induction rule: converse_rtranclp_induct)
  case base
  then show ?case using assms(2) by (auto elim: converse_rtranclpE simp: ghost_step_def)
next
  case (step r c)
  from step.prems show ?case
  proof (cases rule: converse_rtranclpE)
    case base
    then show ?thesis using step.hyps(1) assms(4) by (auto simp: ghost_step_def)
  next
    case (step d)
    then show ?thesis using ghost_step_unique step.IH \<open>ghost_step E s r c\<close> by metis
  qed
qed

section \<open>Votes of siblings\<close>

definition votes :: "store \<Rightarrow> root \<Rightarrow> u64 \<Rightarrow> bool" where
  "votes s r i \<longleftrightarrow> votes_for s r i = Some True"

lemma votes_iff:
  "votes s r i \<longleftrightarrow> (\<exists>msg. fc_latest_messages s i = Some msg \<and> i \<notin> fc_equivocating_indices s
                        \<and> get_ancestor s (lm_root msg) (block_slot_or_0 s r) = Some r)"
  by (auto simp: votes_def votes_for_def bind_eq_Some_conv split: option.splits if_splits)

lemma votes_for_votes: "wf_store s \<Longrightarrow> votes_for s r i = Some (votes s r i)"
  using votes_for_total [of s r i] by (auto simp: votes_def)

lemma get_attestation_score_eq:
  "wf_store s \<Longrightarrow> get_attestation_score s r st active
     = Some (\<Sum>i\<leftarrow>filter (votes s r) (filter (unslashed st) active). effective_balance_of st i)"
  using filterM_total [of "filter (unslashed st) active" "votes_for s r" "votes s r"]
  by (simp add: get_attestation_score_def votes_for_votes)

lemma votes_parent:
  assumes "wf_store s" and "is_child s p c" and "get_block s p = Some b" and "votes s c i"
  shows "votes s p i"
proof -
  obtain d where d: "get_block s c = Some d" "b_slot b < b_slot d" "b_parent_root d = p"
    using is_child_slot [OF assms(1-3)] assms(2) by (auto simp: is_child_def)
  from assms(4) d(1) obtain msg where msg: "fc_latest_messages s i = Some msg"
      "i \<notin> fc_equivocating_indices s" "get_ancestor s (lm_root msg) (b_slot d) = Some c"
    by (auto simp: votes_iff block_slot_or_0_def)
  have "get_ancestor s (lm_root msg) (b_slot b) = get_ancestor s c (b_slot b)"
    using get_ancestor_compose [OF assms(1) _ msg(3)] d(2) by simp
  also have "\<dots> = Some p" using d assms(3) by (simp add: pharos_simps)
  finally show ?thesis using msg(1,2) assms(3) by (auto simp: votes_iff block_slot_or_0_def)
qed

lemma sibling_ancestor:
  assumes "wf_store s" and "get_block s p = Some b" and "is_child s p c" and "is_child s p d"
    and "get_block s c = Some x" and "get_block s d = Some y" and "b_slot x \<le> b_slot y"
    and "get_ancestor s m (b_slot x) = Some c" and "get_ancestor s m (b_slot y) = Some d"
  shows "c = d"
proof -
  have slots: "b_slot b < b_slot x" and parent: "b_parent_root y = p" and neq: "c \<noteq> p"
    using is_child_slot [OF assms(1,3,2)] assms(2,4,5,6) by (auto simp: is_child_def)
  have "get_ancestor s d (b_slot x) = Some c"
    using get_ancestor_compose [OF assms(1) assms(7,9)] assms(8) by simp
  then show ?thesis
    using slots parent neq assms(2,6,7) by (cases "b_slot x = b_slot y") (auto simp: pharos_simps)
qed

lemma votes_sibling:
  assumes "wf_store s" and "get_block s p = Some b" and "is_child s p c" and "is_child s p d"
    and "votes s c i" and "votes s d i"
  shows "c = d"
proof -
  obtain x y where xy: "get_block s c = Some x" "get_block s d = Some y"
    using assms(3,4) by (auto simp: is_child_def)
  from assms(5,6) xy obtain m where "get_ancestor s m (b_slot x) = Some c" "get_ancestor s m (b_slot y) = Some d"
    by (auto simp: votes_iff block_slot_or_0_def)
  then show ?thesis
    using sibling_ancestor [OF assms(1-4) xy] sibling_ancestor [OF assms(1,2,4,3) xy(2,1)] linear
    by metis
qed

lemma distinct_store_children:
  "wf_store s \<Longrightarrow> distinct (unwrap_or (children_index (fc_blocks s) p) [])"
  using wf_store_distinct [of s] by (simp add: children_index_list distinct_map_filter)

section \<open>Iteration order\<close>

text \<open>Two stores that differ only in the order of their list of blocks.\<close>

definition reordered :: "store \<Rightarrow> store \<Rightarrow> bool" where
  "reordered s s' \<longleftrightarrow>
     wf_store s \<and> wf_store s' \<and> get_block s' = get_block s \<and> s' = s\<lparr>fc_blocks := fc_blocks s'\<rparr>"

lemma reordered_sym: "reordered s s' \<Longrightarrow> reordered s' s"
  unfolding reordered_def by (metis store.surjective store.update_convs(9))

lemma reordered_eq: "reordered s s' \<Longrightarrow> s' = s\<lparr>fc_blocks := fc_blocks s'\<rparr>"
  by (simp add: reordered_def)

lemma reordered_get_block: "reordered s s' \<Longrightarrow> get_block s' = get_block s"
  by (simp add: reordered_def)

lemma reordered_fields:
  assumes "reordered s s'"
  shows "fc_payload_statuses s' = fc_payload_statuses s"
    and "fc_latest_messages s' = fc_latest_messages s"
    and "fc_equivocating_indices s' = fc_equivocating_indices s"
    and "fc_checkpoint_states s' = fc_checkpoint_states s"
    and "fc_block_states s' = fc_block_states s"
    and "fc_unrealized_justifications s' = fc_unrealized_justifications s"
    and "fc_justified_checkpoint s' = fc_justified_checkpoint s"
    and "fc_finalized_checkpoint s' = fc_finalized_checkpoint s"
    and "fc_proposer_boost_root s' = fc_proposer_boost_root s"
    and "get_current_store_epoch E s' = get_current_store_epoch E s"
  by (subst reordered_eq [OF assms], simp add: get_current_store_epoch_def get_current_slot_def
      get_slots_since_genesis_def store_slot_ms_def)+

lemma reordered_ancestor:
  assumes "reordered s s'"
  shows "get_ancestor s' r slot = get_ancestor s r slot"
proof -
  from assms have "wf_store s" by (simp add: reordered_def)
  then show ?thesis
  proof (induction r rule: ancestor_induct)
    case (block r b)
    then show ?case using reordered_get_block [OF assms]
      by (cases "slot < b_slot b") (simp_all add: pharos_simps)
  qed (simp add: pharos_simps reordered_get_block [OF assms])
qed

lemmas reordered_simps = reordered_fields reordered_ancestor reordered_get_block

lemma reordered_weight:
  assumes "reordered s s'"
  shows "weight E s' r = weight E s r"
proof -
  note same = reordered_simps [OF assms]
  have slot: "block_slot_or_0 s' = block_slot_or_0 s"
    by (simp add: fun_eq_iff block_slot_or_0_def same)
  have "votes_for s' = votes_for s" by (simp add: fun_eq_iff votes_for_def slot same cong: option.case_cong if_cong)
  then have score: "get_attestation_score s' = get_attestation_score s"
    by (intro ext) (simp add: get_attestation_score_def)
  have boost: "get_proposer_score E s' = get_proposer_score E s"
    by (simp add: get_proposer_score_def same)
  have active: "active_indices_for_justified E s' = active_indices_for_justified E s"
    by (simp add: active_indices_for_justified_def same)
  show ?thesis
    by (simp add: weight_def get_weight_def get_weight_with_def slot score boost active same
        cong: option.case_cong if_cong)
qed

lemma reordered_leaf: "reordered s s' \<Longrightarrow> is_viable_leaf E s' r = is_viable_leaf E s r"
  by (simp add: is_viable_leaf_def get_voting_source_def get_checkpoint_block_def Let_def reordered_simps
      cong: option.case_cong if_cong)

lemma reordered_child: "reordered s s' \<Longrightarrow> is_child s' r c \<longleftrightarrow> is_child s r c"
  by (simp add: is_child_def reordered_simps)

lemma reordered_sound: "reordered s s' \<Longrightarrow> sound s' r \<longleftrightarrow> sound s r"
  by (simp add: sound_def reordered_simps)

lemma reordered_viable_imp: "viable E s r \<Longrightarrow> reordered s s' \<Longrightarrow> viable E s' r"
proof (induction rule: viable.induct)
  case (leaf r)
  then show ?case by (intro viable.leaf) (simp_all add: reordered_child reordered_leaf reordered_sound)
next
  case (node r c)
  then show ?case by (meson viable.node reordered_child reordered_sound)
qed

lemma reordered_ghost:
  assumes "reordered s s'"
  shows "ghost_child E s' = ghost_child E s" and "ghost_step E s' = ghost_step E s"
proof -
  have "viable E s' r \<longleftrightarrow> viable E s r" for r
    using reordered_viable_imp assms reordered_sym by blast
  then show child: "ghost_child E s' = ghost_child E s"
    by (simp add: fun_eq_iff ghost_child_def reordered_child [OF assms] reordered_sound [OF assms])
  then show "ghost_step E s' = ghost_step E s"
    by (simp add: fun_eq_iff ghost_step_def reordered_weight [OF assms])
qed

lemma reordered_get_head:
  assumes "reordered s s'"
  shows "get_head E s' = get_head E s"
proof -
  have wf: "wf_store s" "wf_store s'" using assms by (simp_all add: reordered_def)
  have "effective_base s' = effective_base s"
    by (simp add: effective_base_def reordered_simps [OF assms])
  then show ?thesis
    using get_head_spec [OF wf(1), of E] get_head_spec [OF wf(2), of E]
    by (auto simp: reordered_ghost [OF assms] dest: ghost_end_unique)
qed

lemma reorder_blocks:
  assumes "wf_store s" and "mset bs = mset (fc_blocks s)"
  shows "reordered s (s\<lparr>fc_blocks := bs\<rparr>)"
proof -
  have set_eq: "set bs = set (fc_blocks s)" using assms(2) by (rule mset_eq_setD)
  have "mset (map fst bs) = mset (map fst (fc_blocks s))" using assms(2) by simp
  then have "distinct (map fst bs)"
    using wf_store_distinct [OF assms(1)] mset_eq_imp_distinct_iff by blast
  moreover from this have "map_of bs = map_of (fc_blocks s)"
    using wf_store_distinct [OF assms(1)] set_eq by (simp add: map_of_inject_set)
  ultimately show ?thesis using assms(1) set_eq
    unfolding reordered_def wf_store_def wf_blocks_def get_block_def
    by (simp del: map_of_eq_Some_iff)
qed

lemma is_head_weak_with_ok:
  assumes "wf_store s" and "memo_ok E s weights"
    and "fc_checkpoint_states s (fc_justified_checkpoint s) = Some st"
  shows "\<exists>weights'. is_head_weak_with E s r (active_indices_for_justified E s) weights
           = Some (weight E s r < calculate_committee_fraction E st REORG_HEAD_WEIGHT_THRESHOLD, weights')
           \<and> memo_ok E s weights'"
  using memo_weight_ok [OF assms(1,2), of r] by (auto simp: is_head_weak_with_def assms(3))

lemma is_parent_strong_with_ok:
  assumes "wf_store s" and "memo_ok E s weights" and "get_block s r = Some b"
    and "fc_checkpoint_states s (fc_justified_checkpoint s) = Some st"
  shows "\<exists>weights'. is_parent_strong_with E s r (active_indices_for_justified E s) weights
           = Some (calculate_committee_fraction E st REORG_PARENT_WEIGHT_THRESHOLD < weight E s (b_parent_root b), weights')"
  using memo_weight_ok [OF assms(1,2), of "b_parent_root b"]
  by (auto simp: is_parent_strong_with_def assms(3,4))

section \<open>Properties\<close>

text \<open>C2: \<^verbatim>\<open>get_head\<close> returns on every well-formed store, and what it returns is the end of the
  greedy path from the base block: each step goes to the child that has the greatest (weight, root)
  among the children kept by \<^verbatim>\<open>filter_block_tree\<close>, and the head itself has no such child.\<close>

theorem get_head_is_ghost_end:
  assumes "wf_store s"
  shows "\<exists>h. get_head E s = Some h \<and> (ghost_step E s)\<^sup>*\<^sup>* (effective_base s) h
           \<and> \<not> (\<exists>c. ghost_child E s h c)"
  using assms by (rule get_head_spec)

theorem get_head_is_ghost_end_witness:
  "\<exists>h. get_head minimal_preset (sample_store sample_chain) = Some h
     \<and> (ghost_step minimal_preset (sample_store sample_chain))\<^sup>*\<^sup>* (effective_base (sample_store sample_chain)) h"
  using get_head_is_ghost_end [OF wf_sample_chain, of minimal_preset] by blast

text \<open>C4: The head is safe to build on.  It is the base block itself, or a stored block below the base
  block, whose payload is not known to be invalid, without any stored child, and which passes the check
  of its justified and finalized checkpoints.\<close>

theorem get_head_safe:
  assumes "wf_store s" and "get_block s (effective_base s) = Some base" and "get_head E s = Some h"
    and "h \<noteq> effective_base s"
  shows "get_block s h \<noteq> None \<and> fc_payload_statuses s h \<noteq> Some Invalid
         \<and> get_ancestor s h (b_slot base) = Some (effective_base s)
         \<and> \<not> (\<exists>c. is_child s h c)
         \<and> is_viable_leaf E s h = Some True"
proof -
  from get_head_spec [OF assms(1), of E] assms(3) have
    path: "(ghost_step E s)\<^sup>*\<^sup>* (effective_base s) h" and stuck: "\<not> (\<exists>c. ghost_child E s h c)" by auto
  from ghost_path_sound [OF assms(1,2) path] assms(4) have "viable E s h" by simp
  then show ?thesis
    using ghost_path_sound(2) [OF assms(1,2) path] viable_end_leaf [OF _ stuck] viable_sound [of E s h]
    by (simp add: sound_def)
qed

theorem get_head_safe_witness:
  "get_head minimal_preset (sample_store sample_chain) = Some 3
   \<and> get_ancestor (sample_store sample_chain) 3 0 = Some 1"
proof -
  have base: "effective_base (sample_store sample_chain) = 1"
    "get_block (sample_store sample_chain) 1 = Some (sample_block 0 0)" by code_simp+
  have head: "get_head minimal_preset (sample_store sample_chain) = Some 3" by code_simp
  show ?thesis
    using get_head_safe [OF wf_sample_chain, unfolded base, OF refl head] head
    by (simp add: sample_block_def)
qed

text \<open>C10: The head does not depend on the order in which the map of blocks is iterated over: every
  reordering of the stored blocks gives the same head.\<close>

theorem get_head_order_independent:
  assumes "wf_store s" and "mset bs = mset (fc_blocks s)"
  shows "get_head E (s\<lparr>fc_blocks := bs\<rparr>) = get_head E s"
  by (rule reordered_get_head [OF reorder_blocks [OF assms]])

theorem get_head_order_independent_witness:
  "get_head minimal_preset ((sample_store sample_chain)\<lparr>fc_blocks := rev sample_chain\<rparr>)
     = get_head minimal_preset (sample_store sample_chain)"
  by (rule get_head_order_independent) (simp_all add: sample_store_def wf_sample_chain [unfolded sample_store_def])

text \<open>C7: Votes are conserved.  The attestation scores of the stored children of a stored block add up
  to no more than the score of the block, as long as the balance of all counted validators fits into
  64 bits; in particular no child outweighs its parent and no vote counts for two siblings.\<close>

theorem children_scores_conserved:
  assumes "wf_store s" and "get_block s p = Some b"
    and "(\<Sum>i\<leftarrow>filter (unslashed st) active. unat (effective_balance_of st i)) < 2 ^ 64"
  shows "\<exists>ws w. mapM (\<lambda>c. get_attestation_score s c st active)
                   (unwrap_or (children_index (fc_blocks s) p) []) = Some ws
           \<and> get_attestation_score s p st active = Some w
           \<and> (\<Sum>x\<leftarrow>ws. unat x) \<le> unat w"
proof -
  let ?cs = "unwrap_or (children_index (fc_blocks s) p) []"
  let ?xs = "filter (unslashed st) active"
  let ?w = "\<lambda>r. \<Sum>i\<leftarrow>filter (votes s r) ?xs. effective_balance_of st i"
  have child: "is_child s p c" if "c \<in> set ?cs" for c
    using that store_children_mem [OF assms(1)] by blast
  have "(\<Sum>i\<leftarrow>filter P ?xs. unat (effective_balance_of st i)) < 2 ^ 64" for P
    using sum_list_filter_le_nat [of "\<lambda>i. unat (effective_balance_of st i)" P ?xs] assms(3) by linarith
  then have nat: "unat (?w r) = (\<Sum>i\<leftarrow>filter (votes s r) ?xs. unat (effective_balance_of st i))" for r
    by (rule unat_sum_list_u64)
  have "(\<Sum>c\<leftarrow>?cs. unat (?w c)) \<le> unat (?w p)"
    unfolding nat
    using distinct_store_children [OF assms(1)]
    by (rule sum_disjoint_filters_le)
       (use child votes_parent [OF assms(1) _ assms(2)] votes_sibling [OF assms(1,2)] in blast)+
  moreover have "mapM (\<lambda>c. get_attestation_score s c st active) ?cs = Some (map ?w ?cs)"
    by (rule mapM_total) (rule get_attestation_score_eq [OF assms(1)])
  ultimately show ?thesis by (simp add: get_attestation_score_eq [OF assms(1)] o_def)
qed

theorem children_scores_conserved_witness:
  "\<exists>ws w. mapM (\<lambda>c. get_attestation_score (sample_store sample_chain) c
              (sample_state 0 [sample_validator, sample_validator]) [0, 1])
            (unwrap_or (children_index (fc_blocks (sample_store sample_chain)) 1) []) = Some ws
        \<and> get_attestation_score (sample_store sample_chain) 1
            (sample_state 0 [sample_validator, sample_validator]) [0, 1] = Some w
        \<and> (\<Sum>x\<leftarrow>ws. unat x) \<le> unat w"
  by (rule children_scores_conserved [OF wf_sample_chain, where b = "sample_block 0 0"])
     (code_simp, simp add: unslashed_def effective_balance_of_def sample_state_def sample_validator_def)

text \<open>The proposer's re-org rule.  With the justified state at hand, \<^verbatim>\<open>get_proposer_head\<close> returns
  the parent of the head exactly when the head does not hold the proposer boost, is from the slot before
  the proposal, weighs less than 20 percent of a committee, and either its proposer equivocated or all
  of the re-org conditions hold: the head was late, the shuffling is stable, the checkpoints are
  competitive, finality is recent, the proposal is on time, the parent is from the slot before the head
  and weighs more than 160 percent of a committee.  Otherwise it returns the head.\<close>

theorem get_proposer_head_rule:
  assumes "wf_store s" and "get_block s head = Some b" and "get_block s (b_parent_root b) = Some p"
    and "fc_checkpoint_states s (fc_justified_checkpoint s) = Some st"
  shows "get_proposer_head E s head slot = Some (
     if fc_proposer_boost_root s \<noteq> head \<and> b_slot b + 1 = slot
        \<and> weight E s head < calculate_committee_fraction E st 20
        \<and> (is_proposer_equivocation s head
           \<or> is_head_late s head \<and> is_shuffling_stable E slot \<and> is_ffg_competitive s head (b_parent_root b)
             \<and> is_finalization_ok E s slot \<and> is_proposing_on_time E s \<and> b_slot p + 1 = b_slot b
             \<and> calculate_committee_fraction E st 160 < weight E s (b_parent_root b))
     then b_parent_root b else head)"
proof -
  obtain ws where weak: "is_head_weak_with E s head (active_indices_for_justified E s) Map.empty
      = Some (weight E s head < calculate_committee_fraction E st 20, ws)" and ws: "memo_ok E s ws"
    using is_head_weak_with_ok [OF assms(1) memo_ok_empty assms(4), of E head]
    by (auto simp: REORG_HEAD_WEIGHT_THRESHOLD_def)
  obtain ws' where "is_parent_strong_with E s head (active_indices_for_justified E s) ws
      = Some (calculate_committee_fraction E st 160 < weight E s (b_parent_root b), ws')"
    using is_parent_strong_with_ok [OF assms(1) ws assms(2,4)]
    by (auto simp: REORG_PARENT_WEIGHT_THRESHOLD_def)
  with weak show ?thesis
    by (auto simp: get_proposer_head_def assms(2,3) Let_def)
qed

text \<open>The late block 3 has a vote less than the threshold asks for, its parent 2 enough.\<close>

definition reorg_store :: store where
  "reorg_store = (sample_store sample_chain)\<lparr>fc_time := 18,
     fc_runtime_cfg := default_runtime_config\<lparr>rc_seconds_per_slot := 6\<rparr>,
     fc_latest_messages := [0 \<mapsto> \<lparr>lm_epoch = 0, lm_root = 2\<rparr>, 1 \<mapsto> \<lparr>lm_epoch = 0, lm_root = 2\<rparr>],
     fc_unrealized_justifications :=
       [2 \<mapsto> \<lparr>cp_epoch = 0, cp_root = 1\<rparr>, 3 \<mapsto> \<lparr>cp_epoch = 0, cp_root = 1\<rparr>]\<rparr>"

lemma wf_reorg_store: "wf_store reorg_store"
  using wf_sample_chain by (simp add: reorg_store_def wf_store_def)

theorem get_proposer_head_rule_witness:
  "get_proposer_head minimal_preset reorg_store 3 3 = Some 2"
proof -
  have block: "get_block reorg_store 3 = Some (sample_block 2 2)"
    "get_block reorg_store (b_parent_root (sample_block 2 2)) = Some (sample_block 1 1)" by code_simp+
  have "fc_checkpoint_states reorg_store (fc_justified_checkpoint reorg_store)
          = Some (sample_state 0 [sample_validator, sample_validator])" by code_simp
  note rule = get_proposer_head_rule [OF wf_reorg_store block this]
  show ?thesis unfolding rule by code_simp
qed

end
