(* ===== verification/FC_Pow_Block.thy ===== *)
theory FC_Pow_Block
  imports FC_Store
begin

text \<open>
  Validation of the merge transition (\<^verbatim>\<open>src/crates/pharos-fork-choice/src/pow_block.rs\<close>).
  The proof-of-work chain is seen through the provider's \<^verbatim>\<open>get_pow_block\<close>, a parameter: its
  production instance asks the execution client.
\<close>

section \<open>Definitions\<close>

record pow_block =
  pb_block_hash :: hash256
  pb_parent_hash :: hash256
  pb_total_difficulty :: "256 word"

datatype pow_block_error = ExecutionLayer string

type_synonym pow_block_provider = "hash256 \<Rightarrow> (pow_block_error, pow_block option) result"

definition noop_pow_block_provider :: pow_block_provider where
  "noop_pow_block_provider hash = Inr None"

definition hash_map_pow_block_provider :: "(hash256 \<rightharpoonup> pow_block) \<Rightarrow> pow_block_provider" where
  "hash_map_pow_block_provider blocks hash = Inr (blocks hash)"

definition is_valid_terminal_pow_block :: "pow_block \<Rightarrow> pow_block \<Rightarrow> 256 word \<Rightarrow> bool" where
  "is_valid_terminal_pow_block block parent ttd \<longleftrightarrow>
     ttd \<le> pb_total_difficulty block \<and> pb_total_difficulty parent < ttd"

datatype validate_merge_block_error =
    ActivationEpochNotReached
  | ParentHashMismatch
  | PowBlockNotFound hash256
  | PowParentNotFound hash256
  | InvalidTerminalPowBlock
  | Provider pow_block_error

text \<open>\<open>provider(hash)?.ok_or(missing)?\<close>\<close>

definition fetch_pow_block ::
  "pow_block_provider \<Rightarrow> hash256 \<Rightarrow> (hash256 \<Rightarrow> validate_merge_block_error)
     \<Rightarrow> (validate_merge_block_error, pow_block) result" where
  "fetch_pow_block pow_provider hash missing =
     (case pow_provider hash of
        Inl e \<Rightarrow> Inl (Provider e)
      | Inr None \<Rightarrow> Inl (missing hash)
      | Inr (Some b) \<Rightarrow> Inr b)"

definition validate_merge_block ::
  "hash256 \<Rightarrow> u64 \<Rightarrow> hash256 \<Rightarrow> u64 \<Rightarrow> 256 word \<Rightarrow> pow_block_provider
     \<Rightarrow> (validate_merge_block_error, unit) result" where
  "validate_merge_block payload_parent_hash current_epoch terminal_block_hash
     terminal_block_hash_activation_epoch terminal_total_difficulty pow_provider =
     (if terminal_block_hash \<noteq> 0 then
        if current_epoch < terminal_block_hash_activation_epoch then Inl ActivationEpochNotReached
        else if payload_parent_hash \<noteq> terminal_block_hash then Inl ParentHashMismatch
        else Inr ()
      else
        bind_result (fetch_pow_block pow_provider payload_parent_hash PowBlockNotFound) (\<lambda>pow_block.
        if pb_parent_hash pow_block = 0 then
          if terminal_total_difficulty \<le> pb_total_difficulty pow_block then Inr ()
          else Inl InvalidTerminalPowBlock
        else
          bind_result (fetch_pow_block pow_provider (pb_parent_hash pow_block) PowParentNotFound) (\<lambda>pow_parent.
          if \<not> is_valid_terminal_pow_block pow_block pow_parent terminal_total_difficulty
          then Inl InvalidTerminalPowBlock
          else Inr ())))"

definition execution_block_hash_at_root :: "store \<Rightarrow> root \<Rightarrow> hash256" where
  "execution_block_hash_at_root s r =
     unwrap_or (Option.bind (get_block s r) get_execution_block_hash) 0"

definition block_is_execution_enabled :: "beacon_block \<Rightarrow> bool" where
  "block_is_execution_enabled block =
     (case get_execution_block_hash block of Some hash \<Rightarrow> hash \<noteq> 0 | None \<Rightarrow> False)"

section \<open>Properties\<close>

lemma fetch_pow_block_Inr: "fetch_pow_block p h missing = Inr b \<longleftrightarrow> p h = Inr (Some b)"
  by (auto simp: fetch_pow_block_def split: sum.splits option.splits)

lemma fetch_pow_block_Inl:
  "fetch_pow_block p h missing = Inl e \<longleftrightarrow>
     p h = Inr None \<and> e = missing h \<or> (\<exists>pe. p h = Inl pe \<and> e = Provider pe)"
  by (auto simp: fetch_pow_block_def split: sum.splits option.splits)

text \<open>A merge block passes \<^verbatim>\<open>validate_merge_block\<close> exactly when its payload builds on a terminal
  block: with a configured terminal block hash, on that hash after its activation epoch; otherwise on
  a known proof-of-work block that reaches the terminal total difficulty and is either the first block
  of its chain or has a known parent below that difficulty.\<close>

theorem validate_merge_block_iff:
  "validate_merge_block parent_hash epoch tbh activation ttd p = Inr () \<longleftrightarrow>
     (if tbh \<noteq> 0 then activation \<le> epoch \<and> parent_hash = tbh
      else \<exists>b. p parent_hash = Inr (Some b) \<and> ttd \<le> pb_total_difficulty b
             \<and> (pb_parent_hash b = 0
                \<or> (\<exists>q. p (pb_parent_hash b) = Inr (Some q) \<and> pb_total_difficulty q < ttd)))"
proof (cases "fetch_pow_block p parent_hash PowBlockNotFound")
  case (Inl e)
  moreover from this have "p parent_hash \<noteq> Inr (Some b)" for b by (auto simp: fetch_pow_block_Inl)
  ultimately show ?thesis by (auto simp: validate_merge_block_def not_less)
next
  case (Inr b)
  moreover from this have b: "p parent_hash = Inr (Some b)" by (simp only: fetch_pow_block_Inr)
  moreover have "bind_result (fetch_pow_block p q PowParentNotFound) f = Inr ()
      \<longleftrightarrow> (\<exists>a. p q = Inr (Some a) \<and> f a = Inr ())" for q f
    by (simp add: bind_result_Inr fetch_pow_block_Inr)
  ultimately show ?thesis
    by (simp add: validate_merge_block_def is_valid_terminal_pow_block_def) (auto simp: not_le not_less)
qed

text \<open>The one error that fork choice forgives, \<^verbatim>\<open>PowBlockNotFound\<close>, is raised only in the
  difficulty mode and only when the provider answers that the payload's parent is unknown; a provider
  failure or an unknown grandparent is never reported that way.\<close>

theorem validate_merge_block_not_found_iff:
  "validate_merge_block parent_hash epoch tbh activation ttd p = Inl (PowBlockNotFound h) \<longleftrightarrow>
     tbh = 0 \<and> h = parent_hash \<and> p parent_hash = Inr None"
proof (cases "fetch_pow_block p parent_hash PowBlockNotFound")
  case (Inl e)
  moreover from this have "p parent_hash = Inr None \<and> e = PowBlockNotFound parent_hash
      \<or> (\<exists>pe. p parent_hash = Inl pe \<and> e = Provider pe)" by (simp only: fetch_pow_block_Inl)
  ultimately show ?thesis by (auto simp: validate_merge_block_def)
next
  case (Inr b)
  moreover from this have "p parent_hash = Inr (Some b)" by (simp only: fetch_pow_block_Inr)
  moreover have "fetch_pow_block p q PowParentNotFound \<noteq> Inl (PowBlockNotFound h)" for q
    by (auto simp: fetch_pow_block_Inl)
  ultimately show ?thesis
    by (cases "fetch_pow_block p (pb_parent_hash b) PowParentNotFound")
       (auto simp: validate_merge_block_def)
qed

end
