(* ===== verification/FC_Handlers.thy ===== *)
theory FC_Handlers
  imports FC_Head FC_Pow_Block Electra_Helpers
begin

text \<open>
  The handlers that change the fork-choice store
  (\<^verbatim>\<open>src/crates/pharos-fork-choice/src/handlers.rs\<close>).

  A handler takes the store and returns the pair of its \<^verbatim>\<open>Result\<close> and the store it leaves behind,
  so that writes made before an error stay visible.  \<open>None\<close> is a panic or divergence.

  Fork choice uses the state transition as a service: it hashes blocks, advances a state to a slot and
  runs justification on a copy of a state.  The record \<open>stf\<close> holds these three functions; the
  handlers are defined and verified for any such service.
\<close>

section \<open>Errors\<close>

text \<open>One constructor per message of \<^verbatim>\<open>InvalidAttestation { reason }\<close>.\<close>

datatype attestation_reason =
    TargetEpochNeitherCurrentNorPrevious u64 u64 u64
  | TargetEpochNotOfSlot u64 u64 u64
  | AttestedBlockAfterSlot u64 u64
  | TargetNotCheckpointBlock
  | AttestationSlotNotInPast u64 u64
  | InvalidIndexedSignature
  | NoAttesters
  | IndicesNotStrictlySorted
  | UnknownValidator
  | DataNotSlashable
  | Attestation1Invalid
  | Attestation2Invalid

datatype fork_choice_error =
    InvalidBlock
  | InvalidAttestationError attestation_reason
  | MissingBlock root
  | BeforeFinalized u64 u64
  | SlotMismatch u64 u64
  | FutureSlot u64 u64
  | StateTransitionFailed state_transition_error
  | EpochProcessingFailed epoch_processing_error
  | InvalidTerminal validate_merge_block_error
  | PowBlockUnavailable hash256

type_synonym outcome = "(fork_choice_error, unit) result"

section \<open>The state transition as a service\<close>

record stf =
  stf_block_root :: "beacon_block \<Rightarrow> root"
  stf_process_slots :: "beacon_state \<Rightarrow> u64 \<Rightarrow> fork_epochs \<Rightarrow> runtime_config
                          \<Rightarrow> (state_transition_error, beacon_state) result"
  stf_justify :: "beacon_state \<Rightarrow> (epoch_processing_error, beacon_state) result"

section \<open>Checkpoints\<close>

definition update_checkpoints :: "checkpoint \<Rightarrow> checkpoint \<Rightarrow> store \<Rightarrow> store" where
  "update_checkpoints justified_checkpoint finalized_checkpoint s =
     (let s = (if cp_epoch (fc_justified_checkpoint s) < cp_epoch justified_checkpoint
               then s\<lparr>fc_justified_checkpoint := justified_checkpoint\<rparr> else s)
      in if cp_epoch (fc_finalized_checkpoint s) < cp_epoch finalized_checkpoint
         then s\<lparr>fc_finalized_checkpoint := finalized_checkpoint\<rparr> else s)"

definition update_unrealized_checkpoints :: "checkpoint \<Rightarrow> checkpoint \<Rightarrow> store \<Rightarrow> store" where
  "update_unrealized_checkpoints unrealized_justified unrealized_finalized s =
     (let s = (if cp_epoch (fc_unrealized_justified_checkpoint s) < cp_epoch unrealized_justified
               then s\<lparr>fc_unrealized_justified_checkpoint := unrealized_justified\<rparr> else s)
      in if cp_epoch (fc_unrealized_finalized_checkpoint s) < cp_epoch unrealized_finalized
         then s\<lparr>fc_unrealized_finalized_checkpoint := unrealized_finalized\<rparr> else s)"

definition compute_pulled_up_tip :: "preset \<Rightarrow> stf \<Rightarrow> root \<Rightarrow> store \<Rightarrow> outcome \<times> store" where
  "compute_pulled_up_tip E T block_root s =
     (case fc_block_states s block_root of
        None \<Rightarrow> (Inl (MissingBlock block_root), s)
      | Some st \<Rightarrow>
          (case stf_justify T st of
             Inl e \<Rightarrow> (Inl (EpochProcessingFailed e), s)
           | Inr st \<Rightarrow>
               let unrealized_justified = st_current_justified_checkpoint st;
                   unrealized_finalized = st_finalized_checkpoint st;
                   s = s\<lparr>fc_unrealized_justifications :=
                           (fc_unrealized_justifications s)(block_root \<mapsto> unrealized_justified)\<rparr>;
                   s = update_unrealized_checkpoints unrealized_justified unrealized_finalized s;
                   block_epoch = unwrap_or (map_option
                     (\<lambda>b. compute_epoch_at_slot (b_slot b) (SLOTS_PER_EPOCH E)) (get_block s block_root)) 0;
                   current_epoch = get_current_store_epoch E s
               in (Inr (), if block_epoch < current_epoch
                           then update_checkpoints unrealized_justified unrealized_finalized s else s)))"

section \<open>Ticks\<close>

definition on_tick_per_slot :: "preset \<Rightarrow> u64 \<Rightarrow> store \<Rightarrow> store" where
  "on_tick_per_slot E time s =
     (let previous_slot = get_current_slot E s;
          s = s\<lparr>fc_time := time\<rparr>;
          current_slot = get_current_slot E s;
          s = (if previous_slot < current_slot then s\<lparr>fc_proposer_boost_root := 0\<rparr> else s)
      in if previous_slot < current_slot \<and> compute_slots_since_epoch_start E current_slot = 0
         then update_checkpoints (fc_unrealized_justified_checkpoint s)
                (fc_unrealized_finalized_checkpoint s) s
         else s)"

partial_function (option) on_tick_loop :: "preset \<Rightarrow> u64 \<Rightarrow> u64 \<Rightarrow> store \<Rightarrow> store option" where
  "on_tick_loop E slot_ms tick_slot s =
     (if get_current_slot E s < tick_slot
      then let previous_time = slot_start_time (get_current_slot E s + 1) (fc_genesis_time s) slot_ms
           in on_tick_loop E slot_ms tick_slot (on_tick_per_slot E previous_time s)
      else Some s)"

declare on_tick_loop.simps [code]

definition on_tick :: "preset \<Rightarrow> u64 \<Rightarrow> store \<Rightarrow> store option" where
  "on_tick E time s =
     (let slot_ms = store_slot_ms E s;
          tick_slot = slot_from_time time (fc_genesis_time s) slot_ms
      in do {
        s \<leftarrow> on_tick_loop E slot_ms tick_slot s;
        Some (on_tick_per_slot E time s)
      })"

section \<open>Blocks\<close>

definition record_block_timeliness :: "preset \<Rightarrow> root \<Rightarrow> store \<Rightarrow> store" where
  "record_block_timeliness E r s =
     (let block_slot = unwrap_or (map_option b_slot (get_block s r)) 0;
          time_into_slot_ms = time_into_current_slot_ms E s;
          attestation_threshold_ms = get_slot_component_duration_ms E (ATTESTATION_DUE_BPS E);
          is_before_attesting_interval = (time_into_slot_ms < attestation_threshold_ms);
          is_timely = (get_current_slot E s = block_slot \<and> is_before_attesting_interval)
      in s\<lparr>fc_block_timeliness := (fc_block_timeliness s)(r \<mapsto> is_timely)\<rparr>)"

definition computed_proposer :: "preset \<Rightarrow> sha256 \<Rightarrow> beacon_state \<Rightarrow> u64 option" where
  "computed_proposer E sha head_state =
     (case st_fork_variant head_state of
        Electra \<Rightarrow> get_beacon_proposer_index_electra E sha head_state
      | Fulu \<Rightarrow> (case proposer_lookahead_at head_state (SLOTS_PER_EPOCH E) of
                   Some i \<Rightarrow> Some i
                 | None \<Rightarrow> get_beacon_proposer_index_electra E sha head_state)
      | _ \<Rightarrow> get_beacon_proposer_index E sha head_state)"

definition update_proposer_boost_root ::
  "preset \<Rightarrow> sha256 \<Rightarrow> stf \<Rightarrow> root \<Rightarrow> store \<Rightarrow> store option" where
  "update_proposer_boost_root E sha T r s =
     (let is_first_block = (fc_proposer_boost_root s = 0);
          is_timely = unwrap_or (fc_block_timeliness s r) False
      in if is_timely \<and> is_first_block then do {
           head_root \<leftarrow> get_head E s;
           case fc_block_states s head_root of
             None \<Rightarrow> Some s
           | Some head_state \<Rightarrow>
               let slot = get_current_slot E s in
               (case (if st_slot head_state < slot
                      then stf_process_slots T head_state slot (store_fork_epochs s) (fc_runtime_cfg s)
                      else Inr head_state) of
                  Inl _ \<Rightarrow> Some s
                | Inr head_state \<Rightarrow>
                    (case get_block s r of
                       None \<Rightarrow> Some s
                     | Some block \<Rightarrow> do {
                         computed \<leftarrow> computed_proposer E sha head_state;
                         Some (if b_proposer_index block = computed
                               then s\<lparr>fc_proposer_boost_root := r\<rparr> else s)
                       }))
         }
         else Some s)"

text \<open>The merge-transition guard of \<^verbatim>\<open>on_block\<close>: an unknown terminal block is let through.\<close>

definition merge_guard :: "preset \<Rightarrow> pow_block_provider \<Rightarrow> store \<Rightarrow> beacon_state \<Rightarrow> beacon_block \<Rightarrow> outcome" where
  "merge_guard E pow_provider s pre_state block =
     (if is_merge_transition_block pre_state block then
        let current_epoch = compute_epoch_at_slot (b_slot block) (SLOTS_PER_EPOCH E);
            payload_parent_hash = unwrap_or (get_execution_payload_parent_hash block) 0
        in (case validate_merge_block payload_parent_hash current_epoch (fc_terminal_block_hash s)
                   (fc_terminal_block_hash_activation_epoch s) (fc_terminal_total_difficulty s) pow_provider of
              Inr _ \<Rightarrow> Inr ()
            | Inl (PowBlockNotFound hash) \<Rightarrow> Inr ()
            | Inl e \<Rightarrow> Inl (InvalidTerminal e))
      else Inr ())"

text \<open>The checks of \<^verbatim>\<open>on_block\<close>, up to the first write to the store.\<close>

definition check_block :: "preset \<Rightarrow> pow_block_provider \<Rightarrow> store \<Rightarrow> beacon_block \<Rightarrow> outcome option" where
  "check_block E pow_provider s block =
     (case fc_block_states s (b_parent_root block) of
        None \<Rightarrow> Some (Inl (MissingBlock (b_parent_root block)))
      | Some pre_state \<Rightarrow>
          let current_slot = get_current_slot E s in
          if current_slot < b_slot block then Some (Inl (FutureSlot current_slot (b_slot block)))
          else
            let finalized_slot =
                  compute_start_slot_at_epoch (cp_epoch (fc_finalized_checkpoint s)) (SLOTS_PER_EPOCH E)
            in if b_slot block \<le> finalized_slot
               then Some (Inl (BeforeFinalized (b_slot block) finalized_slot))
               else do {
                 finalized_checkpoint_block \<leftarrow>
                   get_checkpoint_block E s (b_parent_root block) (cp_epoch (fc_finalized_checkpoint s));
                 if cp_root (fc_finalized_checkpoint s) \<noteq> finalized_checkpoint_block
                 then Some (Inl InvalidBlock)
                 else Some (merge_guard E pow_provider s pre_state block)
               })"

text \<open>The insertion of \<^verbatim>\<open>on_block\<close>, up to the recorded timeliness.\<close>

definition insert_block ::
  "preset \<Rightarrow> root \<Rightarrow> beacon_block \<Rightarrow> beacon_state \<Rightarrow> u64 \<Rightarrow> store \<Rightarrow> store" where
  "insert_block E block_root block post_state now s =
     (let s = s\<lparr>fc_blocks := AList.update block_root block (fc_blocks s)\<rparr>;
          s = s\<lparr>fc_block_states := (fc_block_states s)(block_root \<mapsto> post_state)\<rparr>;
          s = mark_payload_status_if_absent block_root NotValidated s;
          saved_time = fc_time s;
          s = s\<lparr>fc_time := now\<rparr>;
          s = record_block_timeliness E block_root s
      in s\<lparr>fc_time := saved_time\<rparr>)"

definition on_block ::
  "preset \<Rightarrow> sha256 \<Rightarrow> stf \<Rightarrow> signed_beacon_block \<Rightarrow> beacon_state \<Rightarrow> u64 \<Rightarrow> pow_block_provider \<Rightarrow> store
     \<Rightarrow> (outcome \<times> store) option" where
  "on_block E sha T signed_block post_state now pow_provider s =
     (let block = sb_message signed_block in do {
        checked \<leftarrow> check_block E pow_provider s block;
        case checked of
          Inl e \<Rightarrow> Some (Inl e, s)
        | Inr _ \<Rightarrow>
            let block_root = stf_block_root T block;
                s = insert_block E block_root block post_state now s
            in do {
              s \<leftarrow> update_proposer_boost_root E sha T block_root s;
              let s = update_checkpoints (st_current_justified_checkpoint post_state)
                        (st_finalized_checkpoint post_state) s;
              Some (compute_pulled_up_tip E T block_root s)
            }
      })"

section \<open>Attestations\<close>

definition validate_target_epoch_against_current_time :: "preset \<Rightarrow> store \<Rightarrow> attestation_data \<Rightarrow> outcome" where
  "validate_target_epoch_against_current_time E s data =
     (let target = ad_target data;
          current_epoch = get_current_store_epoch E s;
          previous_epoch = (if GENESIS_EPOCH < current_epoch then current_epoch - 1 else GENESIS_EPOCH)
      in if cp_epoch target \<noteq> current_epoch \<and> cp_epoch target \<noteq> previous_epoch
         then Inl (InvalidAttestationError
                (TargetEpochNeitherCurrentNorPrevious (cp_epoch target) current_epoch previous_epoch))
         else Inr ())"

definition validate_on_attestation_data ::
  "preset \<Rightarrow> store \<Rightarrow> attestation_data \<Rightarrow> bool \<Rightarrow> outcome option" where
  "validate_on_attestation_data E s data is_from_block =
     (let target = ad_target data in
      case (if \<not> is_from_block then validate_target_epoch_against_current_time E s data else Inr ()) of
        Inl e \<Rightarrow> Some (Inl e)
      | Inr _ \<Rightarrow>
          let expected_epoch = compute_epoch_at_slot (ad_slot data) (SLOTS_PER_EPOCH E) in
          if cp_epoch target \<noteq> expected_epoch
          then Some (Inl (InvalidAttestationError
                 (TargetEpochNotOfSlot (cp_epoch target) (ad_slot data) expected_epoch)))
          else if get_block s (cp_root target) = None then Some (Inl (MissingBlock (cp_root target)))
          else if get_block s (ad_beacon_block_root data) = None
          then Some (Inl (MissingBlock (ad_beacon_block_root data)))
          else
            let attested_slot = unwrap_or (map_option b_slot (get_block s (ad_beacon_block_root data))) 0 in
            if ad_slot data < attested_slot
            then Some (Inl (InvalidAttestationError (AttestedBlockAfterSlot attested_slot (ad_slot data))))
            else do {
              checkpoint_block \<leftarrow> get_checkpoint_block E s (ad_beacon_block_root data) (cp_epoch target);
              if cp_root target \<noteq> checkpoint_block
              then Some (Inl (InvalidAttestationError TargetNotCheckpointBlock))
              else
                let current_slot = get_current_slot E s in
                if current_slot < ad_slot data + 1
                then Some (Inl (InvalidAttestationError (AttestationSlotNotInPast (ad_slot data) current_slot)))
                else Some (Inr ())
            })"

definition validate_on_attestation :: "preset \<Rightarrow> store \<Rightarrow> attestation \<Rightarrow> bool \<Rightarrow> outcome option" where
  "validate_on_attestation E s att is_from_block =
     validate_on_attestation_data E s (at_data att) is_from_block"

definition store_target_checkpoint_state :: "preset \<Rightarrow> stf \<Rightarrow> checkpoint \<Rightarrow> store \<Rightarrow> outcome \<times> store" where
  "store_target_checkpoint_state E T target s =
     (if fc_checkpoint_states s target \<noteq> None then (Inr (), s)
      else
        (case fc_block_states s (cp_root target) of
           None \<Rightarrow> (Inl (MissingBlock (cp_root target)), s)
         | Some base_state \<Rightarrow>
             let target_slot = compute_start_slot_at_epoch (cp_epoch target) (SLOTS_PER_EPOCH E) in
             (case (if st_slot base_state < target_slot
                    then stf_process_slots T base_state target_slot (store_fork_epochs s) (fc_runtime_cfg s)
                    else Inr base_state) of
                Inl e \<Rightarrow> (Inl (StateTransitionFailed e), s)
              | Inr base_state \<Rightarrow>
                  (Inr (), s\<lparr>fc_checkpoint_states := (fc_checkpoint_states s)(target \<mapsto> base_state)\<rparr>))))"

definition update_latest_message :: "attestation_data \<Rightarrow> u64 \<Rightarrow> store \<Rightarrow> store" where
  "update_latest_message data i s =
     (if i \<in> fc_equivocating_indices s then s
      else
        let should_update = unwrap_or (map_option (\<lambda>msg. lm_epoch msg < cp_epoch (ad_target data))
                                         (fc_latest_messages s i)) True
        in if should_update
           then s\<lparr>fc_latest_messages := (fc_latest_messages s)(i \<mapsto>
                   \<lparr>lm_epoch = cp_epoch (ad_target data), lm_root = ad_beacon_block_root data\<rparr>)\<rparr>
           else s)"

definition update_latest_messages_data :: "u64 list \<Rightarrow> attestation_data \<Rightarrow> store \<Rightarrow> store" where
  "update_latest_messages_data attesting_indices data s =
     fold (update_latest_message data) attesting_indices s"

definition update_latest_messages :: "u64 list \<Rightarrow> attestation \<Rightarrow> store \<Rightarrow> store" where
  "update_latest_messages attesting_indices att s =
     update_latest_messages_data attesting_indices (at_data att) s"

definition on_attestation ::
  "preset \<Rightarrow> crypto \<Rightarrow> stf \<Rightarrow> attestation \<Rightarrow> bool \<Rightarrow> store \<Rightarrow> (outcome \<times> store) option" where
  "on_attestation E cr T att is_from_block s =
     do {
       valid \<leftarrow> validate_on_attestation E s att is_from_block;
       case valid of
         Inl e \<Rightarrow> Some (Inl e, s)
       | Inr _ \<Rightarrow>
           (case store_target_checkpoint_state E T (ad_target (at_data att)) s of
              (Inl e, s) \<Rightarrow> Some (Inl e, s)
            | (Inr _, s) \<Rightarrow>
                (case fc_checkpoint_states s (ad_target (at_data att)) of
                   None \<Rightarrow> Some (Inl (MissingBlock (cp_root (ad_target (at_data att)))), s)
                 | Some target_state \<Rightarrow> do {
                     attesting \<leftarrow> get_attesting_indices E (cr_sha cr) target_state (at_data att)
                                    (at_aggregation_bits att);
                     if 2048 < length attesting then None
                     else
                       let indexed = \<lparr>ia_attesting_indices = sort attesting, ia_data = at_data att,
                                      ia_signature = at_signature att\<rparr>
                       in if \<not> is_valid_indexed_attestation E cr target_state indexed True
                          then Some (Inl (InvalidAttestationError InvalidIndexedSignature), s)
                          else Some (Inr (), update_latest_messages (ia_attesting_indices indexed) att s)
                   }))
     }"

text \<open>The checks on the indexed attestation that \<^verbatim>\<open>on_attestation_electra\<close> spells out.\<close>

definition check_indexed_electra ::
  "preset \<Rightarrow> crypto \<Rightarrow> beacon_state \<Rightarrow> indexed_attestation \<Rightarrow> (attestation_reason, unit) result" where
  "check_indexed_electra E cr target_state indexed =
     (let indices = ia_attesting_indices indexed in
      if indices = [] then Inl NoAttesters
      else if \<not> strictly_sorted indices then Inl IndicesNotStrictlySorted
      else
        let pubkeys = List.map_filter
              (\<lambda>i. map_option v_pubkey (nth_opt (st_validators target_state) (unat i))) indices
        in if length pubkeys \<noteq> length indices then Inl UnknownValidator
           else
             let domain = get_domain E (cr_sha cr) target_state DOMAIN_BEACON_ATTESTER
                   (Some (cp_epoch (ad_target (ia_data indexed))));
                 signing_root = compute_signing_root (cr_sha cr)
                   (attestation_data_root (cr_sha cr) (ia_data indexed)) domain;
                 sig_ok = unwrap_or (fast_aggregate_verify cr pubkeys (hash_bytes signing_root)
                            (ia_signature indexed)) False
             in if \<not> sig_ok then Inl InvalidIndexedSignature else Inr ())"

definition on_attestation_electra ::
  "preset \<Rightarrow> crypto \<Rightarrow> stf \<Rightarrow> attestation_electra \<Rightarrow> bool \<Rightarrow> store \<Rightarrow> (outcome \<times> store) option" where
  "on_attestation_electra E cr T att is_from_block s =
     do {
       valid \<leftarrow> validate_on_attestation_data E s (ate_data att) is_from_block;
       case valid of
         Inl e \<Rightarrow> Some (Inl e, s)
       | Inr _ \<Rightarrow>
           (case store_target_checkpoint_state E T (ad_target (ate_data att)) s of
              (Inl e, s) \<Rightarrow> Some (Inl e, s)
            | (Inr _, s) \<Rightarrow>
                (case fc_checkpoint_states s (ad_target (ate_data att)) of
                   None \<Rightarrow> Some (Inl (MissingBlock (cp_root (ad_target (ate_data att)))), s)
                 | Some target_state \<Rightarrow> do {
                     indexed \<leftarrow> get_indexed_attestation_electra E (cr_sha cr) target_state att;
                     case check_indexed_electra E cr target_state indexed of
                       Inl reason \<Rightarrow> Some (Inl (InvalidAttestationError reason), s)
                     | Inr _ \<Rightarrow>
                         Some (Inr (), update_latest_messages_data (ia_attesting_indices indexed) (ate_data att) s)
                   }))
     }"

section \<open>Slashings\<close>

definition on_attester_slashing ::
  "preset \<Rightarrow> crypto \<Rightarrow> attester_slashing \<Rightarrow> store \<Rightarrow> outcome \<times> store" where
  "on_attester_slashing E cr attester_slashing s =
     (let att1 = as_attestation_1 attester_slashing;
          att2 = as_attestation_2 attester_slashing
      in if \<not> is_slashable_attestation_data (ia_data att1) (ia_data att2)
         then (Inl (InvalidAttestationError DataNotSlashable), s)
         else
           (case fc_block_states s (cp_root (fc_justified_checkpoint s)) of
              None \<Rightarrow> (Inl (MissingBlock (cp_root (fc_justified_checkpoint s))), s)
            | Some st \<Rightarrow>
                if \<not> is_valid_indexed_attestation E cr st att1 True
                then (Inl (InvalidAttestationError Attestation1Invalid), s)
                else if \<not> is_valid_indexed_attestation E cr st att2 True
                then (Inl (InvalidAttestationError Attestation2Invalid), s)
                else
                  let indices1 = set (ia_attesting_indices att1);
                      indices2 = set (ia_attesting_indices att2)
                  in (Inr (), s\<lparr>fc_equivocating_indices :=
                                   fc_equivocating_indices s \<union> (indices1 \<inter> indices2)\<rparr>)))"

definition should_override_forkchoice_update :: "store \<Rightarrow> bool" where
  "should_override_forkchoice_update s = False"

end
