(* ===== verification/FC_Ticks.thy ===== *)
theory FC_Ticks
  imports FC_Handlers
begin

text \<open>
  The slot-by-slot catch-up of \<^verbatim>\<open>on_tick\<close>
  (\<^verbatim>\<open>src/crates/pharos-fork-choice/src/handlers.rs\<close>, lines 130 to 166): the loop ends, and its
  net effect is a single jump.
\<close>

section \<open>Pulling up checkpoints\<close>

definition pull_up :: "bool \<Rightarrow> store \<Rightarrow> store" where
  "pull_up crossed s =
     (if crossed
      then update_checkpoints (fc_unrealized_justified_checkpoint s) (fc_unrealized_finalized_checkpoint s) s
      else s)"

text \<open>The store after a jump of its clock: \<open>advanced\<close> to a later slot, \<open>crossed\<close> into a later epoch.\<close>

definition tick_to :: "u64 \<Rightarrow> bool \<Rightarrow> bool \<Rightarrow> store \<Rightarrow> store" where
  "tick_to time advanced crossed s =
     pull_up crossed (s\<lparr>fc_time := time,
       fc_proposer_boost_root := (if advanced then 0 else fc_proposer_boost_root s)\<rparr>)"

lemma update_checkpoints_fields [simp]:
  "fc_time (update_checkpoints j f s) = fc_time s"
  "fc_genesis_time (update_checkpoints j f s) = fc_genesis_time s"
  "fc_runtime_cfg (update_checkpoints j f s) = fc_runtime_cfg s"
  "fc_proposer_boost_root (update_checkpoints j f s) = fc_proposer_boost_root s"
  "fc_unrealized_justified_checkpoint (update_checkpoints j f s) = fc_unrealized_justified_checkpoint s"
  "fc_unrealized_finalized_checkpoint (update_checkpoints j f s) = fc_unrealized_finalized_checkpoint s"
  "fc_blocks (update_checkpoints j f s) = fc_blocks s"
  "fc_block_states (update_checkpoints j f s) = fc_block_states s"
  "fc_latest_messages (update_checkpoints j f s) = fc_latest_messages s"
  "fc_equivocating_indices (update_checkpoints j f s) = fc_equivocating_indices s"
  "fc_checkpoint_states (update_checkpoints j f s) = fc_checkpoint_states s"
  "fc_payload_statuses (update_checkpoints j f s) = fc_payload_statuses s"
  by (simp_all add: update_checkpoints_def Let_def)

lemma update_checkpoints_updates:
  "(update_checkpoints j f s)\<lparr>fc_time := t\<rparr> = update_checkpoints j f (s\<lparr>fc_time := t\<rparr>)"
  "(update_checkpoints j f s)\<lparr>fc_proposer_boost_root := r\<rparr>
     = update_checkpoints j f (s\<lparr>fc_proposer_boost_root := r\<rparr>)"
  by (simp_all add: update_checkpoints_def Let_def)

lemma update_checkpoints_idem:
  "update_checkpoints j f (update_checkpoints j f s) = update_checkpoints j f s"
  by (simp add: update_checkpoints_def Let_def)

lemma tick_to_fields [simp]:
  "fc_time (tick_to t a c s) = t"
  "fc_genesis_time (tick_to t a c s) = fc_genesis_time s"
  "fc_runtime_cfg (tick_to t a c s) = fc_runtime_cfg s"
  by (simp_all add: tick_to_def pull_up_def)

lemma tick_to_tick_to:
  "tick_to t' a' c' (tick_to t a c s) = tick_to t' (a \<or> a') (c \<or> c') s"
  by (simp add: tick_to_def pull_up_def update_checkpoints_updates update_checkpoints_idem)

section \<open>One slot\<close>

lemma current_slot_eq:
  "get_current_slot E s = slot_from_time (fc_time s) (fc_genesis_time s) (store_slot_ms E s)"
  by (simp add: get_current_slot_def get_slots_since_genesis_def)

lemma store_slot_ms_cong: "fc_runtime_cfg s' = fc_runtime_cfg s \<Longrightarrow> store_slot_ms E s' = store_slot_ms E s"
  by (simp add: store_slot_ms_def)

lemma current_slot_tick_to:
  "get_current_slot E (tick_to t a c s) = slot_from_time t (fc_genesis_time s) (store_slot_ms E s)"
  by (simp add: current_slot_eq store_slot_ms_cong [of "tick_to t a c s" s])

lemma slots_since_epoch_start_0:
  "compute_slots_since_epoch_start E slot = 0 \<longleftrightarrow> unat slot mod unat (SLOTS_PER_EPOCH E) = 0"
proof -
  have "slot - slot div S * S = slot mod S" for S :: u64 by (rule minus_div_mult_eq_mod)
  then show ?thesis
    by (simp add: compute_slots_since_epoch_start_def compute_epoch_at_slot_def
        compute_start_slot_at_epoch_def word_unat_eq_iff unat_mod)
qed

lemma on_tick_per_slot_eq:
  fixes E s t
  defines "slot \<equiv> slot_from_time t (fc_genesis_time s) (store_slot_ms E s)"
  shows "on_tick_per_slot E t s =
    tick_to t (get_current_slot E s < slot)
      (get_current_slot E s < slot \<and> unat slot mod unat (SLOTS_PER_EPOCH E) = 0) s"
proof -
  have "get_current_slot E (s\<lparr>fc_time := t\<rparr>) = slot"
    by (simp add: current_slot_eq slot_def store_slot_ms_def)
  then show ?thesis
    by (simp add: on_tick_per_slot_def tick_to_def pull_up_def slots_since_epoch_start_0)
qed

section \<open>The loop\<close>

lemma div_less_Suc:
  fixes S :: nat
  assumes "a < b"
  shows "a div S < b div S \<longleftrightarrow> Suc a mod S = 0 \<or> Suc a div S < b div S"
proof (cases "Suc a mod S = 0")
  case True
  moreover have "Suc a div S \<le> b div S" using assms by (intro div_le_mono) simp
  ultimately show ?thesis by (simp add: div_Suc)
qed (simp add: div_Suc)

definition clock_ok :: "u64 \<Rightarrow> u64 \<Rightarrow> u64 \<Rightarrow> bool" where
  "clock_ok genesis slot_ms slot \<longleftrightarrow>
     slot_ms mod 1000 = 0 \<and> 0 < slot_ms \<and> unat genesis + unat slot * unat slot_ms < 2 ^ 64"

lemma clock_ok_mono: "clock_ok g ms slot \<Longrightarrow> slot' \<le> slot \<Longrightarrow> clock_ok g ms slot'"
  unfolding clock_ok_def word_le_nat_alt
  by (meson add_left_mono le_less_trans mult_le_mono1)

lemma on_tick_loop_eq:
  assumes "clock_ok (fc_genesis_time s) (store_slot_ms E s) tick_slot"
    and "get_current_slot E s < tick_slot"
  shows "on_tick_loop E (store_slot_ms E s) tick_slot s =
    Some (tick_to (slot_start_time tick_slot (fc_genesis_time s) (store_slot_ms E s)) True
      (unat (get_current_slot E s) div unat (SLOTS_PER_EPOCH E) < unat tick_slot div unat (SLOTS_PER_EPOCH E)) s)"
  using assms
proof (induction "unat tick_slot - unat (get_current_slot E s)" arbitrary: s rule: less_induct)
  case less
  let ?ms = "store_slot_ms E s" and ?g = "fc_genesis_time s" and ?cur = "get_current_slot E s"
  let ?S = "unat (SLOTS_PER_EPOCH E)"
  let ?t = "slot_start_time (?cur + 1) ?g ?ms"
  let ?s = "tick_to ?t True (Suc (unat ?cur) mod ?S = 0) s"
  have lt: "unat ?cur < unat tick_slot" using less.prems(2) by (simp add: word_less_nat_alt)
  have "unat tick_slot < 2 ^ 64" by simp
  with lt have "unat ?cur + 1 < 2 ^ 64" by linarith
  then have Suc: "unat (?cur + 1) = Suc (unat ?cur)" using unat_Suc_u64 [of ?cur] by linarith
  have "?cur + 1 \<le> tick_slot" using lt Suc by (simp add: word_le_nat_alt)
  with less.prems(1) have ok: "clock_ok ?g ?ms (?cur + 1)" by (rule clock_ok_mono)
  then have slot: "slot_from_time ?t ?g ?ms = ?cur + 1"
    unfolding clock_ok_def by (intro slot_from_start_time_eq) simp_all
  have "?cur < ?cur + 1" using Suc by (simp add: word_less_nat_alt)
  then have step: "on_tick_per_slot E ?t s = ?s" by (simp add: on_tick_per_slot_eq slot Suc)
  then have unfold: "on_tick_loop E ?ms tick_slot s = on_tick_loop E ?ms tick_slot ?s"
    using less.prems(2) by (subst on_tick_loop.simps) (simp add: Let_def)
  have cur': "get_current_slot E ?s = ?cur + 1" by (simp add: current_slot_tick_to slot)
  have ms': "store_slot_ms E ?s = ?ms" by (rule store_slot_ms_cong) simp
  note crossed = div_less_Suc [OF lt, of ?S]
  show ?case
  proof (cases "?cur + 1 < tick_slot")
    case True
    have "unat tick_slot - unat (get_current_slot E ?s) < unat tick_slot - unat ?cur"
      using lt by (simp add: cur' Suc)
    from less.hyps [OF this] less.prems(1) True show ?thesis
      by (simp add: unfold ms' cur' tick_to_tick_to Suc crossed)
  next
    case False
    then have last: "tick_slot = ?cur + 1"
      using lt Suc by (simp add: word_unat_eq_iff word_less_nat_alt)
    then have "Suc (unat ?cur) div ?S < unat tick_slot div ?S \<longleftrightarrow> False" using Suc by simp
    then show ?thesis
      using last crossed by (subst unfold, subst on_tick_loop.simps) (simp add: cur')
  qed
qed

section \<open>Properties\<close>

lemma store_slot_ms_whole:
  assumes "wf_preset E" and "unat (rc_seconds_per_slot (fc_runtime_cfg s)) * 1000 < 2 ^ 64"
  shows "store_slot_ms E s mod 1000 = 0" and "0 < store_slot_ms E s"
proof -
  let ?k = "rc_seconds_per_slot (fc_runtime_cfg s)"
  have u: "unat (saturating_mul ?k 1000) = unat ?k * 1000"
    using assms(2) by (simp add: unat_saturating_mul)
  then have "saturating_mul ?k 1000 mod 1000 = 0" by (simp add: word_unat_eq_iff unat_mod)
  moreover have "0 < SLOT_DURATION_MS E" "SLOT_DURATION_MS E mod 1000 = 0"
    using assms(1) by (auto simp: wf_preset_def word_le_nat_alt word_less_nat_alt)
  ultimately show "store_slot_ms E s mod 1000 = 0" "0 < store_slot_ms E s"
    by (auto simp: store_slot_ms_def Let_def word_neq_0_conv)
qed

lemma tick_slot_bound:
  assumes "unat time * 1000 < 2 ^ 64" and "0 < slot_ms"
  shows "slot_from_time time genesis slot_ms = 0
         \<or> unat genesis + unat (slot_from_time time genesis slot_ms) * unat slot_ms < 2 ^ 64"
proof (cases "genesis \<le> time")
  case False
  then have "saturating_sub time genesis = 0" by (simp add: saturating_sub_def not_le)
  then show ?thesis by (simp add: slot_from_time_def)
next
  case True
  let ?d = "saturating_sub time genesis"
  have g: "unat genesis \<le> unat time" using True by (simp add: word_le_nat_alt)
  have d: "unat ?d = unat time - unat genesis" by simp
  have "unat ?d * 1000 < 2 ^ 64" using assms(1) d by linarith
  then have d1000: "unat (?d * 1000) = unat ?d * 1000" using unat_mult_u64 [of ?d 1000] by simp
  have "max slot_ms 1 = slot_ms" using assms(2) by (intro max_absorb1) (simp add: word_le_nat_alt word_less_nat_alt)
  then have "unat (slot_from_time time genesis slot_ms) * unat slot_ms
      = unat ?d * 1000 div unat slot_ms * unat slot_ms"
    by (simp add: slot_from_time_def unat_div d1000)
  also have "\<dots> \<le> unat ?d * 1000" by (rule div_times_less_eq_dividend)
  finally show ?thesis using assms(1) d g by linarith
qed

text \<open>C15: \<^verbatim>\<open>on_tick\<close> always returns, and catching up slot by slot amounts to one jump: the time is set,
  the proposer boost is dropped if and only if the clock moves to a later slot, and the unrealized
  checkpoints are pulled up if and only if it moves to a later epoch.  Nothing else in the store
  changes.  The bounds say that a slot lasts less than \<open>2 ^ 64\<close> milliseconds and that the time in
  milliseconds fits into 64 bits.\<close>

theorem on_tick_is_one_jump:
  fixes E s time
  defines "old \<equiv> get_current_slot E s"
    and "new \<equiv> slot_from_time time (fc_genesis_time s) (store_slot_ms E s)"
  assumes "wf_preset E" and "unat (rc_seconds_per_slot (fc_runtime_cfg s)) * 1000 < 2 ^ 64"
    and "unat time * 1000 < 2 ^ 64"
  shows "on_tick E time s = Some (
           let s' = s\<lparr>fc_time := time,
                      fc_proposer_boost_root := (if old < new then 0 else fc_proposer_boost_root s)\<rparr>
           in if compute_epoch_at_slot old (SLOTS_PER_EPOCH E) < compute_epoch_at_slot new (SLOTS_PER_EPOCH E)
              then update_checkpoints (fc_unrealized_justified_checkpoint s)
                     (fc_unrealized_finalized_checkpoint s) s'
              else s')"
proof -
  let ?ms = "store_slot_ms E s" and ?g = "fc_genesis_time s" and ?S = "unat (SLOTS_PER_EPOCH E)"
  have epoch: "compute_epoch_at_slot old (SLOTS_PER_EPOCH E) < compute_epoch_at_slot new (SLOTS_PER_EPOCH E)
      \<longleftrightarrow> unat old div ?S < unat new div ?S"
    by (simp add: compute_epoch_at_slot_def word_less_nat_alt unat_div)
  have whole: "?ms mod 1000 = 0" "0 < ?ms" using store_slot_ms_whole [OF assms(3,4)] .
  have "on_tick E time s = Some (tick_to time (old < new) (unat old div ?S < unat new div ?S) s)"
  proof (cases "old < new")
    case True
    then have "new \<noteq> 0" by auto
    then have "clock_ok ?g ?ms new"
      using tick_slot_bound [OF assms(5) whole(2), of ?g] whole by (auto simp: clock_ok_def new_def)
    with True have "on_tick_loop E ?ms new s = Some (tick_to (slot_start_time new ?g ?ms) True
        (unat old div ?S < unat new div ?S) s)" and "clock_ok ?g ?ms new"
      by (simp_all add: on_tick_loop_eq old_def)
    moreover from this(2) have "slot_from_time (slot_start_time new ?g ?ms) ?g ?ms = new"
      unfolding clock_ok_def by (intro slot_from_start_time_eq) simp_all
    ultimately show ?thesis
      using True by (simp add: on_tick_def new_def [symmetric] on_tick_per_slot_eq current_slot_tick_to
          store_slot_ms_cong [of "tick_to _ _ _ s" s] tick_to_tick_to)
  next
    case False
    then have "on_tick_loop E ?ms new s = Some s" by (subst on_tick_loop.simps) (simp add: old_def)
    moreover have "\<not> unat old div ?S < unat new div ?S"
      using False by (simp add: not_less word_le_nat_alt div_le_mono)
    ultimately show ?thesis
      using False by (simp add: on_tick_def new_def [symmetric] on_tick_per_slot_eq old_def)
  qed
  then show ?thesis by (simp add: epoch tick_to_def pull_up_def Let_def)
qed

theorem on_tick_is_one_jump_witness:
  "map_option fc_time (on_tick minimal_preset 600 (sample_store sample_chain)) = Some 600"
  by (subst on_tick_is_one_jump)
     (simp_all add: sample_store_def default_runtime_config_def mainnet_preset_def Let_def)

end
