(* ===== verification/FC_Invariants.thy ===== *)
theory FC_Invariants
  imports FC_Ticks
begin

text \<open>
  What every handler of \<^verbatim>\<open>handlers.rs\<close> keeps: the store stays well-formed and only grows.  The
  handlers are the steps of a transition system on stores; the facts are proved for one step and
  extended to every sequence of steps by rule induction.
\<close>

section \<open>Growth of the store\<close>

definition message_le :: "latest_message option \<Rightarrow> latest_message option \<Rightarrow> bool" where
  "message_le m m' \<longleftrightarrow>
     (case m of None \<Rightarrow> True
      | Some x \<Rightarrow> (case m' of None \<Rightarrow> False | Some y \<Rightarrow> x = y \<or> lm_epoch x < lm_epoch y))"

definition extends :: "store \<Rightarrow> store \<Rightarrow> bool" where
  "extends s s' \<longleftrightarrow>
     cp_epoch (fc_justified_checkpoint s) \<le> cp_epoch (fc_justified_checkpoint s')
     \<and> cp_epoch (fc_finalized_checkpoint s) \<le> cp_epoch (fc_finalized_checkpoint s')
     \<and> cp_epoch (fc_unrealized_justified_checkpoint s) \<le> cp_epoch (fc_unrealized_justified_checkpoint s')
     \<and> cp_epoch (fc_unrealized_finalized_checkpoint s) \<le> cp_epoch (fc_unrealized_finalized_checkpoint s')
     \<and> fst ` set (fc_blocks s) \<subseteq> fst ` set (fc_blocks s')
     \<and> dom (fc_block_states s) \<subseteq> dom (fc_block_states s')
     \<and> fc_checkpoint_states s \<subseteq>\<^sub>m fc_checkpoint_states s'
     \<and> fc_equivocating_indices s \<subseteq> fc_equivocating_indices s'
     \<and> (\<forall>i. message_le (fc_latest_messages s i) (fc_latest_messages s' i))
     \<and> (\<forall>i \<in> fc_equivocating_indices s. fc_latest_messages s' i = fc_latest_messages s i)
     \<and> fc_genesis_time s' = fc_genesis_time s"

lemma message_le_refl [simp]: "message_le m m"
  by (cases m) (simp_all add: message_le_def)

lemma message_le_trans: "message_le a b \<Longrightarrow> message_le b c \<Longrightarrow> message_le a c"
  by (auto simp: message_le_def split: option.splits)

lemma extends_refl [simp]: "extends s s"
  by (simp add: extends_def)

lemma extends_trans [trans]: "extends a b \<Longrightarrow> extends b c \<Longrightarrow> extends a c"
  unfolding extends_def
  by (elim conjE, intro conjI) (auto intro: order.trans map_le_trans message_le_trans)

lemma update_checkpoints_extends: "extends s (update_checkpoints j f s)"
  by (auto simp: extends_def update_checkpoints_def Let_def)

lemma update_unrealized_extends: "extends s (update_unrealized_checkpoints j f s)"
  by (auto simp: extends_def update_unrealized_checkpoints_def Let_def)

lemma compute_pulled_up_tip_extends: "extends s (snd (compute_pulled_up_tip E T r s))"
proof -
  have "extends s (update_unrealized_checkpoints j f (s\<lparr>fc_unrealized_justifications := u\<rparr>))" for j f u
    by (rule extends_trans [OF _ update_unrealized_extends]) (simp add: extends_def)
  then show ?thesis
    by (auto simp: compute_pulled_up_tip_def Let_def split: option.splits sum.splits
        intro: extends_trans [OF _ update_checkpoints_extends])
qed

lemma on_tick_per_slot_extends: "extends s (on_tick_per_slot E t s)"
proof -
  have "extends s (s\<lparr>fc_time := t, fc_proposer_boost_root := r\<rparr>)" for r by (simp add: extends_def)
  then show ?thesis
    by (auto simp: on_tick_per_slot_eq tick_to_def pull_up_def intro: extends_trans [OF _ update_checkpoints_extends])
qed

lemma insert_block_extends: "extends s (insert_block E r b st now s)"
  by (auto simp: extends_def insert_block_def record_block_timeliness_def mark_payload_status_if_absent_def
      Let_def update_conv' dom_update split: option.splits)

lemma on_tick_loop_extends:
  assumes "on_tick_loop E ms k s = Some s'"
  shows "extends s s'"
  by (rule on_tick_loop.raw_induct [where P = "\<lambda>_ _ _ s s'. extends s s'", OF _ assms])
     (auto simp: Let_def split: if_splits, metis extends_trans on_tick_per_slot_extends)

lemma on_tick_extends: "on_tick E t s = Some s' \<Longrightarrow> extends s s'"
  by (auto simp: on_tick_def Let_def bind_eq_Some_conv
      intro: extends_trans [OF on_tick_loop_extends on_tick_per_slot_extends])

lemma boost_result:
  assumes "update_proposer_boost_root E sha T r s = Some s'"
  shows "s' = s \<or> fc_proposer_boost_root s = 0 \<and> s' = s\<lparr>fc_proposer_boost_root := r\<rparr>"
proof (cases "unwrap_or (fc_block_timeliness s r) False \<and> fc_proposer_boost_root s = 0")
  case True
  with assms obtain head where head: "get_head E s = Some head"
    by (auto simp: update_proposer_boost_root_def Let_def bind_eq_Some_conv)
  show ?thesis
  proof (cases "fc_block_states s head")
    case None
    then show ?thesis using assms True head by (simp add: update_proposer_boost_root_def)
  next
    case (Some hs)
    let ?adv = "if st_slot hs < get_current_slot E s
      then stf_process_slots T hs (get_current_slot E s) (store_fork_epochs s) (fc_runtime_cfg s) else Inr hs"
    show ?thesis
      using assms True head Some
      by (cases ?adv; cases "get_block s r")
         (simp_all add: update_proposer_boost_root_def Let_def bind_eq_Some_conv, auto split: if_splits)
  qed
qed (use assms in \<open>auto simp: update_proposer_boost_root_def Let_def\<close>)

lemma boost_extends: "update_proposer_boost_root E sha T r s = Some s' \<Longrightarrow> extends s s'"
  by (drule boost_result) (auto simp: extends_def)

text \<open>What \<^verbatim>\<open>on_block\<close> does in either of its two branches.\<close>

lemma on_block_cases:
  assumes "on_block E sha T sb post now p s = Some (res, s')"
  obtains (rejected) e where "check_block E p s (sb_message sb) = Some (Inl e)" "res = Inl e" "s' = s"
  | (accepted) s1 where "check_block E p s (sb_message sb) = Some (Inr ())"
      "update_proposer_boost_root E sha T (stf_block_root T (sb_message sb))
         (insert_block E (stf_block_root T (sb_message sb)) (sb_message sb) post now s) = Some s1"
      "(res, s') = compute_pulled_up_tip E T (stf_block_root T (sb_message sb))
         (update_checkpoints (st_current_justified_checkpoint post) (st_finalized_checkpoint post) s1)"
proof -
  from assms obtain c where c: "check_block E p s (sb_message sb) = Some c"
    by (auto simp: on_block_def Let_def bind_eq_Some_conv)
  show thesis
  proof (cases c)
    case (Inl e)
    with assms c have "res = Inl e" "s' = s" by (auto simp: on_block_def)
    with c Inl show thesis by (intro rejected [of e]) simp_all
  next
    case (Inr u)
    with assms c obtain s1 where
      "update_proposer_boost_root E sha T (stf_block_root T (sb_message sb))
         (insert_block E (stf_block_root T (sb_message sb)) (sb_message sb) post now s) = Some s1"
      "(res, s') = compute_pulled_up_tip E T (stf_block_root T (sb_message sb))
         (update_checkpoints (st_current_justified_checkpoint post) (st_finalized_checkpoint post) s1)"
      by (auto simp: on_block_def Let_def bind_eq_Some_conv)
    with c Inr show thesis by (intro accepted) simp_all
  qed
qed

lemma on_block_extends:
  assumes "on_block E sha T sb post now p s = Some (res, s')"
  shows "extends s s'"
  using assms
proof (cases rule: on_block_cases)
  case (accepted s1)
  let ?r = "stf_block_root T (sb_message sb)"
  let ?s2 = "update_checkpoints (st_current_justified_checkpoint post) (st_finalized_checkpoint post) s1"
  have "extends s s1"
    by (rule extends_trans [OF insert_block_extends boost_extends [OF accepted(2)]])
  also have "extends s1 ?s2" by (rule update_checkpoints_extends)
  also have "extends ?s2 s'"
    using compute_pulled_up_tip_extends [of ?s2 E T ?r] by (simp flip: accepted(3))
  finally show ?thesis .
qed simp

lemma store_target_extends:
  "store_target_checkpoint_state E T c s = (res, s') \<Longrightarrow> extends s s'"
  by (auto simp: store_target_checkpoint_state_def extends_def map_le_def Let_def
      split: if_splits option.splits sum.splits)

lemma update_latest_message_extends: "extends s (update_latest_message d i s)"
  by (auto simp: update_latest_message_def extends_def message_le_def Let_def split: option.splits)

lemma update_latest_messages_data_extends: "extends s (update_latest_messages_data ix d s)"
  unfolding update_latest_messages_data_def
proof (induction ix arbitrary: s)
  case (Cons i ix)
  show ?case using extends_trans [OF update_latest_message_extends Cons.IH] by simp
qed simp

text \<open>An attestation handler either leaves the store alone but for a cached checkpoint state, or it
  writes the votes of the attesters.\<close>

lemma on_attestation_cases:
  assumes "on_attestation E cr T att fb s = Some (res, s')"
  obtains (invalid) e where "validate_on_attestation E s att fb = Some (Inl e)" "res = Inl e" "s' = s"
  | (rejected) e r1 where "validate_on_attestation E s att fb = Some (Inr ())" "res = Inl e"
      "store_target_checkpoint_state E T (ad_target (at_data att)) s = (r1, s')"
  | (accepted) s1 st ix where "validate_on_attestation E s att fb = Some (Inr ())" "res = Inr ()"
      "store_target_checkpoint_state E T (ad_target (at_data att)) s = (Inr (), s1)"
      "fc_checkpoint_states s1 (ad_target (at_data att)) = Some st"
      "get_attesting_indices E (cr_sha cr) st (at_data att) (at_aggregation_bits att) = Some ix"
      "is_valid_indexed_attestation E cr st
         \<lparr>ia_attesting_indices = sort ix, ia_data = at_data att, ia_signature = at_signature att\<rparr> True"
      "s' = update_latest_messages_data (sort ix) (at_data att) s1"
proof -
  let ?target = "ad_target (at_data att)"
  from assms obtain v where v: "validate_on_attestation E s att fb = Some v"
    by (auto simp: on_attestation_def bind_eq_Some_conv)
  obtain r1 s1 where t: "store_target_checkpoint_state E T ?target s = (r1, s1)" by fastforce
  show thesis
  proof (cases v)
    case (Inl e)
    with assms v have "res = Inl e" "s' = s" by (auto simp: on_attestation_def)
    with v Inl show thesis by (intro invalid [of e]) simp_all
  next
    case ok: (Inr u)
    note run = assms [unfolded on_attestation_def v Option.bind.simps ok sum.case t prod.case]
    show thesis
    proof (cases "r1 = Inr () \<and> fc_checkpoint_states s1 ?target \<noteq> None")
      case False
      with run obtain e where "res = Inl e" "s' = s1" by (auto split: sum.splits option.splits)
      with v ok t show thesis by (intro rejected [of e r1]) simp_all
    next
      case True
      then obtain st where st: "r1 = Inr ()" "fc_checkpoint_states s1 ?target = Some st" by blast
      note run = run [unfolded st sum.case option.case]
      then obtain ix where ix: "get_attesting_indices E (cr_sha cr) st (at_data att) (at_aggregation_bits att) = Some ix"
        by (auto simp: bind_eq_Some_conv)
      show thesis
      proof (cases "is_valid_indexed_attestation E cr st
         \<lparr>ia_attesting_indices = sort ix, ia_data = at_data att, ia_signature = at_signature att\<rparr> True")
        case True
        with run ix st t v ok show thesis
          by (intro accepted) (auto simp: update_latest_messages_def Let_def split: if_splits)
      next
        case False
        with run ix obtain e where "res = Inl e" "s' = s1" by (auto simp: Let_def split: if_splits)
        with v ok t show thesis by (intro rejected [of e r1]) simp_all
      qed
    qed
  qed
qed

lemma on_attestation_electra_cases:
  assumes "on_attestation_electra E cr T att fb s = Some (res, s')"
  obtains (invalid) e where "validate_on_attestation_data E s (ate_data att) fb = Some (Inl e)"
      "res = Inl e" "s' = s"
  | (rejected) e r1 where "validate_on_attestation_data E s (ate_data att) fb = Some (Inr ())" "res = Inl e"
      "store_target_checkpoint_state E T (ad_target (ate_data att)) s = (r1, s')"
  | (accepted) s1 st ia where "validate_on_attestation_data E s (ate_data att) fb = Some (Inr ())"
      "res = Inr ()"
      "store_target_checkpoint_state E T (ad_target (ate_data att)) s = (Inr (), s1)"
      "fc_checkpoint_states s1 (ad_target (ate_data att)) = Some st"
      "get_indexed_attestation_electra E (cr_sha cr) st att = Some ia"
      "check_indexed_electra E cr st ia = Inr ()"
      "s' = update_latest_messages_data (ia_attesting_indices ia) (ate_data att) s1"
proof -
  let ?target = "ad_target (ate_data att)"
  from assms obtain v where v: "validate_on_attestation_data E s (ate_data att) fb = Some v"
    by (auto simp: on_attestation_electra_def bind_eq_Some_conv)
  obtain r1 s1 where t: "store_target_checkpoint_state E T ?target s = (r1, s1)" by fastforce
  show thesis
  proof (cases v)
    case (Inl e)
    with assms v have "res = Inl e" "s' = s" by (auto simp: on_attestation_electra_def)
    with v Inl show thesis by (intro invalid [of e]) simp_all
  next
    case ok: (Inr u)
    note run = assms [unfolded on_attestation_electra_def v Option.bind.simps ok sum.case t prod.case]
    show thesis
    proof (cases "r1 = Inr () \<and> fc_checkpoint_states s1 ?target \<noteq> None")
      case False
      with run obtain e where "res = Inl e" "s' = s1" by (auto split: sum.splits option.splits)
      with v ok t show thesis by (intro rejected [of e r1]) simp_all
    next
      case True
      then obtain st where st: "r1 = Inr ()" "fc_checkpoint_states s1 ?target = Some st" by blast
      note run = run [unfolded st sum.case option.case]
      then obtain ia where ia: "get_indexed_attestation_electra E (cr_sha cr) st att = Some ia"
        by (auto simp: bind_eq_Some_conv)
      show thesis
      proof (cases "check_indexed_electra E cr st ia")
        case (Inl e)
        with run ia have "res = Inl (InvalidAttestationError e)" "s' = s1" by simp_all
        with v ok t show thesis by (intro rejected [of "InvalidAttestationError e" r1]) simp_all
      next
        case (Inr w)
        with run ia have "res = Inr ()"
          "s' = update_latest_messages_data (ia_attesting_indices ia) (ate_data att) s1" by simp_all
        with Inr ia st t v ok show thesis by (intro accepted) simp_all
      qed
    qed
  qed
qed

lemma on_attestation_extends:
  assumes "on_attestation E cr T att fb s = Some (res, s')"
  shows "extends s s'"
  using assms
  by (cases rule: on_attestation_cases)
     (auto intro: store_target_extends extends_trans [OF store_target_extends update_latest_messages_data_extends])

lemma on_attestation_electra_extends:
  assumes "on_attestation_electra E cr T att fb s = Some (res, s')"
  shows "extends s s'"
  using assms
  by (cases rule: on_attestation_electra_cases)
     (auto intro: store_target_extends extends_trans [OF store_target_extends update_latest_messages_data_extends])

lemma on_attester_slashing_extends: "extends s (snd (on_attester_slashing E cr sl s))"
  by (auto simp: on_attester_slashing_def extends_def Let_def split: option.splits)

end
