(* ===== verification/FC_Optimistic.thy ===== *)
theory FC_Optimistic
  imports FC_Invariants
begin

text \<open>
  Optimistic sync (\<^verbatim>\<open>src/crates/pharos-fork-choice/src/optimistic.rs\<close>): the verdicts of the
  execution client on payloads and how they spread over the block tree.

  The walks towards genesis are loops that end because slots fall along parents, the spread of an
  invalid payload is a breadth-first search that ends because the stored blocks form a forest.  Both are
  \<open>partial_function\<close>s whose termination on well-formed stores is proved.
\<close>

section \<open>Candidates and status\<close>

definition SAFE_SLOTS_TO_IMPORT_OPTIMISTICALLY :: u64 where
  "SAFE_SLOTS_TO_IMPORT_OPTIMISTICALLY = 128"

definition is_optimistic_candidate_block :: "store \<Rightarrow> u64 \<Rightarrow> root \<Rightarrow> u64 \<Rightarrow> bool" where
  "is_optimistic_candidate_block s current_slot parent_root block_slot =
     (if (case get_block s parent_root of
            Some parent_block \<Rightarrow> block_is_execution_enabled parent_block
          | None \<Rightarrow> False)
      then True
      else block_slot + SAFE_SLOTS_TO_IMPORT_OPTIMISTICALLY \<le> current_slot)"

definition is_optimistic :: "store \<Rightarrow> root \<Rightarrow> bool" where
  "is_optimistic s r =
     (case get_block s r of
        None \<Rightarrow> False
      | Some block \<Rightarrow> block_is_execution_enabled block \<and> fc_payload_statuses s r \<noteq> Some Valid)"

section \<open>The invalid block\<close>

partial_function (option) first_exec_loop :: "store \<Rightarrow> root \<Rightarrow> root option \<Rightarrow> root option option" where
  "first_exec_loop s cur first_exec =
     (case get_block s cur of
        None \<Rightarrow> Some first_exec
      | Some block \<Rightarrow>
          let first_exec = (if block_is_execution_enabled block then Some cur else first_exec);
              parent = b_parent_root block
          in if parent = 0 \<or> parent = cur then Some first_exec
             else first_exec_loop s parent first_exec)"

partial_function (option) matching_child_loop ::
  "store \<Rightarrow> hash256 \<Rightarrow> root \<Rightarrow> root \<Rightarrow> root option \<Rightarrow> root option" where
  "matching_child_loop s lvh block_in_question cur prev_child =
     (if execution_block_hash_at_root s cur = lvh then Some (unwrap_or prev_child block_in_question)
      else
        (case get_block s cur of
           None \<Rightarrow> Some block_in_question
         | Some block \<Rightarrow>
             let parent = b_parent_root block in
             if parent = 0 \<or> parent = cur then Some block_in_question
             else matching_child_loop s lvh block_in_question parent (Some cur)))"

declare first_exec_loop.simps [code] matching_child_loop.simps [code]

definition resolve_invalid_block :: "store \<Rightarrow> root \<Rightarrow> hash256 option \<Rightarrow> root option" where
  "resolve_invalid_block s block_in_question latest_valid_hash =
     (case latest_valid_hash of
        None \<Rightarrow> Some block_in_question
      | Some lvh \<Rightarrow>
          if lvh = 0
          then do {
            first_exec \<leftarrow> first_exec_loop s block_in_question None;
            Some (unwrap_or first_exec block_in_question)
          }
          else matching_child_loop s lvh block_in_question block_in_question None)"

section \<open>Spreading a verdict\<close>

partial_function (option) promote_valid_ancestors :: "store \<Rightarrow> root \<Rightarrow> store option" where
  "promote_valid_ancestors s cur =
     (if fc_payload_statuses s cur = Some Valid \<or> fc_payload_statuses s cur = Some Invalid then Some s
      else
        let s = mark_payload_status cur Valid s in
        (case get_block s cur of
           None \<Rightarrow> Some s
         | Some b \<Rightarrow>
             let parent = b_parent_root b in
             if parent = 0 \<or> parent = cur then Some s else promote_valid_ancestors s parent))"

partial_function (option) latest_verified_ancestor :: "store \<Rightarrow> root \<Rightarrow> root option" where
  "latest_verified_ancestor s cur =
     (if \<not> is_optimistic s cur then Some cur
      else
        (case get_block s cur of
           None \<Rightarrow> Some (cp_root (fc_finalized_checkpoint s))
         | Some b \<Rightarrow>
             let parent = b_parent_root b in
             if parent = 0 \<or> parent = cur then Some cur
             else if get_block s parent = None then Some (cp_root (fc_finalized_checkpoint s))
             else latest_verified_ancestor s parent))"

declare promote_valid_ancestors.simps [code] latest_verified_ancestor.simps [code]

definition is_optimistic_node :: "preset \<Rightarrow> store \<Rightarrow> bool option" where
  "is_optimistic_node E s =
     do {
       head \<leftarrow> get_head E s;
       if is_optimistic s head then Some True
       else
         let base = effective_base s in
         Some (head = base
               \<and> (\<exists>(r, b) \<in> set (fc_blocks s).
                     b_parent_root b = base \<and> block_is_execution_enabled b
                     \<and> fc_payload_statuses s r = Some Invalid))
     }"

text \<open>The breadth-first search over the map from parents to children.\<close>

partial_function (option) invalidate_loop ::
  "(root \<Rightarrow> root list option) \<Rightarrow> root list \<Rightarrow> store \<Rightarrow> store option" where
  "invalidate_loop children_of queue s =
     (case queue of
        [] \<Rightarrow> Some s
      | r # queue \<Rightarrow>
          let s = mark_payload_status r Invalid s in
          invalidate_loop children_of (queue @ unwrap_or (children_of r) []) s)"

declare invalidate_loop.simps [code]

definition apply_invalid_payload :: "store \<Rightarrow> root \<Rightarrow> hash256 option \<Rightarrow> store option" where
  "apply_invalid_payload s block_in_question latest_valid_hash =
     do {
       invalid_root \<leftarrow> resolve_invalid_block s block_in_question latest_valid_hash;
       invalidate_loop (children_index (fc_blocks s)) [invalid_root] s
     }"

section \<open>Marking\<close>

lemma mark_payload_status_fields [simp]:
  "fc_blocks (mark_payload_status r v s) = fc_blocks s"
  "get_block (mark_payload_status r v s) = get_block s"
  "fc_payload_statuses (mark_payload_status r v s) = (fc_payload_statuses s)(r \<mapsto> v)"
  "wf_store (mark_payload_status r v s) = wf_store s"
  by (simp_all add: mark_payload_status_def get_block_def fun_eq_iff wf_store_def)

lemma marked_again [simp]:
  "(mark_payload_status r v s)\<lparr>fc_payload_statuses := m\<rparr> = s\<lparr>fc_payload_statuses := m\<rparr>"
  by (simp add: mark_payload_status_def)

section \<open>Invalid payloads reach exactly the descendants\<close>

definition depth_bound :: "store \<Rightarrow> root \<Rightarrow> nat" where
  "depth_bound s r = (case get_block s r of None \<Rightarrow> 2 ^ 64 + 1 | Some b \<Rightarrow> 2 ^ 64 - unat (b_slot b))"

lemma child_depth: "wf_store s \<Longrightarrow> is_child s r c \<Longrightarrow> depth_bound s c < depth_bound s r"
proof -
  assume wf: "wf_store s" and c: "is_child s r c"
  from c obtain d where d: "get_block s c = Some d" by (auto simp: is_child_def)
  show ?thesis
  proof (cases "get_block s r")
    case None
    with d show ?thesis by (simp add: depth_bound_def less_Suc_eq_le)
  next
    case (Some b)
    then have "b_slot b < b_slot d" using is_child_slot [OF wf c Some] d by auto
    with Some d show ?thesis
      using u64_less_bound [of "b_slot d"] by (simp add: depth_bound_def word_less_nat_alt diff_less_mono2)
  qed
qed

abbreviation descends :: "store \<Rightarrow> root \<Rightarrow> root \<Rightarrow> bool" where
  "descends s \<equiv> (is_child s)\<^sup>*\<^sup>*"

definition invalidated :: "store \<Rightarrow> root set \<Rightarrow> root \<rightharpoonup> payload_status" where
  "invalidated s R r = (if \<exists>x \<in> R. descends s x r then Some Invalid else fc_payload_statuses s r)"

lemma descends_unfold: "descends s x r \<longleftrightarrow> r = x \<or> (\<exists>c. is_child s x c \<and> descends s c r)"
  by (metis converse_rtranclp_into_rtranclp converse_rtranclpE rtranclp.rtrancl_refl)

lemma invalidate_loop_spec:
  assumes "wf_store s" and "fc_blocks t = fc_blocks s"
  shows "invalidate_loop (children_index (fc_blocks s)) queue t =
           Some (t\<lparr>fc_payload_statuses :=
             (\<lambda>r. if \<exists>x \<in> set queue. descends s x r then Some Invalid else fc_payload_statuses t r)\<rparr>)"
  using assms(2)
proof (induction "mset (map (depth_bound s) queue)" arbitrary: queue t
    rule: wf_induct_rule [OF wf_mult [OF wf_less]])
  case 1
  show ?case
  proof (cases queue)
    case Nil
    then show ?thesis by (subst invalidate_loop.simps) simp
  next
    case (Cons x q)
    let ?cs = "unwrap_or (children_index (fc_blocks s) x) []"
    let ?t = "mark_payload_status x Invalid t"
    have mem: "c \<in> set ?cs \<longleftrightarrow> is_child s x c" for c by (rule store_children_mem [OF assms(1)])
    have "(mset (map (depth_bound s) (q @ ?cs)), mset (map (depth_bound s) queue)) \<in> mult {(a, b). a < b}"
      using one_step_implies_mult [of "mset (map (depth_bound s) [x])" "mset (map (depth_bound s) ?cs)"
          "{(a, b). a < b}" "mset (map (depth_bound s) q)"] child_depth [OF assms(1)] mem
      by (auto simp: Cons add.commute)
    from 1(1) [OF this, of ?t] 1(2) have
      "invalidate_loop (children_index (fc_blocks s)) (q @ ?cs) ?t =
         Some (?t\<lparr>fc_payload_statuses := (\<lambda>r. if \<exists>y \<in> set (q @ ?cs). descends s y r then Some Invalid
            else fc_payload_statuses ?t r)\<rparr>)" by simp
    moreover have "(\<lambda>r. if \<exists>y \<in> set (q @ ?cs). descends s y r then Some Invalid else fc_payload_statuses ?t r)
        = (\<lambda>r. if \<exists>y \<in> set queue. descends s y r then Some Invalid else fc_payload_statuses t r)"
      by (rule ext) (auto simp: Cons mem descends_unfold [of s x])
    moreover have "invalidate_loop (children_index (fc_blocks s)) queue t
        = invalidate_loop (children_index (fc_blocks s)) (q @ ?cs) ?t"
      by (subst invalidate_loop.simps) (simp add: Cons)
    ultimately show ?thesis by simp
  qed
qed

section \<open>Resolving the invalid block\<close>

definition exec_at :: "store \<Rightarrow> root \<Rightarrow> bool" where
  "exec_at s r \<longleftrightarrow> (\<exists>b. get_block s r = Some b \<and> block_is_execution_enabled b)"

lemma descends_last: "descends s x r \<longleftrightarrow> x = r \<or> (\<exists>p. is_child s p r \<and> descends s x p)"
  by (metis rtranclp.cases rtranclp.rtrancl_into_rtrancl rtranclp.rtrancl_refl)

lemma is_child_parent: "get_block s r = Some b \<Longrightarrow> is_child s p r \<longleftrightarrow> p = b_parent_root b"
  by (auto simp: is_child_def)

lemma descends_missing: "get_block s r = None \<Longrightarrow> descends s x r \<longleftrightarrow> x = r"
  unfolding descends_last [of s x r] by (auto simp: is_child_def)

lemma descends_block:
  "get_block s r = Some b \<Longrightarrow> descends s x r \<longleftrightarrow> x = r \<or> descends s x (b_parent_root b)"
  unfolding descends_last [of s x r] by (auto simp: is_child_parent)

text \<open>The first execution block of a chain: no block before it has execution enabled.\<close>

definition first_exec_of :: "store \<Rightarrow> root \<Rightarrow> root \<Rightarrow> bool" where
  "first_exec_of s r f \<longleftrightarrow>
     exec_at s f \<and> descends s f r \<and> (\<forall>x. descends s x f \<and> x \<noteq> f \<longrightarrow> \<not> exec_at s x)"

lemma first_exec_loop_spec:
  assumes "wf_store s" and "get_block s 0 = None"
  shows "\<exists>res. first_exec_loop s cur acc = Some res
           \<and> ((\<exists>f. res = Some f \<and> first_exec_of s cur f)
              \<or> (\<forall>x. descends s x cur \<longrightarrow> \<not> exec_at s x) \<and> res = acc)"
  using assms(1)
proof (induction cur arbitrary: acc rule: ancestor_induct)
  case (missing r)
  then show ?case
    by (subst first_exec_loop.simps) (simp add: descends_missing exec_at_def)
next
  case (block r b)
  let ?p = "b_parent_root b" and ?acc = "if block_is_execution_enabled b then Some r else acc"
  have neq: "?p \<noteq> r" using wf_store_parent_neq [OF assms(1) block(1)] .
  have exec: "exec_at s r \<longleftrightarrow> block_is_execution_enabled b" using block(1) by (simp add: exec_at_def)
  show ?case
  proof (cases "?p = 0")
    case True
    then have "\<not> exec_at s x" if "descends s x ?p" for x
      using that assms(2) by (auto simp: descends_missing exec_at_def)
    then have "first_exec_of s r r \<or> (\<forall>x. descends s x r \<longrightarrow> \<not> exec_at s x) \<and> \<not> exec_at s r"
      using descends_block [OF block(1)] by (auto simp: first_exec_of_def)
    then show ?thesis
      using True block(1) exec by (subst first_exec_loop.simps) (auto simp: Let_def first_exec_of_def)
  next
    case False
    then have loop: "first_exec_loop s r acc = first_exec_loop s ?p ?acc"
      using block(1) neq by (subst first_exec_loop.simps) (simp add: Let_def)
    from block(2) [of ?acc] obtain res where res: "first_exec_loop s ?p ?acc = Some res" and
      "(\<exists>f. res = Some f \<and> first_exec_of s ?p f) \<or> (\<forall>x. descends s x ?p \<longrightarrow> \<not> exec_at s x) \<and> res = ?acc"
      by blast
    then have "(\<exists>f. res = Some f \<and> first_exec_of s r f) \<or> (\<forall>x. descends s x r \<longrightarrow> \<not> exec_at s x) \<and> res = acc"
      using descends_block [OF block(1)] exec by (auto simp: first_exec_of_def)
    with res loop show ?thesis by auto
  qed
qed

lemma matching_child_loop_spec:
  assumes "wf_store s"
    and "case prev of None \<Rightarrow> cur = biq | Some c \<Rightarrow> is_child s cur c \<and> descends s c biq"
  shows "\<exists>r. matching_child_loop s lvh biq cur prev = Some r
           \<and> (r = biq \<or> descends s r biq \<and> (\<exists>p. is_child s p r \<and> execution_block_hash_at_root s p = lvh))"
  using assms
proof (induction cur arbitrary: prev rule: ancestor_induct)
  case (missing r)
  then show ?case by (subst matching_child_loop.simps) (auto split: option.splits)
next
  case (block r b)
  let ?p = "b_parent_root b"
  have neq: "?p \<noteq> r" using wf_store_parent_neq [OF assms(1) block(1)] .
  show ?case
  proof (cases "execution_block_hash_at_root s r = lvh \<or> ?p = 0")
    case True
    then show ?thesis using block(1,3)
      by (subst matching_child_loop.simps) (auto simp: Let_def split: option.splits)
  next
    case False
    have "is_child s ?p r" using is_child_parent [OF block(1)] by simp
    moreover have "descends s r biq"
      using block(3) by (auto split: option.splits intro: converse_rtranclp_into_rtranclp)
    ultimately show ?thesis using block(2) [of "Some r"] False block(1) neq
      by (subst matching_child_loop.simps) (simp add: Let_def)
  qed
qed

lemma resolve_invalid_block_descends:
  assumes "wf_store s" and "get_block s 0 = None"
  shows "\<exists>r. resolve_invalid_block s biq lvh = Some r \<and> descends s r biq"
proof -
  obtain fe where "first_exec_loop s biq None = Some fe"
    "(\<exists>f. fe = Some f \<and> first_exec_of s biq f) \<or> fe = None"
    using first_exec_loop_spec [OF assms, of biq None] by auto
  moreover have "\<exists>r. matching_child_loop s h biq biq None = Some r \<and> descends s r biq" for h
    using matching_child_loop_spec [OF assms(1), where prev = None and cur = biq and biq = biq and lvh = h] by auto
  ultimately show ?thesis
    by (auto simp: resolve_invalid_block_def first_exec_of_def split: option.splits)
qed

section \<open>Promotion\<close>

definition undecided :: "store \<Rightarrow> root \<Rightarrow> bool" where
  "undecided s r \<longleftrightarrow> fc_payload_statuses s r \<noteq> Some Valid \<and> fc_payload_statuses s r \<noteq> Some Invalid"

inductive promoted :: "store \<Rightarrow> root \<Rightarrow> root \<Rightarrow> bool" for s where
  here: "undecided s r \<Longrightarrow> promoted s r r"
| up: "undecided s r \<Longrightarrow> get_block s r = Some b \<Longrightarrow> b_parent_root b \<noteq> 0 \<Longrightarrow>
         promoted s (b_parent_root b) x \<Longrightarrow> promoted s r x"

inductive_cases promotedE: "promoted s r x"

lemma promoted_unfold:
  "promoted s r x \<longleftrightarrow> undecided s r \<and>
     (x = r \<or> (\<exists>b. get_block s r = Some b \<and> b_parent_root b \<noteq> 0 \<and> promoted s (b_parent_root b) x))"
  by (auto elim: promotedE intro: promoted.intros)

lemma promoted_cong:
  assumes "promoted s r y" and "get_block t = get_block s"
    and "\<And>x. descends s x r \<Longrightarrow> undecided t x \<longleftrightarrow> undecided s x"
  shows "promoted t r y"
  using assms(1,3)
proof (induction rule: promoted.induct)
  case (here r)
  then show ?case by (simp add: promoted.here)
next
  case (up r b x)
  have "promoted t (b_parent_root b) x"
    using up.prems descends_block [OF up.hyps(2)] by (intro up.IH) blast
  with up.hyps(3) show ?case
    by (rule promoted.up [rotated 2]) (use up.hyps up.prems [of r] assms(2) in simp_all)
qed

lemma descends_depth: "descends s a b \<Longrightarrow> wf_store s \<Longrightarrow> depth_bound s b \<le> depth_bound s a"
  by (induction rule: rtranclp_induct) (fastforce dest: child_depth)+

lemma not_descends_parent:
  assumes "wf_store s" and "get_block s r = Some b"
  shows "\<not> descends s r (b_parent_root b)"
  using descends_depth [of s r "b_parent_root b"] assms(1)
    child_depth [OF assms(1), of "b_parent_root b" r] is_child_parent [OF assms(2)] by auto

lemma descends_get_block: "get_block t = get_block s \<Longrightarrow> descends t = descends s"
  by (simp add: is_child_def [abs_def])

lemma promoted_marked:
  assumes "wf_store s" and "get_block s r = Some b"
  shows "promoted (mark_payload_status r v s) (b_parent_root b) x \<longleftrightarrow> promoted s (b_parent_root b) x"
proof -
  let ?t = "mark_payload_status r v s"
  have same: "undecided ?t y \<longleftrightarrow> undecided s y" if "descends s y (b_parent_root b)" for y
    using that not_descends_parent [OF assms] by (cases "y = r") (auto simp: undecided_def)
  have "descends ?t = descends s" by (rule descends_get_block) simp
  then show ?thesis
    using promoted_cong [of ?t _ _ s] promoted_cong [of s _ _ ?t] same by auto
qed

definition promote_effect :: "store \<Rightarrow> root \<Rightarrow> store" where
  "promote_effect s r =
     s\<lparr>fc_payload_statuses := (\<lambda>x. if promoted s r x then Some Valid else fc_payload_statuses s x)\<rparr>"

lemma promote_decided:
  assumes "\<not> undecided s r"
  shows "promote_valid_ancestors s r = Some (promote_effect s r)"
proof -
  have "\<not> promoted s r x" for x using assms by (auto elim: promotedE)
  then have "promote_effect s r = s" by (simp add: promote_effect_def)
  then show ?thesis
    using assms by (subst promote_valid_ancestors.simps) (simp add: undecided_def)
qed

lemma promote_stop:
  assumes "undecided s r" and "\<And>b. get_block s r = Some b \<Longrightarrow> b_parent_root b = 0"
  shows "promote_valid_ancestors s r = Some (promote_effect s r)"
proof -
  have "promoted s r x \<longleftrightarrow> x = r" for x using assms by (auto elim: promotedE intro: promoted.here)
  then have "promote_effect s r = mark_payload_status r Valid s"
    by (simp add: promote_effect_def mark_payload_status_def fun_upd_def)
  then show ?thesis
    using assms by (subst promote_valid_ancestors.simps) (auto simp: undecided_def Let_def split: option.splits)
qed

lemma promote_step:
  assumes "wf_store s" and "undecided s r" and "get_block s r = Some b" and "b_parent_root b \<noteq> 0"
  shows "promote_valid_ancestors s r = promote_valid_ancestors (mark_payload_status r Valid s) (b_parent_root b)"
    and "promote_effect (mark_payload_status r Valid s) (b_parent_root b) = promote_effect s r"
proof -
  have "b_parent_root b \<noteq> r" by (rule wf_store_parent_neq [OF assms(1,3)])
  then show "promote_valid_ancestors s r
      = promote_valid_ancestors (mark_payload_status r Valid s) (b_parent_root b)"
    using assms by (subst promote_valid_ancestors.simps) (simp add: undecided_def Let_def)
  have "promoted s r x \<longleftrightarrow> x = r \<or> promoted s (b_parent_root b) x" for x
    using assms by (auto elim: promotedE intro: promoted.intros)
  then show "promote_effect (mark_payload_status r Valid s) (b_parent_root b) = promote_effect s r"
    by (simp add: promote_effect_def promoted_marked [OF assms(1,3)] fun_eq_iff)
qed

lemma promote_valid_ancestors_spec:
  assumes "wf_store s"
  shows "promote_valid_ancestors s r = Some (promote_effect s r)"
proof -
  have "\<forall>t. get_block t = get_block s \<longrightarrow> wf_store t \<longrightarrow>
          promote_valid_ancestors t r = Some (promote_effect t r)"
    using assms
  proof (induction r rule: ancestor_induct)
    case (missing r)
    then show ?case using promote_decided promote_stop by (metis option.distinct(1))
  next
    case (block r b)
    show ?case
    proof (intro allI impI)
      fix t assume t: "get_block t = get_block s" "wf_store t"
      then have b: "get_block t r = Some b" using block(1) by simp
      show "promote_valid_ancestors t r = Some (promote_effect t r)"
      proof (cases "undecided t r \<and> b_parent_root b \<noteq> 0")
        case True
        then show ?thesis using promote_step [OF t(2) _ b] block(2) t by simp
      next
        case False
        then show ?thesis using promote_decided promote_stop [of t r] b by auto
      qed
    qed
  qed
  with assms show ?thesis by blast
qed

section \<open>Closure of valid chains\<close>

definition valid_closed :: "store \<Rightarrow> bool" where
  "valid_closed s \<longleftrightarrow>
     (\<forall>r b. fc_payload_statuses s r = Some Valid \<and> get_block s r = Some b
            \<and> get_block s (b_parent_root b) \<noteq> None
          \<longrightarrow> fc_payload_statuses s (b_parent_root b) = Some Valid)"

lemma descends_stored: "descends s x r \<Longrightarrow> get_block s x \<noteq> None \<Longrightarrow> get_block s r \<noteq> None"
  by (induction rule: rtranclp_induct) (auto simp: is_child_def)

lemma promoted_descends: "promoted s r x \<Longrightarrow> descends s x r"
proof (induction rule: promoted.induct)
  case (up r b x)
  then show ?case using descends_block [of s r b x] by simp
qed simp

lemma valid_ancestors:
  assumes "wf_store s" and "valid_closed s" and "fc_payload_statuses s r = Some Valid"
    and "descends s x r" and "get_block s x \<noteq> None"
  shows "fc_payload_statuses s x = Some Valid"
  using assms(1,3-)
proof (induction r rule: ancestor_induct)
  case (missing r)
  then show ?case by (simp add: descends_missing)
next
  case (block r b)
  show ?case
  proof (cases "x = r")
    case False
    then have "descends s x (b_parent_root b)" using block descends_block [OF block(1)] by blast
    moreover from this have "get_block s (b_parent_root b) \<noteq> None" using block(5) descends_stored by blast
    ultimately show ?thesis using block assms(2) unfolding valid_closed_def by blast
  qed (use block in simp)
qed

lemma promoted_or_valid:
  assumes "wf_store s" and "valid_closed s" and "get_block s 0 = None"
    and "\<And>y. descends s y r \<Longrightarrow> fc_payload_statuses s y \<noteq> Some Invalid"
    and "descends s x r" and "get_block s x \<noteq> None"
  shows "promoted s r x \<or> fc_payload_statuses s x = Some Valid"
  using assms(1,4-)
proof (induction r rule: ancestor_induct)
  case (missing r)
  then show ?case by (simp add: descends_missing)
next
  case (block r b)
  show ?case
  proof (cases "undecided s r")
    case False
    then have "fc_payload_statuses s r = Some Valid" using block(3) [of r] by (auto simp: undecided_def)
    then show ?thesis using valid_ancestors [OF assms(1,2)] block(4,5) by blast
  next
    case undecided: True
    show ?thesis
    proof (cases "x = r")
      case False
      then have up: "descends s x (b_parent_root b)" using block(4) descends_block [OF block(1)] by blast
      then have "b_parent_root b \<noteq> 0" using block(5) descends_missing [OF assms(3)] assms(3) by auto
      moreover have "promoted s (b_parent_root b) x \<or> fc_payload_statuses s x = Some Valid"
        using block(3) descends_block [OF block(1)] up block(5) by (intro block(2)) blast+
      ultimately show ?thesis using promoted.up [OF undecided block(1)] by blast
    qed (use undecided in \<open>simp add: promoted.here\<close>)
  qed
qed

lemma latest_verified_ancestor_spec:
  assumes "wf_store s"
  shows "\<exists>a. latest_verified_ancestor s r = Some a
           \<and> (\<not> is_optimistic s a \<and> descends s a r
              \<or> a = cp_root (fc_finalized_checkpoint s)
              \<or> descends s a r \<and> (\<exists>b. get_block s a = Some b \<and> b_parent_root b = 0))"
  using assms
proof (induction r rule: ancestor_induct)
  case (missing r)
  then show ?case by (subst latest_verified_ancestor.simps) (simp add: is_optimistic_def)
next
  case (block r b)
  let ?p = "b_parent_root b"
  have neq: "?p \<noteq> r" by (rule wf_store_parent_neq [OF assms block(1)])
  show ?case
  proof (cases "is_optimistic s r \<and> ?p \<noteq> 0 \<and> get_block s ?p \<noteq> None")
    case True
    then have "latest_verified_ancestor s r = latest_verified_ancestor s ?p"
      using block(1) neq by (subst latest_verified_ancestor.simps) (auto simp: Let_def)
    then show ?thesis using block(2) descends_block [OF block(1)] by auto
  next
    case False
    then show ?thesis using block(1) neq
      by (subst latest_verified_ancestor.simps) (auto simp: Let_def)
  qed
qed

section \<open>Properties\<close>

text \<open>C22: An invalid payload takes exactly its subtree with it.  \<^verbatim>\<open>apply_invalid_payload\<close> returns on
  every well-formed store; the block it starts from is the block in question or an ancestor of it, every
  descendant of that block becomes invalid, and nothing else in the store changes.\<close>

theorem apply_invalid_payload_exact:
  assumes "wf_store s" and "get_block s 0 = None"
  shows "\<exists>inv. resolve_invalid_block s biq lvh = Some inv \<and> descends s inv biq
           \<and> apply_invalid_payload s biq lvh =
               Some (s\<lparr>fc_payload_statuses :=
                 (\<lambda>r. if descends s inv r then Some Invalid else fc_payload_statuses s r)\<rparr>)"
proof -
  obtain inv where "resolve_invalid_block s biq lvh = Some inv" "descends s inv biq"
    using resolve_invalid_block_descends [OF assms] by blast
  then show ?thesis
    using invalidate_loop_spec [OF assms(1) refl, of "[inv]"] by (simp add: apply_invalid_payload_def)
qed

lemma sample_chain_no_zero: "get_block (sample_store sample_chain) 0 = None"
  by (simp add: get_block_def sample_store_def sample_chain_def)

theorem apply_invalid_payload_exact_witness:
  "\<exists>inv. resolve_invalid_block (sample_store sample_chain) 2 None = Some inv
     \<and> descends (sample_store sample_chain) inv 2"
  using apply_invalid_payload_exact [OF wf_sample_chain sample_chain_no_zero, of 2 None] by blast

text \<open>C23: After an invalid verdict fork choice leaves the subtree that the verdict condemns, unless the base of
  fork choice is itself in it.  The next head exists; when the base (the justified block) is not a
  descendant of the resolved block, the head is not one either; when it is, every block below the base is
  invalid and the head is the base itself.\<close>

theorem head_avoids_invalid_payload:
  assumes "wf_store s" and "get_block s 0 = None" and "apply_invalid_payload s biq lvh = Some s'"
    and "resolve_invalid_block s biq lvh = Some bad"
  shows "\<exists>h. get_head E s' = Some h
           \<and> (if descends s bad (effective_base s) then h = effective_base s else \<not> descends s bad h)"
proof -
  have s': "s' = s\<lparr>fc_payload_statuses :=
      (\<lambda>r. if descends s bad r then Some Invalid else fc_payload_statuses s r)\<rparr>"
    using invalidate_loop_spec [OF assms(1) refl, of "[bad]"] assms(3,4)
    by (simp add: apply_invalid_payload_def)
  then have "wf_store s'" and base: "effective_base s' = effective_base s"
    using assms(1) by (simp_all add: wf_store_def effective_base_def get_block_def)
  from get_head_spec [OF this(1), of E] obtain h where
    h: "get_head E s' = Some h" "(ghost_step E s')\<^sup>*\<^sup>* (effective_base s) h" unfolding base by blast
  have out: "\<not> descends s bad h" if "h \<noteq> effective_base s"
  proof -
    from h(2) that have "viable E s' h"
      by (cases rule: rtranclp.cases) (auto simp: ghost_step_def ghost_child_def)
    from viable_sound [OF this] show ?thesis by (auto simp: sound_def s' split: if_splits)
  qed
  have "is_child s p c" if "ghost_step E s' p c" for p c
    using that by (auto simp: ghost_step_def ghost_child_def is_child_def get_block_def s')
  then have "descends s (effective_base s) h" using h(2) by (metis mono_rtranclp)
  then have "h = effective_base s" if "descends s bad (effective_base s)"
    using that out rtranclp_trans by metis
  then show ?thesis using h(1) out by auto
qed

theorem head_avoids_invalid_payload_witness:
  "\<exists>s'. apply_invalid_payload (sample_store sample_chain) 2 None = Some s'
        \<and> get_head minimal_preset s' = Some 4 \<and> \<not> descends (sample_store sample_chain) 2 4"
proof -
  let ?s = "sample_store sample_chain"
  have "map_option (get_head minimal_preset) (apply_invalid_payload ?s 2 None) = Some (Some 4)" by code_simp
  then obtain s' where s': "apply_invalid_payload ?s 2 None = Some s'" "get_head minimal_preset s' = Some 4" by auto
  have "resolve_invalid_block ?s 2 None = Some 2" by (simp add: resolve_invalid_block_def)
  note head = head_avoids_invalid_payload [OF wf_sample_chain sample_chain_no_zero s'(1) this, of minimal_preset]
  have base: "effective_base ?s = 1" "get_block ?s 1 = Some (sample_block 0 0)" by code_simp+
  then have "\<not> descends ?s 2 1"
    using descends_missing [OF sample_chain_no_zero, of 2]
    by (auto simp: descends_last [of ?s 2 1] is_child_def sample_block_def)
  with head s' show ?thesis by (simp add: base(1))
qed

text \<open>The table of \<^verbatim>\<open>latestValidHash\<close>.  Without a hash the block in question is the invalid one;
  for the zero hash it is the first block of the chain with execution enabled (the block in question if
  there is none); for another hash it is the child, towards the block in question, of the ancestor with
  that payload hash, or the block in question.\<close>

theorem resolve_invalid_block_table:
  assumes "wf_store s" and "get_block s 0 = None" and "resolve_invalid_block s biq lvh = Some bad"
  shows "case lvh of
           None \<Rightarrow> bad = biq
         | Some h \<Rightarrow>
             if h = 0
             then first_exec_of s biq bad \<or> bad = biq \<and> (\<forall>x. descends s x biq \<longrightarrow> \<not> exec_at s x)
             else bad = biq
               \<or> descends s bad biq \<and> (\<exists>p. is_child s p bad \<and> execution_block_hash_at_root s p = h)"
proof (cases lvh)
  case None
  then show ?thesis using assms(3) by (simp add: resolve_invalid_block_def)
next
  case (Some h)
  show ?thesis
  proof (cases "h = 0")
    case True
    then show ?thesis
      using first_exec_loop_spec [OF assms(1,2), of biq None] assms(3) Some
      by (auto simp: resolve_invalid_block_def)
  next
    case False
    then show ?thesis
      using matching_child_loop_spec [OF assms(1), where prev = None and cur = biq and biq = biq and lvh = h]
        assms(3) Some by (auto simp: resolve_invalid_block_def)
  qed
qed

theorem resolve_invalid_block_table_witness:
  "resolve_invalid_block (sample_store sample_chain) 2 None = Some 2
   \<and> (case (None :: hash256 option) of None \<Rightarrow> (2 :: root) = 2 | Some h \<Rightarrow> False)"
  using resolve_invalid_block_table [OF wf_sample_chain sample_chain_no_zero, of 2 None 2]
  by (simp add: resolve_invalid_block_def)

text \<open>C24: A valid verdict spreads to the whole chain.  If the stored parents of valid blocks are valid
  and no ancestor is invalid, \<^verbatim>\<open>promote_valid_ancestors\<close> returns a store in which every stored
  ancestor is valid, no other status has changed, and stored parents of valid blocks are valid again.\<close>

theorem promote_valid_ancestors_closes:
  assumes "wf_store s" and "get_block s 0 = None" and "valid_closed s"
    and "\<forall>x. descends s x r \<longrightarrow> fc_payload_statuses s x \<noteq> Some Invalid"
  shows "\<exists>s'. promote_valid_ancestors s r = Some s'
           \<and> (\<forall>x. descends s x r \<and> get_block s x \<noteq> None \<longrightarrow> fc_payload_statuses s' x = Some Valid)
           \<and> (\<forall>x. \<not> descends s x r \<longrightarrow> fc_payload_statuses s' x = fc_payload_statuses s x)
           \<and> valid_closed s'"
proof -
  let ?s = "promote_effect s r"
  have status: "fc_payload_statuses ?s x = (if promoted s r x then Some Valid else fc_payload_statuses s x)" for x
    by (simp add: promote_effect_def)
  have block: "get_block ?s = get_block s" by (simp add: promote_effect_def get_block_def fun_eq_iff)
  have chain: "fc_payload_statuses ?s x = Some Valid" if "descends s x r" "get_block s x \<noteq> None" for x
    using promoted_or_valid [OF assms(1,3,2) _ that] assms(4) by (auto simp: status)
  have "fc_payload_statuses ?s (b_parent_root b) = Some Valid"
    if "fc_payload_statuses ?s x = Some Valid" "get_block s x = Some b" "get_block s (b_parent_root b) \<noteq> None" for x b
  proof (cases "promoted s r x")
    case True
    have "descends s (b_parent_root b) x" using descends_block [OF that(2)] by simp
    also have "descends s x r" by (rule promoted_descends [OF True])
    finally show ?thesis using chain that(3) by blast
  next
    case False
    then show ?thesis using that assms(3) by (auto simp: status valid_closed_def)
  qed
  then have "valid_closed ?s" unfolding valid_closed_def block by blast
  then show ?thesis
    using promote_valid_ancestors_spec [OF assms(1), of r] chain promoted_descends [of s r]
    by (auto simp: status)
qed

theorem promote_valid_ancestors_closes_witness:
  "\<exists>s'. promote_valid_ancestors (sample_store sample_chain) 3 = Some s' \<and> valid_closed s'"
proof -
  have "fc_payload_statuses (sample_store sample_chain) = Map.empty" by (simp add: sample_store_def)
  then show ?thesis
    using promote_valid_ancestors_closes [OF wf_sample_chain sample_chain_no_zero, of 3]
    by (auto simp: valid_closed_def)
qed

text \<open>\<^verbatim>\<open>latest_verified_ancestor\<close> returns on every well-formed store, and what it returns is not
  optimistic, as long as the finalized block and the blocks without a parent are not.\<close>

theorem latest_verified_ancestor_verified:
  assumes "wf_store s" and "\<not> is_optimistic s (cp_root (fc_finalized_checkpoint s))"
    and "\<forall>r b. get_block s r = Some b \<and> b_parent_root b = 0 \<longrightarrow> \<not> is_optimistic s r"
  shows "\<exists>a. latest_verified_ancestor s r = Some a \<and> \<not> is_optimistic s a"
  using latest_verified_ancestor_spec [OF assms(1), of r] assms(2,3) by blast

theorem latest_verified_ancestor_verified_witness:
  "\<exists>a. latest_verified_ancestor (sample_store sample_chain) 3 = Some a
     \<and> \<not> is_optimistic (sample_store sample_chain) a"
proof -
  have "\<not> is_optimistic (sample_store sample_chain) r" for r
    by (auto simp: is_optimistic_def get_block_def sample_store_def sample_chain_def sample_block_def
        block_is_execution_enabled_def get_execution_block_hash_def has_execution_payload_def)
  then show ?thesis using latest_verified_ancestor_verified [OF wf_sample_chain] by blast
qed

end
