(* ===== verification/FC_Steps.thy ===== *)
theory FC_Steps
  imports FC_Optimistic
begin

text \<open>
  The fork-choice store as a state machine: every public operation of
  \<^verbatim>\<open>src/crates/pharos-fork-choice\<close> that writes the store is a step.  The store invariant holds
  in every reachable store, and the store only grows along steps.
\<close>

section \<open>The store invariant\<close>

definition store_inv :: "store \<Rightarrow> bool" where
  "store_inv s \<longleftrightarrow> wf_store s \<and> dom (fc_block_states s) = fst ` set (fc_blocks s)"

text \<open>
  What fork choice relies on when it is given a block.  The state transition that produced the
  post-state has checked that the block is later than its parent.  The rest says that block roots do
  not collide: a stored block with this root is this block, and no stored block names an unknown block
  that is only now made known as its parent.
\<close>

definition block_ok :: "stf \<Rightarrow> store \<Rightarrow> beacon_block \<Rightarrow> bool" where
  "block_ok T s block \<longleftrightarrow>
     (\<forall>p. get_block s (b_parent_root block) = Some p \<longrightarrow> b_slot p < b_slot block)
     \<and> (case get_block s (stf_block_root T block) of
          Some b \<Rightarrow> b = block
        | None \<Rightarrow> \<forall>(r, b) \<in> set (fc_blocks s). b_parent_root b \<noteq> stf_block_root T block)"

lemma get_block_dom: "get_block s r \<noteq> None \<longleftrightarrow> r \<in> fst ` set (fc_blocks s)"
  unfolding get_block_def by (simp add: map_of_eq_None_iff)

lemma insert_block_fields [simp]:
  "fc_blocks (insert_block E r b st now s) = AList.update r b (fc_blocks s)"
  "fc_block_states (insert_block E r b st now s) = (fc_block_states s)(r \<mapsto> st)"
  "fc_time (insert_block E r b st now s) = fc_time s"
  "fc_proposer_boost_root (insert_block E r b st now s) = fc_proposer_boost_root s"
  by (simp_all add: insert_block_def record_block_timeliness_def mark_payload_status_if_absent_def Let_def
      split: option.splits)

lemma compute_pulled_up_tip_fields [simp]:
  "fc_blocks (snd (compute_pulled_up_tip E T r s)) = fc_blocks s"
  "fc_block_states (snd (compute_pulled_up_tip E T r s)) = fc_block_states s"
  "fc_proposer_boost_root (snd (compute_pulled_up_tip E T r s)) = fc_proposer_boost_root s"
  by (simp_all add: compute_pulled_up_tip_def update_unrealized_checkpoints_def Let_def
      split: option.splits sum.splits)

lemma update_map_of [simp]: "map_of (AList.update r b bs) = (map_of bs)(r \<mapsto> b)"
  by (simp add: update_conv')

lemma wf_blocks_iff:
  "wf_blocks bs \<longleftrightarrow> distinct (map fst bs) \<and>
     (\<forall>r b p. map_of bs r = Some b \<and> map_of bs (b_parent_root b) = Some p \<longrightarrow> b_slot p < b_slot b)"
  by (auto simp: wf_blocks_def dest: map_of_SomeD)

lemma wf_blocks_insert:
  assumes "wf_blocks bs" and "map_of bs (b_parent_root b) = Some p" and "b_slot p < b_slot b"
    and "case map_of bs r of Some c \<Rightarrow> c = b | None \<Rightarrow> \<forall>(x, c) \<in> set bs. b_parent_root c \<noteq> r"
  shows "wf_blocks (AList.update r b bs)"
proof (cases "map_of bs r")
  case None
  with assms(4) have ref: "b_parent_root c \<noteq> r" if "map_of bs x = Some c" for x c
    using that by (auto dest: map_of_SomeD)
  moreover have "b_parent_root b \<noteq> r" using assms(2) None by auto
  ultimately show ?thesis
    using assms(1-3) by (auto simp: wf_blocks_iff distinct_update)
next
  case (Some c)
  with assms(4) have "(map_of bs)(r \<mapsto> b) = map_of bs" by (simp add: fun_upd_idem)
  then show ?thesis using assms(1) unfolding wf_blocks_iff update_map_of
    by (auto simp: distinct_update simp del: map_of_eq_Some_iff)
qed

lemma check_block_parent:
  "check_block E p s block = Some (Inr ()) \<Longrightarrow> fc_block_states s (b_parent_root block) \<noteq> None"
  by (auto simp: check_block_def split: option.splits)

lemma boost_fields:
  assumes "update_proposer_boost_root E sha T r s = Some s'"
  shows "fc_blocks s' = fc_blocks s" and "fc_block_states s' = fc_block_states s"
  using boost_result [OF assms] by auto

lemma on_block_blocks:
  assumes "on_block E sha T sb post now p s = Some (res, s')"
    and "check_block E p s (sb_message sb) = Some (Inr ())"
  shows "fc_blocks s' = AList.update (stf_block_root T (sb_message sb)) (sb_message sb) (fc_blocks s)"
    and "fc_block_states s' = (fc_block_states s)(stf_block_root T (sb_message sb) \<mapsto> post)"
proof -
  let ?r = "stf_block_root T (sb_message sb)"
  from assms obtain s1 where s1: "update_proposer_boost_root E sha T ?r
      (insert_block E ?r (sb_message sb) post now s) = Some s1"
    and tip: "(res, s') = compute_pulled_up_tip E T ?r
      (update_checkpoints (st_current_justified_checkpoint post) (st_finalized_checkpoint post) s1)"
    by (cases rule: on_block_cases) auto
  from tip have "s' = snd (compute_pulled_up_tip E T ?r
      (update_checkpoints (st_current_justified_checkpoint post) (st_finalized_checkpoint post) s1))"
    by (metis snd_conv)
  then show "fc_blocks s' = AList.update ?r (sb_message sb) (fc_blocks s)"
    and "fc_block_states s' = (fc_block_states s)(?r \<mapsto> post)"
    using boost_fields [OF s1] by simp_all
qed

lemma on_block_inv:
  assumes "on_block E sha T sb post now p s = Some (res, s')" and "block_ok T s (sb_message sb)" and "store_inv s"
  shows "store_inv s'"
proof (cases "check_block E p s (sb_message sb) = Some (Inr ())")
  case True
  let ?b = "sb_message sb"
  from check_block_parent [OF True] assms(3) obtain pb where pb: "get_block s (b_parent_root ?b) = Some pb"
    using get_block_dom [of s "b_parent_root ?b"] by (auto simp: store_inv_def)
  then have "wf_blocks (AList.update (stf_block_root T ?b) ?b (fc_blocks s))"
    using assms(2,3)
    by (intro wf_blocks_insert) (auto simp: block_ok_def store_inv_def wf_store_def get_block_def)
  then show ?thesis
    using assms(3) on_block_blocks [OF assms(1) True]
    by (auto simp: store_inv_def wf_store_def dom_update)
next
  case False
  show ?thesis using assms(1) False assms(3) by (cases rule: on_block_cases) auto
qed

section \<open>Other operations keep the blocks\<close>

definition same_blocks :: "store \<Rightarrow> store \<Rightarrow> bool" where
  "same_blocks s s' \<longleftrightarrow> fc_blocks s' = fc_blocks s \<and> fc_block_states s' = fc_block_states s"

lemma same_blocks_inv: "same_blocks s s' \<Longrightarrow> store_inv s \<Longrightarrow> store_inv s'"
  by (simp add: same_blocks_def store_inv_def wf_store_def)

lemma same_blocks_refl [simp]: "same_blocks s s"
  by (simp add: same_blocks_def)

lemma same_blocks_trans: "same_blocks a b \<Longrightarrow> same_blocks b c \<Longrightarrow> same_blocks a c"
  by (simp add: same_blocks_def)

lemma on_tick_per_slot_same: "same_blocks s (on_tick_per_slot E t s)"
  by (simp add: on_tick_per_slot_eq tick_to_def pull_up_def same_blocks_def)

lemma on_tick_loop_same:
  assumes "on_tick_loop E ms k s = Some s'"
  shows "same_blocks s s'"
  by (rule on_tick_loop.raw_induct [where P = "\<lambda>_ _ _ s s'. same_blocks s s'", OF _ assms])
     (auto simp: Let_def split: if_splits, metis same_blocks_trans on_tick_per_slot_same)

lemma on_tick_same: "on_tick E t s = Some s' \<Longrightarrow> same_blocks s s'"
  by (auto simp: on_tick_def Let_def bind_eq_Some_conv
      intro: same_blocks_trans [OF on_tick_loop_same on_tick_per_slot_same])

lemma store_target_same: "store_target_checkpoint_state E T c s = (res, s') \<Longrightarrow> same_blocks s s'"
  by (auto simp: store_target_checkpoint_state_def same_blocks_def Let_def
      split: if_splits option.splits sum.splits)

lemma update_latest_messages_data_same: "same_blocks s (update_latest_messages_data ix d s)"
proof -
  have "same_blocks s (update_latest_message d i s)" for i s
    by (simp add: update_latest_message_def same_blocks_def Let_def)
  then show ?thesis unfolding update_latest_messages_data_def
    by (induction ix arbitrary: s) (auto intro: same_blocks_trans)
qed

lemma on_attestation_same:
  assumes "on_attestation E cr T att fb s = Some (res, s')"
  shows "same_blocks s s'"
  using assms
  by (cases rule: on_attestation_cases)
     (auto intro: store_target_same same_blocks_trans [OF store_target_same update_latest_messages_data_same])

lemma on_attestation_electra_same:
  assumes "on_attestation_electra E cr T att fb s = Some (res, s')"
  shows "same_blocks s s'"
  using assms
  by (cases rule: on_attestation_electra_cases)
     (auto intro: store_target_same same_blocks_trans [OF store_target_same update_latest_messages_data_same])

lemma on_attester_slashing_same: "same_blocks s (snd (on_attester_slashing E cr sl s))"
  by (simp add: on_attester_slashing_def same_blocks_def Let_def split: option.splits)

text \<open>A verdict on payloads changes nothing but payload statuses.\<close>

definition only_statuses :: "store \<Rightarrow> store \<Rightarrow> bool" where
  "only_statuses s s' \<longleftrightarrow> (\<exists>m. s' = s\<lparr>fc_payload_statuses := m\<rparr>)"

lemma only_statuses_refl: "only_statuses s s"
proof -
  have "s = s\<lparr>fc_payload_statuses := fc_payload_statuses s\<rparr>" by simp
  then show ?thesis unfolding only_statuses_def by blast
qed

lemma only_statuses_trans: "only_statuses a b \<Longrightarrow> only_statuses b c \<Longrightarrow> only_statuses a c"
  by (auto simp: only_statuses_def)

lemma only_statuses_keeps: "only_statuses s s' \<Longrightarrow> extends s s' \<and> same_blocks s s'"
  by (auto simp: only_statuses_def extends_def same_blocks_def)

lemma mark_only_statuses: "only_statuses s (mark_payload_status r v s)"
  by (auto simp: only_statuses_def mark_payload_status_def)

lemma promote_only_statuses:
  assumes "promote_valid_ancestors s r = Some s'"
  shows "only_statuses s s'"
proof (rule promote_valid_ancestors.raw_induct [where P = "\<lambda>s _ s'. only_statuses s s'", OF _ assms])
  fix go s r s'
  assume IH: "\<And>s r s'. go s r = Some s' \<Longrightarrow> only_statuses s s'"
    and run: "(if fc_payload_statuses s r = Some Valid \<or> fc_payload_statuses s r = Some Invalid then Some s
      else let s = mark_payload_status r Valid s
           in case get_block s r of None \<Rightarrow> Some s
              | Some b \<Rightarrow> let parent = b_parent_root b
                         in if parent = 0 \<or> parent = r then Some s else go s parent) = Some s'"
  let ?t = "mark_payload_status r Valid s"
  from run have "s' = s \<or> s' = ?t \<or> (\<exists>p. go ?t p = Some s')"
    by (auto simp: Let_def split: if_splits option.splits)
  then show "only_statuses s s'"
    using IH [of ?t] mark_only_statuses [of s] only_statuses_refl only_statuses_trans by blast
qed

lemma invalidate_only_statuses:
  assumes "invalidate_loop cs q s = Some s'"
  shows "only_statuses s s'"
proof (rule invalidate_loop.raw_induct [where P = "\<lambda>_ _ s s'. only_statuses s s'", OF _ assms])
  fix go cs q s s'
  assume IH: "\<And>cs q s s'. go cs q s = Some s' \<Longrightarrow> only_statuses s s'"
    and run: "(case q of [] \<Rightarrow> Some s | r # q \<Rightarrow> let s = mark_payload_status r Invalid s
                in go cs (q @ unwrap_or (cs r) []) s) = Some s'"
  then show "only_statuses s s'"
    using mark_only_statuses only_statuses_refl only_statuses_trans
    by (cases q) (auto simp: Let_def, blast)
qed

lemma apply_invalid_only_statuses: "apply_invalid_payload s r h = Some s' \<Longrightarrow> only_statuses s s'"
  by (auto simp: apply_invalid_payload_def bind_eq_Some_conv dest: invalidate_only_statuses)

section \<open>Steps\<close>

inductive fc_step :: "preset \<Rightarrow> crypto \<Rightarrow> stf \<Rightarrow> store \<Rightarrow> store \<Rightarrow> bool" for E cr T where
  tick: "on_tick E time s = Some s' \<Longrightarrow> fc_step E cr T s s'"
| block: "on_block E (cr_sha cr) T sb post now p s = Some (res, s') \<Longrightarrow> block_ok T s (sb_message sb) \<Longrightarrow>
            fc_step E cr T s s'"
| attestation: "on_attestation E cr T att fb s = Some (res, s') \<Longrightarrow> fc_step E cr T s s'"
| attestation_electra: "on_attestation_electra E cr T ate fb s = Some (res, s') \<Longrightarrow> fc_step E cr T s s'"
| slashing: "on_attester_slashing E cr sl s = (res, s') \<Longrightarrow> fc_step E cr T s s'"
| verdict: "fc_step E cr T s (mark_payload_status r v s)"
| valid: "promote_valid_ancestors s r = Some s' \<Longrightarrow> fc_step E cr T s s'"
| invalid: "apply_invalid_payload s r h = Some s' \<Longrightarrow> fc_step E cr T s s'"

inductive_cases fc_stepE: "fc_step E cr T s s'"

inductive fc_reachable :: "preset \<Rightarrow> crypto \<Rightarrow> stf \<Rightarrow> store \<Rightarrow> bool" for E cr T where
  start: "get_forkchoice_store E (stf_block_root T) state_root st b = Some s \<Longrightarrow>
            b_parent_root b \<noteq> stf_block_root T b \<Longrightarrow> fc_reachable E cr T s"
| step: "fc_reachable E cr T s \<Longrightarrow> fc_step E cr T s s' \<Longrightarrow> fc_reachable E cr T s'"

lemma fc_step_extends: "fc_step E cr T s s' \<Longrightarrow> extends s s'"
proof (induction rule: fc_step.induct)
  case (slashing sl s res s')
  then show ?case using on_attester_slashing_extends [of s E cr sl] by simp
next
  case (verdict s r v)
  then show ?case using only_statuses_keeps [OF mark_only_statuses] by blast
next
  case (valid s r s')
  then show ?case using only_statuses_keeps [OF promote_only_statuses] by blast
next
  case (invalid s r h s')
  then show ?case using only_statuses_keeps [OF apply_invalid_only_statuses] by blast
qed (auto intro: on_tick_extends on_block_extends on_attestation_extends on_attestation_electra_extends)

lemma fc_step_inv: "fc_step E cr T s s' \<Longrightarrow> store_inv s \<Longrightarrow> store_inv s'"
proof (induction rule: fc_step.induct)
  case (slashing sl s res s')
  then show ?case using same_blocks_inv [OF on_attester_slashing_same [of s E cr sl]] by simp
next
  case (verdict s r v)
  then show ?case using only_statuses_keeps [OF mark_only_statuses] same_blocks_inv by blast
next
  case (valid s r s')
  then show ?case using only_statuses_keeps [OF promote_only_statuses] same_blocks_inv by blast
next
  case (invalid s r h s')
  then show ?case using only_statuses_keeps [OF apply_invalid_only_statuses] same_blocks_inv by blast
qed (auto intro: same_blocks_inv on_tick_same on_attestation_same on_attestation_electra_same on_block_inv)

lemma fc_steps_extends: "(fc_step E cr T)\<^sup>*\<^sup>* s s' \<Longrightarrow> extends s s'"
  by (induction rule: rtranclp_induct) (auto intro: extends_trans fc_step_extends)

lemma fc_reachable_inv: "fc_reachable E cr T s \<Longrightarrow> store_inv s"
proof (induction rule: fc_reachable.induct)
  case (start state_root st b s)
  then show ?case
    by (auto simp: get_forkchoice_store_def store_inv_def wf_store_def wf_blocks_def Let_def split: if_splits)
qed (rule fc_step_inv)

section \<open>Effects of single operations\<close>

lemma update_latest_message_fields:
  "fc_equivocating_indices (update_latest_message d i s) = fc_equivocating_indices s"
  "fc_latest_messages (update_latest_message d i s) j =
     (if j = i \<and> i \<notin> fc_equivocating_indices s
         \<and> (case fc_latest_messages s i of None \<Rightarrow> True | Some m \<Rightarrow> lm_epoch m < cp_epoch (ad_target d))
      then Some \<lparr>lm_epoch = cp_epoch (ad_target d), lm_root = ad_beacon_block_root d\<rparr>
      else fc_latest_messages s j)"
  by (auto simp: update_latest_message_def Let_def split: option.splits)

text \<open>The store after the votes of \<open>ix\<close> for \<open>d\<close> are in.\<close>

definition newer_vote :: "attestation_data \<Rightarrow> store \<Rightarrow> u64 \<Rightarrow> bool" where
  "newer_vote d s i \<longleftrightarrow> i \<notin> fc_equivocating_indices s
     \<and> (case fc_latest_messages s i of None \<Rightarrow> True | Some m \<Rightarrow> lm_epoch m < cp_epoch (ad_target d))"

lemma update_latest_messages_data_eq:
  "update_latest_messages_data ix d s = s\<lparr>fc_latest_messages :=
     (\<lambda>i. if i \<in> set ix \<and> newer_vote d s i
          then Some \<lparr>lm_epoch = cp_epoch (ad_target d), lm_root = ad_beacon_block_root d\<rparr>
          else fc_latest_messages s i)\<rparr>"
  unfolding update_latest_messages_data_def
proof (induction ix arbitrary: s)
  case (Cons i ix)
  let ?t = "update_latest_message d i s"
  have upd: "?t\<lparr>fc_latest_messages := m\<rparr> = s\<lparr>fc_latest_messages := m\<rparr>" for m
    by (simp add: update_latest_message_def Let_def)
  have newer: "newer_vote d ?t j \<longleftrightarrow> newer_vote d s j \<and> (j = i \<longrightarrow> \<not> newer_vote d s i)" for j
    by (auto simp: newer_vote_def update_latest_message_fields split: option.splits)
  have votes: "(\<lambda>j. if j \<in> set ix \<and> newer_vote d ?t j
           then Some \<lparr>lm_epoch = cp_epoch (ad_target d), lm_root = ad_beacon_block_root d\<rparr>
           else fc_latest_messages ?t j)
      = (\<lambda>j. if j \<in> set (i # ix) \<and> newer_vote d s j
           then Some \<lparr>lm_epoch = cp_epoch (ad_target d), lm_root = ad_beacon_block_root d\<rparr>
           else fc_latest_messages s j)"
    unfolding newer by (rule ext) (auto simp: update_latest_message_fields newer_vote_def)
  have "fold (update_latest_message d) (i # ix) s = fold (update_latest_message d) ix ?t" by simp
  then show ?case unfolding Cons.IH [of ?t] upd votes .
qed simp

lemma store_target_result:
  assumes "store_target_checkpoint_state E T c s = (res, s')"
  shows "\<exists>m. s' = s\<lparr>fc_checkpoint_states := m\<rparr> \<and> fc_checkpoint_states s \<subseteq>\<^sub>m m"
proof -
  from assms consider "s' = s"
    | st where "fc_checkpoint_states s c = None"
        "s' = s\<lparr>fc_checkpoint_states := (fc_checkpoint_states s)(c \<mapsto> st)\<rparr>"
    by (auto simp: store_target_checkpoint_state_def Let_def split: if_splits option.splits sum.splits)
  then show ?thesis
  proof cases
    case 1
    then have "s' = s\<lparr>fc_checkpoint_states := fc_checkpoint_states s\<rparr>" by simp
    then show ?thesis using map_le_refl by blast
  next
    case (2 st)
    then have "fc_checkpoint_states s \<subseteq>\<^sub>m (fc_checkpoint_states s)(c \<mapsto> st)" by (auto simp: map_le_def)
    with 2(2) show ?thesis by blast
  qed
qed


lemma compute_pulled_up_tip_error:
  assumes "compute_pulled_up_tip E T r s = (Inl e, s')" and "fc_block_states s r \<noteq> None"
  shows "s' = s \<and> (\<exists>pe. e = EpochProcessingFailed pe)"
  using assms by (auto simp: compute_pulled_up_tip_def Let_def split: option.splits sum.splits)

definition sample_stf :: stf where
  "sample_stf = \<lparr>
     stf_block_root = (\<lambda>b. ucast (b_slot b) + 1),
     stf_process_slots = (\<lambda>st slot _ _. Inr (st\<lparr>st_slot := slot\<rparr>)),
     stf_justify = Inr\<rparr>"

definition anchored_store :: store where
  "anchored_store = (sample_store [(1, sample_block 0 0)])\<lparr>
     fc_block_states := [1 \<mapsto> sample_state 0 [sample_validator, sample_validator]]\<rparr>"

text \<open>With the sample signature scheme, which accepts every signature, the structural checks decide.\<close>

lemma sample_valid_indexed:
  assumes "ia_attesting_indices ia \<noteq> []" and "strictly_sorted (ia_attesting_indices ia)"
    and "\<And>i. i \<in> set (ia_attesting_indices ia) \<Longrightarrow> unat i < length (st_validators st)"
  shows "is_valid_indexed_attestation E sample_crypto st ia True"
proof -
  have keys: "List.map_filter (\<lambda>i. map_option v_pubkey (nth_opt (st_validators st) (unat i))) ix
      = map (\<lambda>i. v_pubkey (st_validators st ! unat i)) ix"
    if "\<And>i. i \<in> set ix \<Longrightarrow> unat i < length (st_validators st)" for ix
    using that by (induction ix) (simp_all add: List.map_filter_simps)
  moreover have "fast_aggregate_verify sample_crypto pks m sig = Some True" if "pks \<noteq> []" for pks m sig
    using that by (simp add: fast_aggregate_verify_def sample_crypto_def)
  ultimately show ?thesis
    using assms keys [OF assms(3)] by (simp add: is_valid_indexed_attestation_def Let_def)
qed

section \<open>Properties\<close>

text \<open>C16: In every store that the operations of fork choice can reach from an anchor, roots are
  distinct, every stored parent is earlier than its child, exactly the stored blocks have a state, and
  hence \<^verbatim>\<open>get_head\<close> returns.\<close>

theorem reachable_store_invariant:
  assumes "fc_reachable E cr T s"
  shows "store_inv s \<and> (\<exists>h. get_head E s = Some h)"
  using fc_reachable_inv [OF assms] get_head_spec [of s E] by (auto simp: store_inv_def)

theorem reachable_store_invariant_witness:
  "\<exists>s. get_forkchoice_store minimal_preset (stf_block_root sample_stf) (\<lambda>_. 0)
         (sample_state 0 [sample_validator]) (sample_block 0 0) = Some s
     \<and> store_inv s \<and> (\<exists>h. get_head minimal_preset s = Some h)"
proof -
  obtain s where s: "get_forkchoice_store minimal_preset (stf_block_root sample_stf) (\<lambda>_. 0)
      (sample_state 0 [sample_validator]) (sample_block 0 0) = Some s"
    by (simp add: get_forkchoice_store_def sample_block_def Let_def)
  then have "fc_reachable minimal_preset sample_crypto sample_stf s"
    by (rule fc_reachable.start) (simp add: sample_stf_def sample_block_def)
  from reachable_store_invariant [OF this] s show ?thesis by blast
qed

text \<open>C17: The store only grows.  Along any sequence of operations the epochs of all four checkpoints
  never fall, no block, block state, checkpoint state or equivocating index is forgotten, a vote is only
  replaced by one for a later epoch, and the vote of an equivocating validator is frozen.\<close>

theorem store_only_grows:
  assumes "(fc_step E cr T)\<^sup>*\<^sup>* s s'"
  shows "extends s s'"
  by (rule fc_steps_extends [OF assms])

theorem store_only_grows_witness:
  "extends (sample_store sample_chain) (mark_payload_status 3 Valid (sample_store sample_chain))"
  by (rule store_only_grows [where E = minimal_preset and cr = sample_crypto and T = sample_stf])
     (rule r_into_rtranclp, rule fc_step.verdict)

text \<open>C18: A slashing is final.  Once \<^verbatim>\<open>on_attester_slashing\<close> has accepted two conflicting
  attestations, a validator in both of them never counts again for any block, whatever operations
  follow.\<close>

theorem slashed_attester_never_counts:
  assumes "on_attester_slashing E cr sl s = (Inr (), s1)"
    and "i \<in> set (ia_attesting_indices (as_attestation_1 sl))"
    and "i \<in> set (ia_attesting_indices (as_attestation_2 sl))"
    and "(fc_step E cr T)\<^sup>*\<^sup>* s1 s'"
  shows "votes_for s' r i = Some False"
proof -
  have "i \<in> fc_equivocating_indices s1"
    using assms(1-3) by (auto simp: on_attester_slashing_def Let_def split: if_splits option.splits)
  then have "i \<in> fc_equivocating_indices s'"
    using fc_steps_extends [OF assms(4)] by (auto simp: extends_def)
  then show ?thesis by (simp add: votes_for_def split: option.splits)
qed

definition sample_slashing :: attester_slashing where
  "sample_slashing =
     (let d = at_data sample_attestation;
          ia = (\<lambda>d. \<lparr>ia_attesting_indices = [1], ia_data = d, ia_signature = 0\<rparr>)
      in \<lparr>as_attestation_1 = ia d, as_attestation_2 = ia (d\<lparr>ad_beacon_block_root := 7\<rparr>)\<rparr>)"

theorem slashed_attester_never_counts_witness:
  "votes_for (snd (on_attester_slashing minimal_preset sample_crypto sample_slashing anchored_store)) 1 1
     = Some False"
proof -
  have "fst (on_attester_slashing minimal_preset sample_crypto sample_slashing anchored_store) = Inr ()"
    using sample_valid_indexed [of "as_attestation_1 sample_slashing" "sample_state 0 [sample_validator, sample_validator]"]
      sample_valid_indexed [of "as_attestation_2 sample_slashing" "sample_state 0 [sample_validator, sample_validator]"]
    by (simp add: on_attester_slashing_def anchored_store_def sample_store_def sample_slashing_def
        sample_attestation_def sample_state_def is_slashable_attestation_data_def Let_def)
  then have ok: "on_attester_slashing minimal_preset sample_crypto sample_slashing anchored_store
      = (Inr (), snd (on_attester_slashing minimal_preset sample_crypto sample_slashing anchored_store))"
    by (metis prod.collapse)
  show ?thesis
    by (rule slashed_attester_never_counts [where T = sample_stf, OF ok _ _ rtranclp.rtrancl_refl])
       (simp_all add: sample_slashing_def Let_def)
qed








definition sample_signed_block :: signed_beacon_block where
  "sample_signed_block = \<lparr>sb_message = sample_block 1 1, sb_signature = 0\<rparr>"



text \<open>C20: A failing \<^verbatim>\<open>on_block\<close> leaves the store as it was, with one exception: when justification
  fails on the post-state, the error is reported after the block has been stored.\<close>

theorem on_block_error_writes:
  assumes "on_block E sha T sb post now p s = Some (Inl e, s')"
  shows "s' = s \<or> (\<exists>pe. e = EpochProcessingFailed pe)
                  \<and> get_block s' (stf_block_root T (sb_message sb)) = Some (sb_message sb)"
  using assms
proof (cases rule: on_block_cases)
  case (accepted s1)
  let ?s = "update_checkpoints (st_current_justified_checkpoint post) (st_finalized_checkpoint post) s1"
  have "fc_block_states ?s (stf_block_root T (sb_message sb)) \<noteq> None"
    using boost_fields(2) [OF accepted(2)] by simp
  then have "\<exists>pe. e = EpochProcessingFailed pe"
    using compute_pulled_up_tip_error [OF accepted(3) [symmetric]] by blast
  then show ?thesis
    using on_block_blocks(1) [OF assms accepted(1)] by (simp add: get_block_def)
qed simp

text \<open>A state transition whose justification fails shows that the exception occurs.\<close>

definition failing_stf :: stf where
  "failing_stf = sample_stf\<lparr>stf_justify := (\<lambda>_. Inl BlockRootUnavailable)\<rparr>"

theorem on_block_error_writes_witness:
  "\<exists>s'. on_block minimal_preset (\<lambda>_. 0) failing_stf sample_signed_block (sample_state 1 [sample_validator]) 120
          noop_pow_block_provider anchored_store = Some (Inl (EpochProcessingFailed BlockRootUnavailable), s')
      \<and> get_block s' 2 = Some (sample_block 1 1)"
proof -
  have "map_option fst (on_block minimal_preset (\<lambda>_. 0) failing_stf sample_signed_block
      (sample_state 1 [sample_validator]) 120 noop_pow_block_provider anchored_store)
      = Some (Inl (EpochProcessingFailed BlockRootUnavailable))" by code_simp
  then obtain s' where s': "on_block minimal_preset (\<lambda>_. 0) failing_stf sample_signed_block
      (sample_state 1 [sample_validator]) 120 noop_pow_block_provider anchored_store
      = Some (Inl (EpochProcessingFailed BlockRootUnavailable), s')" by auto
  have "map_option (\<lambda>(_, s). get_block s 2 \<noteq> None) (on_block minimal_preset (\<lambda>_. 0) failing_stf
      sample_signed_block (sample_state 1 [sample_validator]) 120 noop_pow_block_provider anchored_store)
      = Some True" by code_simp
  with s' have "s' \<noteq> anchored_store" by (auto simp: anchored_store_def sample_store_def get_block_def)
  moreover have "stf_block_root failing_stf (sb_message sample_signed_block) = 2"
    "sb_message sample_signed_block = sample_block 1 1"
    by (simp_all add: failing_stf_def sample_stf_def sample_signed_block_def sample_block_def)
  ultimately show ?thesis using on_block_error_writes [OF s'] s' by auto
qed

text \<open>C21: What \<^verbatim>\<open>on_attestation\<close> writes.  On an error nothing but the cache of checkpoint states may
  have grown.  On success the attesters are the validators that the target state names for the set bits,
  their aggregate signature is valid, and exactly those of them that are not known to equivocate and
  have no vote from the same or a later epoch now vote for the attested block.\<close>

theorem on_attestation_writes:
  assumes "on_attestation E cr T att fb s = Some (res, s')"
  shows "\<exists>c. fc_checkpoint_states s \<subseteq>\<^sub>m c \<and>
     (case res of
        Inl e \<Rightarrow> s' = s\<lparr>fc_checkpoint_states := c\<rparr>
      | Inr _ \<Rightarrow> \<exists>st ix. c (ad_target (at_data att)) = Some st
          \<and> get_attesting_indices E (cr_sha cr) st (at_data att) (at_aggregation_bits att) = Some ix
          \<and> is_valid_indexed_attestation E cr st
               \<lparr>ia_attesting_indices = sort ix, ia_data = at_data att, ia_signature = at_signature att\<rparr> True
          \<and> s' = s\<lparr>fc_checkpoint_states := c,
                    fc_latest_messages := (\<lambda>i.
                      if i \<in> set ix \<and> newer_vote (at_data att) s i
                      then Some \<lparr>lm_epoch = cp_epoch (ad_target (at_data att)),
                                 lm_root = ad_beacon_block_root (at_data att)\<rparr>
                      else fc_latest_messages s i)\<rparr>)"
  using assms
proof (cases rule: on_attestation_cases)
  case (invalid e)
  then show ?thesis by (intro exI [of _ "fc_checkpoint_states s"]) simp
next
  case (rejected e r1)
  then show ?thesis using store_target_result [OF rejected(3)] by auto
next
  case (accepted s1 st ix)
  from store_target_result [OF accepted(3)] obtain c where
    c: "s1 = s\<lparr>fc_checkpoint_states := c\<rparr>" "fc_checkpoint_states s \<subseteq>\<^sub>m c" by blast
  have "newer_vote (at_data att) s1 i \<longleftrightarrow> newer_vote (at_data att) s i" for i
    by (simp add: newer_vote_def c(1))
  with accepted c show ?thesis
    by (intro exI [of _ c]) (simp add: update_latest_messages_data_eq cong: if_cong)
qed

definition voting_attestation :: attestation where
  "voting_attestation = sample_attestation\<lparr>at_data := (at_data sample_attestation)\<lparr>
     ad_beacon_block_root := 1, ad_target := \<lparr>cp_epoch = 0, cp_root = 1\<rparr>\<rparr>\<rparr>"

definition unshuffled_preset :: preset where
  "unshuffled_preset = minimal_preset\<lparr>SHUFFLE_ROUND_COUNT := 0\<rparr>"

theorem on_attestation_writes_witness:
  "\<exists>s'. on_attestation unshuffled_preset sample_crypto sample_stf voting_attestation True
          (anchored_store\<lparr>fc_latest_messages := Map.empty\<rparr>) = Some (Inr (), s')
      \<and> fc_blocks s' = fc_blocks anchored_store"
proof -
  let ?s = "anchored_store\<lparr>fc_latest_messages := Map.empty\<rparr>"
  let ?st = "sample_state 0 [sample_validator, sample_validator]"
  have "validate_on_attestation unshuffled_preset ?s voting_attestation True = Some (Inr ())" by code_simp
  moreover have target: "fc_checkpoint_states ?s (ad_target (at_data voting_attestation)) = Some ?st"
    by (simp add: anchored_store_def sample_store_def voting_attestation_def)
  moreover from this have "store_target_checkpoint_state unshuffled_preset sample_stf
      (ad_target (at_data voting_attestation)) ?s = (Inr (), ?s)"
    by (simp add: store_target_checkpoint_state_def)
  moreover have "get_attesting_indices unshuffled_preset (cr_sha sample_crypto) ?st (at_data voting_attestation)
      (at_aggregation_bits voting_attestation) = Some [1]" by code_simp
  moreover have "is_valid_indexed_attestation unshuffled_preset sample_crypto ?st
      \<lparr>ia_attesting_indices = sort [1], ia_data = at_data voting_attestation,
       ia_signature = at_signature voting_attestation\<rparr> True"
    by (rule sample_valid_indexed) (simp_all add: sample_state_def)
  ultimately obtain s' where s': "on_attestation unshuffled_preset sample_crypto sample_stf voting_attestation
      True ?s = Some (Inr (), s')" by (simp add: on_attestation_def Let_def)
  show ?thesis using on_attestation_writes [OF s'] s' by auto
qed

end
