(* ===== verification/VC_Slashing.thy ===== *)
theory VC_Slashing
  imports Prelude
begin

text \<open>
  The slashing protection database of the validator client
  (\<^verbatim>\<open>src/crates/pharos-validator/src/slashing.rs\<close>).

  The two SQLite tables are lists of rows.  A \<^verbatim>\<open>u64\<close> is stored as the \<^verbatim>\<open>i64\<close> with the same bits, and
  SQL compares it as a signed number, so the model keeps the bits and compares with \<^const>\<open>sint\<close>
  inside queries and with \<open><\<close> in the Rust code.  Any statement can fail, as \<open>sq_fault\<close> says; a failed
  transaction is rolled back when it is dropped.

  The trait \<^verbatim>\<open>SlashingProtection\<close> is the locale \<open>slashing_protection\<close>: a call that returns
  \<^verbatim>\<open>Ok\<close> has recorded the message, and the message conflicts with no record.
\<close>

section \<open>Tables\<close>

type_synonym i64 = "64 word"

record block_row =
  br_pubkey :: string
  br_slot :: i64
  br_signing_root :: "string option"

record att_row =
  ar_pubkey :: string
  ar_source_epoch :: i64
  ar_target_epoch :: i64
  ar_signing_root :: "string option"

record slashing_db =
  signed_block :: "block_row list"
  signed_attestation :: "att_row list"

datatype slashing_error =
    DoubleBlockProposal u64
  | BlockBelowLowWatermark u64 u64
  | DoubleAttestation u64
  | AttestationTargetBelowLowWatermark u64 u64
  | AttestationSourceBelowLowWatermark u64 u64
  | SurroundVote u64 u64 u64 u64
  | SurroundedVote u64 u64 u64 u64
  | Sqlite string

text \<open>\<^verbatim>\<open>open\<close> creates both tables when they are missing.\<close>

definition open_db :: "slashing_db option \<Rightarrow> slashing_db" where
  "open_db existing =
     (case existing of Some db \<Rightarrow> db | None \<Rightarrow> \<lparr>signed_block = [], signed_attestation = []\<rparr>)"

section \<open>SQL\<close>

text \<open>
  The statements of one call, in order.  \<open>sq_fault\<close> gives the error of a statement that fails, and
  \<open>sq_limit_1\<close> the row a query with \<^verbatim>\<open>LIMIT 1\<close> and no order returns.
\<close>

datatype sql_step =
    LockConn | BeginImmediate | SelectMin | SelectRow | SelectSurround | InsertRow | Commit
  | BeginDeferred | SelectKeys

record sqlite =
  sq_fault :: "sql_step \<Rightarrow> string option"
  sq_limit_1 :: "att_row list \<Rightarrow> att_row"

definition sql :: "sqlite \<Rightarrow> sql_step \<Rightarrow> 'a \<Rightarrow> (slashing_error, 'a) result" where
  "sql Q step v = (case sq_fault Q step of Some e \<Rightarrow> Inl (Sqlite e) | None \<Rightarrow> Inr v)"

fun sql_min :: "i64 list \<Rightarrow> i64 option" where
  "sql_min [] = None"
| "sql_min (x # xs) = Some (fold (\<lambda>y m. if sint y < sint m then y else m) xs x)"

definition blocks_of_key :: "slashing_db \<Rightarrow> string \<Rightarrow> block_row list" where
  "blocks_of_key db pk = filter (\<lambda>r. br_pubkey r = pk) (signed_block db)"

definition atts_of_key :: "slashing_db \<Rightarrow> string \<Rightarrow> att_row list" where
  "atts_of_key db pk = filter (\<lambda>r. ar_pubkey r = pk) (signed_attestation db)"

definition block_at :: "slashing_db \<Rightarrow> string \<Rightarrow> u64 \<Rightarrow> block_row option" where
  "block_at db pk slot = find (\<lambda>r. br_slot r = slot) (blocks_of_key db pk)"

definition att_at :: "slashing_db \<Rightarrow> string \<Rightarrow> u64 \<Rightarrow> att_row option" where
  "att_at db pk target = find (\<lambda>r. ar_target_epoch r = target) (atts_of_key db pk)"

text \<open>\<^verbatim>\<open>INSERT\<close> fails on a key that is already there.\<close>

definition insert_block_row :: "block_row \<Rightarrow> slashing_db \<Rightarrow> (slashing_error, slashing_db) result" where
  "insert_block_row r db =
     (if block_at db (br_pubkey r) (br_slot r) \<noteq> None then Inl (Sqlite ''UNIQUE constraint failed'')
      else Inr (db\<lparr>signed_block := signed_block db @ [r]\<rparr>))"

definition insert_att_row :: "att_row \<Rightarrow> slashing_db \<Rightarrow> (slashing_error, slashing_db) result" where
  "insert_att_row r db =
     (if att_at db (ar_pubkey r) (ar_target_epoch r) \<noteq> None then Inl (Sqlite ''UNIQUE constraint failed'')
      else Inr (db\<lparr>signed_attestation := signed_attestation db @ [r]\<rparr>))"

text \<open>A database engine in which nothing fails.\<close>

definition no_faults :: "sqlite \<Rightarrow> bool" where
  "no_faults Q \<longleftrightarrow> (\<forall>step. sq_fault Q step = None)"

definition healthy :: sqlite where
  "healthy = \<lparr>sq_fault = \<lambda>_. None, sq_limit_1 = hd\<rparr>"

section \<open>Check and record\<close>

text \<open>A record with the same key exists: the same root, or none in both, is repeat signing.\<close>

definition same_signing_root ::
  "slashing_error \<Rightarrow> string option \<Rightarrow> string option \<Rightarrow> (slashing_error, unit) result" where
  "same_signing_root err stored new =
     (case (stored, new) of
        (Some s, Some n) \<Rightarrow> if s = n then Inr () else Inl err
      | (None, None) \<Rightarrow> Inr ()
      | _ \<Rightarrow> Inl err)"

text \<open>The checks, up to the decision whether a row is to be inserted.\<close>

definition check_block_proposal ::
  "sqlite \<Rightarrow> slashing_db \<Rightarrow> string \<Rightarrow> u64 \<Rightarrow> string option \<Rightarrow> (slashing_error, bool) result" where
  "check_block_proposal Q db pk slot signing_root =
     bind_result (sql Q LockConn ()) (\<lambda>_.
     bind_result (sql Q BeginImmediate ()) (\<lambda>_.
     bind_result (sql Q SelectMin (sql_min (map br_slot (blocks_of_key db pk)))) (\<lambda>min_slot.
     if (case min_slot of Some m \<Rightarrow> slot < m | None \<Rightarrow> False)
     then Inl (BlockBelowLowWatermark slot (unwrap_or min_slot 0))
     else
       bind_result (sql Q SelectRow (block_at db pk slot)) (\<lambda>existing.
       case existing of
         Some r \<Rightarrow>
           bind_result (same_signing_root (DoubleBlockProposal slot) (br_signing_root r) signing_root)
             (\<lambda>_. Inr False)
       | None \<Rightarrow> Inr True))))"

definition check_and_record_block_proposal ::
  "sqlite \<Rightarrow> string \<Rightarrow> u64 \<Rightarrow> string option \<Rightarrow> slashing_db \<Rightarrow> (slashing_error, unit) result \<times> slashing_db" where
  "check_and_record_block_proposal Q pk slot signing_root db =
     (case check_block_proposal Q db pk slot signing_root of
        Inl e \<Rightarrow> (Inl e, db)
      | Inr False \<Rightarrow> (Inr (), db)
      | Inr True \<Rightarrow>
          (case bind_result (sql Q InsertRow ()) (\<lambda>_.
                bind_result (insert_block_row
                  \<lparr>br_pubkey = pk, br_slot = slot, br_signing_root = signing_root\<rparr> db)
                  (sql Q Commit)) of
             Inl e \<Rightarrow> (Inl e, db)
           | Inr db' \<Rightarrow> (Inr (), db')))"

text \<open>The rows of the surround query; its comparisons are on signed integers.\<close>

definition sql_surrounds :: "u64 \<Rightarrow> u64 \<Rightarrow> att_row \<Rightarrow> bool" where
  "sql_surrounds src tgt r \<longleftrightarrow>
     (sint src < sint (ar_source_epoch r) \<and> sint (ar_target_epoch r) < sint tgt)
     \<or> (sint (ar_source_epoch r) < sint src \<and> sint tgt < sint (ar_target_epoch r))"

definition check_surround ::
  "sqlite \<Rightarrow> slashing_db \<Rightarrow> string \<Rightarrow> u64 \<Rightarrow> u64 \<Rightarrow> (slashing_error, bool) result" where
  "check_surround Q db pk source_epoch target_epoch =
     (let rows = filter (sql_surrounds source_epoch target_epoch) (atts_of_key db pk) in
      bind_result (sql Q SelectSurround (if rows = [] then None else Some (sq_limit_1 Q rows))) (\<lambda>surround.
      case surround of
        None \<Rightarrow> Inr True
      | Some r \<Rightarrow>
          let ex_src = ar_source_epoch r; ex_tgt = ar_target_epoch r in
          if source_epoch < ex_src \<and> ex_tgt < target_epoch
          then Inl (SurroundVote source_epoch target_epoch ex_src ex_tgt)
          else Inl (SurroundedVote source_epoch target_epoch ex_src ex_tgt)))"

definition check_attestation ::
  "sqlite \<Rightarrow> slashing_db \<Rightarrow> string \<Rightarrow> u64 \<Rightarrow> u64 \<Rightarrow> string option \<Rightarrow> (slashing_error, bool) result" where
  "check_attestation Q db pk source_epoch target_epoch signing_root =
     bind_result (sql Q LockConn ()) (\<lambda>_.
     bind_result (sql Q BeginImmediate ()) (\<lambda>_.
     bind_result (sql Q SelectMin (sql_min (map ar_source_epoch (atts_of_key db pk)),
                                   sql_min (map ar_target_epoch (atts_of_key db pk)))) (\<lambda>(min_src, min_tgt).
     if (case min_src of Some m \<Rightarrow> source_epoch < m | None \<Rightarrow> False)
     then Inl (AttestationSourceBelowLowWatermark source_epoch (unwrap_or min_src 0))
     else if (case min_tgt of Some m \<Rightarrow> target_epoch \<le> m | None \<Rightarrow> False)
     then
       bind_result (sql Q SelectRow (att_at db pk target_epoch)) (\<lambda>existing.
       case existing of
         Some r \<Rightarrow>
           bind_result (same_signing_root (DoubleAttestation target_epoch) (ar_signing_root r) signing_root)
             (\<lambda>_. Inr False)
       | None \<Rightarrow> Inl (AttestationTargetBelowLowWatermark target_epoch (unwrap_or min_tgt 0)))
     else
       bind_result (sql Q SelectRow (att_at db pk target_epoch)) (\<lambda>existing.
       case existing of
         Some r \<Rightarrow>
           bind_result (same_signing_root (DoubleAttestation target_epoch) (ar_signing_root r) signing_root)
             (\<lambda>_. Inr False)
       | None \<Rightarrow> check_surround Q db pk source_epoch target_epoch))))"

definition check_and_record_attestation ::
  "sqlite \<Rightarrow> string \<Rightarrow> u64 \<Rightarrow> u64 \<Rightarrow> string option \<Rightarrow> slashing_db
     \<Rightarrow> (slashing_error, unit) result \<times> slashing_db" where
  "check_and_record_attestation Q pk source_epoch target_epoch signing_root db =
     (case check_attestation Q db pk source_epoch target_epoch signing_root of
        Inl e \<Rightarrow> (Inl e, db)
      | Inr False \<Rightarrow> (Inr (), db)
      | Inr True \<Rightarrow>
          (case bind_result (sql Q InsertRow ()) (\<lambda>_.
                bind_result (insert_att_row
                  \<lparr>ar_pubkey = pk, ar_source_epoch = source_epoch, ar_target_epoch = target_epoch,
                   ar_signing_root = signing_root\<rparr> db)
                  (sql Q Commit)) of
             Inl e \<Rightarrow> (Inl e, db)
           | Inr db' \<Rightarrow> (Inr (), db')))"

section \<open>What the tables keep\<close>

text \<open>
  The records of a database, the primary keys, and safety: epochs fit in 63 bits, as the comment of
  the source assumes, and no vote of a key surrounds another one.
\<close>

definition block_records :: "slashing_db \<Rightarrow> (string \<times> u64 \<times> string option) set" where
  "block_records db = (\<lambda>r. (br_pubkey r, br_slot r, br_signing_root r)) ` set (signed_block db)"

definition att_records :: "slashing_db \<Rightarrow> (string \<times> u64 \<times> u64 \<times> string option) set" where
  "att_records db =
     (\<lambda>r. (ar_pubkey r, ar_source_epoch r, ar_target_epoch r, ar_signing_root r)) ` set (signed_attestation db)"

definition block_key :: "block_row \<Rightarrow> string \<times> u64" where
  "block_key r = (br_pubkey r, br_slot r)"

definition att_key :: "att_row \<Rightarrow> string \<times> u64" where
  "att_key r = (ar_pubkey r, ar_target_epoch r)"

definition keys_ok :: "slashing_db \<Rightarrow> bool" where
  "keys_ok db \<longleftrightarrow> distinct (map block_key (signed_block db)) \<and> distinct (map att_key (signed_attestation db))"

definition epoch_63 :: "u64 \<Rightarrow> bool" where
  "epoch_63 e \<longleftrightarrow> e < 9223372036854775808"

definition surrounds :: "att_row \<Rightarrow> att_row \<Rightarrow> bool" where
  "surrounds a b \<longleftrightarrow> ar_source_epoch a < ar_source_epoch b \<and> ar_target_epoch b < ar_target_epoch a"

definition votes_safe :: "slashing_db \<Rightarrow> bool" where
  "votes_safe db \<longleftrightarrow>
     (\<forall>a \<in> set (signed_attestation db).
        epoch_63 (ar_source_epoch a) \<and> epoch_63 (ar_target_epoch a)
        \<and> (\<forall>b \<in> set (signed_attestation db). ar_pubkey a = ar_pubkey b \<longrightarrow> \<not> surrounds a b))"

definition db_safe :: "slashing_db \<Rightarrow> bool" where
  "db_safe db \<longleftrightarrow> keys_ok db \<and> votes_safe db"

lemma sql_Inr [simp]: "sql Q step v = Inr w \<longleftrightarrow> sq_fault Q step = None \<and> w = v"
  by (auto simp: sql_def split: option.splits)

lemma same_signing_root_Inr [simp]: "same_signing_root err stored new = Inr u \<longleftrightarrow> stored = new"
  by (auto simp: same_signing_root_def split: option.splits)

lemma block_at_None: "block_at db pk slot = None \<longleftrightarrow> (pk, slot) \<notin> block_key ` set (signed_block db)"
  by (auto simp: block_at_def blocks_of_key_def find_None_iff block_key_def)

lemma att_at_None: "att_at db pk t = None \<longleftrightarrow> (pk, t) \<notin> att_key ` set (signed_attestation db)"
  by (auto simp: att_at_def atts_of_key_def find_None_iff att_key_def)

lemma block_at_Some:
  "block_at db pk slot = Some r \<Longrightarrow> r \<in> set (signed_block db) \<and> br_pubkey r = pk \<and> br_slot r = slot"
  by (auto simp: block_at_def blocks_of_key_def find_Some_iff dest!: nth_mem)

lemma att_at_Some:
  "att_at db pk t = Some r \<Longrightarrow> r \<in> set (signed_attestation db) \<and> ar_pubkey r = pk \<and> ar_target_epoch r = t"
  by (auto simp: att_at_def atts_of_key_def find_Some_iff dest!: nth_mem)

lemma insert_block_row_Inr:
  "insert_block_row r db = Inr db' \<longleftrightarrow>
     block_key r \<notin> block_key ` set (signed_block db) \<and> db' = db\<lparr>signed_block := signed_block db @ [r]\<rparr>"
  unfolding insert_block_row_def block_at_None [of db "br_pubkey r" "br_slot r", folded block_key_def [of r]]
  by auto

lemma insert_att_row_Inr:
  "insert_att_row r db = Inr db' \<longleftrightarrow>
     att_key r \<notin> att_key ` set (signed_attestation db)
     \<and> db' = db\<lparr>signed_attestation := signed_attestation db @ [r]\<rparr>"
  unfolding insert_att_row_def att_at_None [of db "ar_pubkey r" "ar_target_epoch r", folded att_key_def [of r]]
  by auto

lemma check_block_proposal_Inr:
  "check_block_proposal Q db pk slot root = Inr fresh \<Longrightarrow>
     (if fresh then block_at db pk slot = None
      else \<exists>r. block_at db pk slot = Some r \<and> br_signing_root r = root)"
  by (auto simp: check_block_proposal_def bind_result_Inr split: if_splits option.splits)

text \<open>A call returns \<^verbatim>\<open>Ok\<close> on a repeated message, or after one new row is committed.\<close>

lemma transaction_cases:
  assumes "(case c of Inl e \<Rightarrow> (Inl e, db) | Inr False \<Rightarrow> (Inr (), db)
            | Inr True \<Rightarrow> (case w of Inl e \<Rightarrow> (Inl e, db) | Inr d \<Rightarrow> (Inr (), d))) = (res, db')"
  obtains (rejected) e where "res = Inl e" "db' = db"
  | (again) "res = Inr ()" "db' = db" "c = Inr False"
  | (fresh) "res = Inr ()" "c = Inr True" "w = Inr db'"
  using assms by (cases c; cases w) (auto split: bool.splits)

lemma record_block_cases:
  assumes "check_and_record_block_proposal Q pk slot root db = (res, db')"
  obtains (rejected) e where "res = Inl e" "db' = db"
  | (again) r where "res = Inr ()" "db' = db" "block_at db pk slot = Some r" "br_signing_root r = root"
  | (fresh) r where "res = Inr ()" "r = \<lparr>br_pubkey = pk, br_slot = slot, br_signing_root = root\<rparr>"
      "block_key r \<notin> block_key ` set (signed_block db)"
      "db' = db\<lparr>signed_block := signed_block db @ [r]\<rparr>"
  using assms unfolding check_and_record_block_proposal_def
proof (cases rule: transaction_cases)
  case fresh
  with that(3) [OF _ refl] show ?thesis by (auto simp: bind_result_Inr insert_block_row_Inr)
qed (use check_block_proposal_Inr that in fastforce)+

lemma sint_63 [simp]: "epoch_63 e \<Longrightarrow> sint e = uint e"
  unfolding epoch_63_def sint_uint
  by (rule signed_take_bit_int_eq_self) (simp_all add: word_less_def order.trans [OF _ unsigned_greater_eq])

lemma sql_surrounds_63:
  assumes "epoch_63 src" "epoch_63 tgt" "epoch_63 (ar_source_epoch r)" "epoch_63 (ar_target_epoch r)"
  shows "sql_surrounds src tgt r \<longleftrightarrow>
           (src < ar_source_epoch r \<and> ar_target_epoch r < tgt) \<or> (ar_source_epoch r < src \<and> tgt < ar_target_epoch r)"
  using assms by (simp add: sql_surrounds_def word_less_def)

lemma check_attestation_Inr:
  assumes "check_attestation Q db pk src tgt root = Inr is_new"
  shows "if is_new then att_at db pk tgt = None \<and> (\<forall>r \<in> set (atts_of_key db pk). \<not> sql_surrounds src tgt r)
         else \<exists>r. att_at db pk tgt = Some r \<and> ar_signing_root r = root"
  using assms
  by (auto simp: check_attestation_def check_surround_def bind_result_Inr Let_def filter_empty_conv
      split: if_splits option.splits)

lemma record_att_cases:
  assumes "check_and_record_attestation Q pk src tgt root db = (res, db')"
  obtains (rejected) e where "res = Inl e" "db' = db"
  | (again) r where "res = Inr ()" "db' = db" "att_at db pk tgt = Some r" "ar_signing_root r = root"
  | (fresh) r where "res = Inr ()"
      "r = \<lparr>ar_pubkey = pk, ar_source_epoch = src, ar_target_epoch = tgt, ar_signing_root = root\<rparr>"
      "att_key r \<notin> att_key ` set (signed_attestation db)"
      "\<forall>a \<in> set (atts_of_key db pk). \<not> sql_surrounds src tgt a"
      "db' = db\<lparr>signed_attestation := signed_attestation db @ [r]\<rparr>"
  using assms unfolding check_and_record_attestation_def
proof (cases rule: transaction_cases)
  case fresh
  with that(3) [OF _ refl] check_attestation_Inr [OF fresh(2)] show ?thesis
    by (auto simp: bind_result_Inr insert_att_row_Inr)
qed (use check_attestation_Inr that in fastforce)+

lemma votes_safe_add:
  assumes "votes_safe db" and "epoch_63 (ar_source_epoch r)" and "epoch_63 (ar_target_epoch r)"
    and "\<forall>a \<in> set (atts_of_key db (ar_pubkey r)). \<not> sql_surrounds (ar_source_epoch r) (ar_target_epoch r) a"
  shows "votes_safe (db\<lparr>signed_attestation := signed_attestation db @ [r]\<rparr>)"
proof -
  have "\<not> surrounds a r \<and> \<not> surrounds r a" if "a \<in> set (signed_attestation db)" "ar_pubkey a = ar_pubkey r" for a
  proof -
    from that assms(1) have "epoch_63 (ar_source_epoch a)" "epoch_63 (ar_target_epoch a)"
      by (auto simp: votes_safe_def)
    with that assms sql_surrounds_63 [of "ar_source_epoch r" "ar_target_epoch r" a] show ?thesis
      by (auto simp: atts_of_key_def surrounds_def)
  qed
  moreover have "\<not> surrounds r r" by (simp add: surrounds_def)
  ultimately show ?thesis using assms(1-3) by (auto simp: votes_safe_def)
qed

lemma record_block_keeps:
  assumes "db_safe db" and "check_and_record_block_proposal Q pk slot root db = (res, db')"
  shows "db_safe db' \<and> block_records db \<subseteq> block_records db' \<and> att_records db' = att_records db
    \<and> (res = Inr () \<longrightarrow> (pk, slot, root) \<in> block_records db')"
  using assms(2)
proof (cases rule: record_block_cases)
  case (again r)
  then show ?thesis using assms(1) block_at_Some [of db pk slot r] by (force simp: block_records_def)
next
  case (fresh r)
  then show ?thesis using assms(1)
    by (auto simp: db_safe_def keys_ok_def votes_safe_def block_records_def att_records_def)
qed (use assms(1) in simp)

lemma record_att_keeps:
  assumes "db_safe db" and "epoch_63 src" and "epoch_63 tgt"
    and "check_and_record_attestation Q pk src tgt root db = (res, db')"
  shows "db_safe db' \<and> att_records db \<subseteq> att_records db'
    \<and> att_records db' \<subseteq> insert (pk, src, tgt, root) (att_records db) \<and> block_records db' = block_records db
    \<and> (res = Inr () \<longrightarrow> (\<exists>s. (pk, s, tgt, root) \<in> att_records db'))"
  using assms(4)
proof (cases rule: record_att_cases)
  case (again r)
  then show ?thesis using assms(1) att_at_Some [of db pk tgt r] by (force simp: att_records_def)
next
  case (fresh r)
  then have "votes_safe db'" using assms(1-3) votes_safe_add [of db r] by (simp add: db_safe_def)
  with fresh show ?thesis using assms(1)
    by (auto simp: db_safe_def keys_ok_def block_records_def att_records_def)
qed (use assms(1) in auto)

lemma block_records_key:
  "db_safe db \<Longrightarrow> (pk, slot, r) \<in> block_records db \<Longrightarrow> (pk, slot, r') \<in> block_records db \<Longrightarrow> r = r'"
  unfolding db_safe_def keys_ok_def distinct_map block_records_def inj_on_def block_key_def
  by force

lemma att_records_key:
  "db_safe db \<Longrightarrow> (pk, s, t, r) \<in> att_records db \<Longrightarrow> (pk, s', t, r') \<in> att_records db \<Longrightarrow> s = s' \<and> r = r'"
  unfolding db_safe_def keys_ok_def distinct_map att_records_def inj_on_def att_key_def
  by force

lemma att_records_safe:
  "db_safe db \<Longrightarrow> (pk, s, t, r) \<in> att_records db \<Longrightarrow> (pk, s', t', r') \<in> att_records db \<Longrightarrow> \<not> (s < s' \<and> t' < t)"
  by (auto simp: db_safe_def votes_safe_def att_records_def surrounds_def)

section \<open>The trait\<close>

text \<open>
  What a client of the trait \<^verbatim>\<open>SlashingProtection\<close> relies on: records are never lost, a message is
  accepted only with its record in place, a key has one record per slot and per target epoch, and
  no recorded vote surrounds another.
\<close>

locale slashing_protection =
  fixes record_block :: "'q \<Rightarrow> string \<Rightarrow> u64 \<Rightarrow> string option \<Rightarrow> 'db \<Rightarrow> (slashing_error, unit) result \<times> 'db"
    and record_att :: "'q \<Rightarrow> string \<Rightarrow> u64 \<Rightarrow> u64 \<Rightarrow> string option \<Rightarrow> 'db \<Rightarrow> (slashing_error, unit) result \<times> 'db"
    and block_recs :: "'db \<Rightarrow> (string \<times> u64 \<times> string option) set"
    and att_recs :: "'db \<Rightarrow> (string \<times> u64 \<times> u64 \<times> string option) set"
    and safe :: "'db \<Rightarrow> bool"
    and epoch_ok :: "u64 \<Rightarrow> bool"
  assumes block_call: "safe db \<Longrightarrow> record_block q pk slot root db = (res, db') \<Longrightarrow>
      safe db' \<and> block_recs db \<subseteq> block_recs db' \<and> att_recs db' = att_recs db
      \<and> (res = Inr () \<longrightarrow> (pk, slot, root) \<in> block_recs db')"
    and att_call: "safe db \<Longrightarrow> epoch_ok src \<Longrightarrow> epoch_ok tgt \<Longrightarrow>
      record_att q pk src tgt root db = (res, db') \<Longrightarrow>
      safe db' \<and> att_recs db \<subseteq> att_recs db'
      \<and> att_recs db' \<subseteq> insert (pk, src, tgt, root) (att_recs db) \<and> block_recs db' = block_recs db
      \<and> (res = Inr () \<longrightarrow> (\<exists>s. (pk, s, tgt, root) \<in> att_recs db'))"
    and block_recs_key: "safe db \<Longrightarrow> (pk, slot, r) \<in> block_recs db \<Longrightarrow> (pk, slot, r') \<in> block_recs db \<Longrightarrow> r = r'"
    and att_recs_key: "safe db \<Longrightarrow> (pk, s, t, r) \<in> att_recs db \<Longrightarrow> (pk, s', t, r') \<in> att_recs db
      \<Longrightarrow> s = s' \<and> r = r'"
    and att_recs_safe: "safe db \<Longrightarrow> (pk, s, t, r) \<in> att_recs db \<Longrightarrow> (pk, s', t', r') \<in> att_recs db
      \<Longrightarrow> \<not> (s < s' \<and> t' < t)"

interpretation sqlite_db: slashing_protection check_and_record_block_proposal
  check_and_record_attestation block_records att_records db_safe epoch_63
proof
  show "db_safe db \<Longrightarrow> check_and_record_block_proposal q pk slot root db = (res, db') \<Longrightarrow>
      db_safe db' \<and> block_records db \<subseteq> block_records db' \<and> att_records db' = att_records db
      \<and> (res = Inr () \<longrightarrow> (pk, slot, root) \<in> block_records db')" for db q pk slot root res db'
    by (rule record_block_keeps)
  show "db_safe db \<Longrightarrow> epoch_63 src \<Longrightarrow> epoch_63 tgt \<Longrightarrow>
      check_and_record_attestation q pk src tgt root db = (res, db') \<Longrightarrow>
      db_safe db' \<and> att_records db \<subseteq> att_records db'
      \<and> att_records db' \<subseteq> insert (pk, src, tgt, root) (att_records db) \<and> block_records db' = block_records db
      \<and> (res = Inr () \<longrightarrow> (\<exists>s. (pk, s, tgt, root) \<in> att_records db'))" for db q pk src tgt root res db'
    by (rule record_att_keeps)
qed (fact block_records_key att_records_key att_records_safe)+

text \<open>The bound of 63 bits is needed: the signed comparison misses a vote around \<open>(5, 6)\<close>.\<close>

lemma surround_missed_beyond_63_bits:
  "\<not> list_ex (sql_surrounds 3 9223372036854775808)
       [\<lparr>ar_pubkey = pk, ar_source_epoch = 3, ar_target_epoch = 4, ar_signing_root = None\<rparr>,
        \<lparr>ar_pubkey = pk, ar_source_epoch = 5, ar_target_epoch = 6, ar_signing_root = None\<rparr>]
   \<and> (3 :: u64) < 5 \<and> (6 :: u64) < 9223372036854775808"
  by (simp add: sql_surrounds_def)

section \<open>Progress\<close>

lemma sql_min_in: "sql_min xs = Some m \<Longrightarrow> m \<in> set xs"
proof (induction xs)
  case (Cons x xs)
  have "fold (\<lambda>y m. if sint y < sint m then y else m) ys z \<in> insert z (set ys)" for ys z
    by (induction ys arbitrary: z) auto
  with Cons.prems show ?case by force
qed simp

lemma no_faultsD: "no_faults Q \<Longrightarrow> sq_fault Q step = None"
  by (simp add: no_faults_def)

lemma sql_ok: "no_faults Q \<Longrightarrow> bind_result (sql Q step v) f = f v"
  by (simp add: sql_def no_faultsD)

lemma fresh_vote_checked:
  assumes "db_safe db" and "no_faults Q" and "epoch_63 src" and "epoch_63 tgt"
    and fwd: "\<And>r. r \<in> set (atts_of_key db pk) \<Longrightarrow> ar_source_epoch r \<le> src \<and> ar_target_epoch r < tgt"
  shows "check_attestation Q db pk src tgt root = Inr True \<and> att_at db pk tgt = None"
proof -
  have "\<not> src < m" if "sql_min (map ar_source_epoch (atts_of_key db pk)) = Some m" for m
    using sql_min_in [OF that] fwd by (auto simp: linorder_not_less)
  moreover have "\<not> tgt \<le> m" if "sql_min (map ar_target_epoch (atts_of_key db pk)) = Some m" for m
    using sql_min_in [OF that] fwd by (auto simp: linorder_not_le)
  moreover have none: "att_at db pk tgt = None"
    using fwd by (auto simp: att_at_def find_None_iff)
  moreover have "\<not> sql_surrounds src tgt r" if "r \<in> set (atts_of_key db pk)" for r
  proof -
    from that assms(1) have "epoch_63 (ar_source_epoch r)" "epoch_63 (ar_target_epoch r)"
      by (auto simp: atts_of_key_def db_safe_def votes_safe_def)
    then show ?thesis using fwd [OF that] sql_surrounds_63 [OF assms(3,4), of r] by auto
  qed
  then have "filter (sql_surrounds src tgt) (atts_of_key db pk) = []" by (simp add: filter_empty_conv)
  ultimately show ?thesis
    by (auto simp: check_attestation_def check_surround_def sql_ok [OF assms(2)] Let_def split: option.splits)
qed

text \<open>C30: Protection never blocks honest progress.  While SQLite works, a vote whose source is no older than
  any recorded source of the key and whose target is later than any recorded target is accepted and recorded,
  and so is a block for a slot after all recorded ones.\<close>

theorem forward_messages_accepted:
  assumes "db_safe db" and "no_faults Q"
  shows "(epoch_63 src \<longrightarrow> epoch_63 tgt \<longrightarrow>
            (\<forall>r \<in> set (atts_of_key db pk). ar_source_epoch r \<le> src \<and> ar_target_epoch r < tgt) \<longrightarrow>
            check_and_record_attestation Q pk src tgt root db =
              (Inr (), db\<lparr>signed_attestation := signed_attestation db @
                 [\<lparr>ar_pubkey = pk, ar_source_epoch = src, ar_target_epoch = tgt, ar_signing_root = root\<rparr>]\<rparr>))
       \<and> ((\<forall>r \<in> set (blocks_of_key db pk). br_slot r < slot) \<longrightarrow>
            check_and_record_block_proposal Q pk slot root db =
              (Inr (), db\<lparr>signed_block := signed_block db @
                 [\<lparr>br_pubkey = pk, br_slot = slot, br_signing_root = root\<rparr>]\<rparr>))"
proof (intro conjI impI)
  assume "epoch_63 src" and "epoch_63 tgt"
    and "\<forall>r \<in> set (atts_of_key db pk). ar_source_epoch r \<le> src \<and> ar_target_epoch r < tgt"
  then have "check_attestation Q db pk src tgt root = Inr True \<and> att_at db pk tgt = None"
    by (intro fresh_vote_checked assms) auto
  then show "check_and_record_attestation Q pk src tgt root db =
      (Inr (), db\<lparr>signed_attestation := signed_attestation db @
         [\<lparr>ar_pubkey = pk, ar_source_epoch = src, ar_target_epoch = tgt, ar_signing_root = root\<rparr>]\<rparr>)"
    by (simp add: check_and_record_attestation_def insert_att_row_def sql_ok [OF assms(2)] sql_def no_faultsD [OF assms(2)])
next
  assume later: "\<forall>r \<in> set (blocks_of_key db pk). br_slot r < slot"
  then have "\<not> slot < m" if "sql_min (map br_slot (blocks_of_key db pk)) = Some m" for m
    using sql_min_in [OF that] by (auto simp: linorder_not_less)
  moreover have "block_at db pk slot = None" using later by (auto simp: block_at_def find_None_iff)
  ultimately show "check_and_record_block_proposal Q pk slot root db =
      (Inr (), db\<lparr>signed_block := signed_block db @
         [\<lparr>br_pubkey = pk, br_slot = slot, br_signing_root = root\<rparr>]\<rparr>)"
    by (auto simp: check_and_record_block_proposal_def check_block_proposal_def insert_block_row_def
        sql_ok [OF assms(2)] sql_def no_faultsD [OF assms(2)] split: option.splits)
qed

theorem forward_messages_accepted_witness:
  "check_and_record_attestation healthy ''0xa'' 4 6 (Some ''0x2'')
     \<lparr>signed_block = [], signed_attestation =
        [\<lparr>ar_pubkey = ''0xa'', ar_source_epoch = 4, ar_target_epoch = 5, ar_signing_root = Some ''0x1''\<rparr>]\<rparr> =
     (Inr (), \<lparr>signed_block = [], signed_attestation =
        [\<lparr>ar_pubkey = ''0xa'', ar_source_epoch = 4, ar_target_epoch = 5, ar_signing_root = Some ''0x1''\<rparr>,
         \<lparr>ar_pubkey = ''0xa'', ar_source_epoch = 4, ar_target_epoch = 6, ar_signing_root = Some ''0x2''\<rparr>]\<rparr>)"
  (is "check_and_record_attestation _ _ _ _ _ ?db = _")
proof -
  have "db_safe ?db"
    by (simp add: db_safe_def keys_ok_def votes_safe_def surrounds_def epoch_63_def)
  moreover have "no_faults healthy" by (simp add: no_faults_def healthy_def)
  moreover have "epoch_63 4" "epoch_63 6" by (simp_all add: epoch_63_def)
  ultimately show ?thesis
    using forward_messages_accepted [of ?db healthy 4 6 "''0xa''" "Some ''0x2''"] by (simp add: atts_of_key_def)
qed

end
