(* ===== verification/VC_Interchange.thy ===== *)
theory VC_Interchange
  imports VC_Slashing "HOL-Library.Char_ord" "HOL-Library.List_Lexorder"
begin

text \<open>
  The EIP-3076 interchange format of the slashing protection database
  (\<^verbatim>\<open>src/crates/pharos-validator/src/interchange.rs\<close>): import and export, with the decimal strings
  of its integers.  The JSON text of the file is written and read by serde and is not modelled; a file
  is the record the code builds.
\<close>

section \<open>Decimal strings\<close>

text \<open>\<^verbatim>\<open>str::parse::<u64>\<close> and \<^verbatim>\<open>u64::to_string\<close> of the standard library.\<close>

datatype parse_int_error = EmptyInt | InvalidDigit | PosOverflow

definition digit_of :: "char \<Rightarrow> nat option" where
  "digit_of c = (let n = of_char c :: nat in if 48 \<le> n \<and> n \<le> 57 then Some (n - 48) else None)"

fun parse_digits :: "nat \<Rightarrow> string \<Rightarrow> (parse_int_error, nat) result" where
  "parse_digits acc [] = Inr acc"
| "parse_digits acc (c # cs) =
     (case digit_of c of
        None \<Rightarrow> Inl InvalidDigit
      | Some d \<Rightarrow> if 2 ^ 64 \<le> acc * 10 + d then Inl PosOverflow else parse_digits (acc * 10 + d) cs)"

lemma parse_digits_code [code]:
  "parse_digits acc [] = Inr acc"
  "parse_digits acc (c # cs) =
     (case digit_of c of
        None \<Rightarrow> Inl InvalidDigit
      | Some d \<Rightarrow> if 18446744073709551616 \<le> int acc * 10 + int d then Inl PosOverflow
                else parse_digits (acc * 10 + d) cs)"
  by (auto split: option.splits)

definition parse_u64 :: "string \<Rightarrow> (parse_int_error, u64) result" where
  "parse_u64 s =
     (if s = [] then Inl EmptyInt
      else if s = ''+'' \<or> s = ''-'' then Inl InvalidDigit
      else bind_result (parse_digits 0 (if hd s = CHR ''+'' then tl s else s)) (\<lambda>n. Inr (word_of_nat n)))"

fun nat_to_string :: "nat \<Rightarrow> string" where
  "nat_to_string n =
     (if n < 10 then [char_of (48 + n)] else nat_to_string (n div 10) @ [char_of (48 + n mod 10)])"

declare nat_to_string.simps [simp del]

definition u64_to_string :: "u64 \<Rightarrow> string" where
  "u64_to_string w = nat_to_string (unat w)"

section \<open>Files\<close>

record interchange_block =
  ib_slot :: string
  ib_signing_root :: "string option"

record interchange_attestation =
  ia_source_epoch :: string
  ia_target_epoch :: string
  ia_signing_root :: "string option"

record interchange_entry =
  ie_pubkey :: string
  ie_signed_blocks :: "interchange_block list"
  ie_signed_attestations :: "interchange_attestation list"

record interchange_metadata =
  im_interchange_format_version :: string
  im_genesis_validators_root :: string

record interchange_file =
  if_metadata :: interchange_metadata
  if_data :: "interchange_entry list"

datatype interchange_error =
    SlashingFailed slashing_error
  | UnsupportedVersion string
  | GenesisRootMismatch string string
  | InvalidInteger string parse_int_error
  | InterchangeSqlite string

section \<open>Import\<close>

definition isql :: "sqlite \<Rightarrow> sql_step \<Rightarrow> 'a \<Rightarrow> (interchange_error, 'a) result" where
  "isql Q step v = (case sq_fault Q step of Some e \<Rightarrow> Inl (InterchangeSqlite e) | None \<Rightarrow> Inr v)"

definition parse_field :: "string \<Rightarrow> string \<Rightarrow> (interchange_error, u64) result" where
  "parse_field field s = (case parse_u64 s of Inl e \<Rightarrow> Inl (InvalidInteger field e) | Inr n \<Rightarrow> Inr n)"

text \<open>\<^verbatim>\<open>INSERT OR IGNORE\<close> keeps the row that is already there.\<close>

definition insert_or_ignore ::
  "('row \<Rightarrow> slashing_db \<Rightarrow> (slashing_error, slashing_db) result) \<Rightarrow> 'row \<Rightarrow> slashing_db \<Rightarrow> slashing_db" where
  "insert_or_ignore ins r db = (case ins r db of Inl _ \<Rightarrow> db | Inr db' \<Rightarrow> db')"

definition import_block ::
  "sqlite \<Rightarrow> string \<Rightarrow> interchange_block \<Rightarrow> slashing_db \<Rightarrow> (interchange_error, slashing_db) result" where
  "import_block Q pk b db =
     bind_result (parse_field ''slot'' (ib_slot b)) (\<lambda>slot.
       isql Q InsertRow (insert_or_ignore insert_block_row
         \<lparr>br_pubkey = pk, br_slot = slot, br_signing_root = ib_signing_root b\<rparr> db))"

definition import_attestation ::
  "sqlite \<Rightarrow> string \<Rightarrow> interchange_attestation \<Rightarrow> slashing_db \<Rightarrow> (interchange_error, slashing_db) result" where
  "import_attestation Q pk a db =
     bind_result (parse_field ''source_epoch'' (ia_source_epoch a)) (\<lambda>src.
     bind_result (parse_field ''target_epoch'' (ia_target_epoch a)) (\<lambda>tgt.
       isql Q InsertRow (insert_or_ignore insert_att_row
         \<lparr>ar_pubkey = pk, ar_source_epoch = src, ar_target_epoch = tgt,
          ar_signing_root = ia_signing_root a\<rparr> db)))"

definition import_entry ::
  "sqlite \<Rightarrow> interchange_entry \<Rightarrow> slashing_db \<Rightarrow> (interchange_error, slashing_db) result" where
  "import_entry Q entry db =
     bind_result (foldE (import_block Q (ie_pubkey entry)) (ie_signed_blocks entry) db)
       (foldE (import_attestation Q (ie_pubkey entry)) (ie_signed_attestations entry))"

definition import_interchange ::
  "sqlite \<Rightarrow> interchange_file \<Rightarrow> string \<Rightarrow> slashing_db \<Rightarrow> (interchange_error, unit) result \<times> slashing_db" where
  "import_interchange Q file expected_genesis_validators_root db =
     (let md = if_metadata file in
      if im_interchange_format_version md \<noteq> ''5''
      then (Inl (UnsupportedVersion (im_interchange_format_version md)), db)
      else if im_genesis_validators_root md \<noteq> expected_genesis_validators_root
      then (Inl (GenesisRootMismatch (im_genesis_validators_root md) expected_genesis_validators_root), db)
      else
        (case bind_result (isql Q BeginDeferred ()) (\<lambda>_.
              bind_result (foldE (import_entry Q) (if_data file) db) (isql Q Commit)) of
           Inl e \<Rightarrow> (Inl e, db)
         | Inr db' \<Rightarrow> (Inr (), db')))"

definition import_slashing_protection ::
  "sqlite \<Rightarrow> interchange_file \<Rightarrow> string \<Rightarrow> slashing_db \<Rightarrow> (interchange_error, unit) result \<times> slashing_db" where
  "import_slashing_protection Q file expected_genesis_validators_root db =
     (case sql Q LockConn () of
        Inl e \<Rightarrow> (Inl (SlashingFailed e), db)
      | Inr _ \<Rightarrow> import_interchange Q file expected_genesis_validators_root db)"

section \<open>Export\<close>

definition export_entry :: "slashing_db \<Rightarrow> string \<Rightarrow> interchange_entry" where
  "export_entry db pk =
     \<lparr>ie_pubkey = pk,
      ie_signed_blocks =
        map (\<lambda>r. \<lparr>ib_slot = u64_to_string (br_slot r), ib_signing_root = br_signing_root r\<rparr>)
          (sort_key (\<lambda>r. sint (br_slot r)) (blocks_of_key db pk)),
      ie_signed_attestations =
        map (\<lambda>r. \<lparr>ia_source_epoch = u64_to_string (ar_source_epoch r),
                   ia_target_epoch = u64_to_string (ar_target_epoch r), ia_signing_root = ar_signing_root r\<rparr>)
          (sort_key (\<lambda>r. sint (ar_target_epoch r)) (atts_of_key db pk))\<rparr>"

definition export_keys :: "slashing_db \<Rightarrow> string list" where
  "export_keys db = sort (remdups (map br_pubkey (signed_block db) @ map ar_pubkey (signed_attestation db)))"

definition export_interchange ::
  "sqlite \<Rightarrow> slashing_db \<Rightarrow> string \<Rightarrow> (interchange_error, interchange_file) result" where
  "export_interchange Q db genesis_validators_root =
     bind_result (isql Q SelectKeys (export_keys db)) (\<lambda>pubkeys.
     bind_result (map_result (\<lambda>pk. isql Q SelectRow (export_entry db pk)) pubkeys) (\<lambda>entries.
       Inr \<lparr>if_metadata = \<lparr>im_interchange_format_version = ''5'',
                            im_genesis_validators_root = genesis_validators_root\<rparr>,
            if_data = entries\<rparr>))"

definition export_slashing_protection ::
  "sqlite \<Rightarrow> slashing_db \<Rightarrow> string list \<Rightarrow> string \<Rightarrow> (interchange_error, interchange_file) result" where
  "export_slashing_protection Q db pubkeys_hex genesis_validators_root =
     (case sql Q LockConn () of
        Inl e \<Rightarrow> Inl (SlashingFailed e)
      | Inr _ \<Rightarrow>
          bind_result (export_interchange Q db genesis_validators_root) (\<lambda>full.
            Inr (if pubkeys_hex \<noteq> []
                 then full\<lparr>if_data := filter (\<lambda>e. ie_pubkey e \<in> set pubkeys_hex) (if_data full)\<rparr>
                 else full)))"

section \<open>Lemmas\<close>

lemma digit_of_char: "d < 10 \<Longrightarrow> digit_of (char_of (48 + d)) = Some d"
  by (simp add: digit_of_def Let_def)

lemma parse_digits_append:
  "parse_digits acc (xs @ ys) = bind_result (parse_digits acc xs) (\<lambda>a. parse_digits a ys)"
  by (induction xs arbitrary: acc) (auto split: option.splits)

lemma parse_nat_to_string: "n < 2 ^ 64 \<Longrightarrow> parse_digits 0 (nat_to_string n) = Inr n"
proof (induction n rule: nat_to_string.induct)
  case (1 n)
  show ?case
  proof (cases "n < 10")
    case True
    then show ?thesis using digit_of_char [of n] by (simp add: nat_to_string.simps [of n])
  next
    case False
    have "parse_digits 0 (nat_to_string (n div 10)) = Inr (n div 10)"
      using "1.IH" [OF False] "1.prems" by linarith
    moreover have "n div 10 * 10 + n mod 10 = n" by (rule div_mult_mod_eq)
    ultimately show ?thesis
      using False "1.prems" digit_of_char [of "n mod 10"]
      by (simp add: nat_to_string.simps [of n] parse_digits_append)
  qed
qed

lemma nat_to_string_digits: "nat_to_string n \<noteq> [] \<and> (\<forall>c \<in> set (nat_to_string n). digit_of c \<noteq> None)"
proof (induction n rule: nat_to_string.induct)
  case (1 n)
  then show ?case
    using digit_of_char [of n] digit_of_char [of "n mod 10"] by (auto simp: nat_to_string.simps [of n])
qed

lemma digit_of_signs: "digit_of CHR ''+'' = None" "digit_of CHR ''-'' = None"
  by (simp_all add: digit_of_def)

lemma parse_u64_to_string [simp]: "parse_u64 (u64_to_string w) = Inr w"
proof -
  have "hd (u64_to_string w) \<noteq> CHR ''+''" and "u64_to_string w \<noteq> ''+''" and "u64_to_string w \<noteq> ''-''"
    and ne: "u64_to_string w \<noteq> []"
    using nat_to_string_digits [of "unat w"] digit_of_signs unfolding u64_to_string_def
    by (metis hd_in_set, metis list.set_intros(1), metis list.set_intros(1), simp)
  then show ?thesis
    using parse_nat_to_string [of "unat w"] unsigned_less [of w, where ?'a = nat]
    by (simp add: parse_u64_def u64_to_string_def)
qed

lemma parse_field_to_string [simp]: "parse_field f (u64_to_string w) = Inr w"
  by (simp add: parse_field_def)

lemma no_faults_sql: "no_faults Q \<Longrightarrow> isql Q step v = Inr v"
  by (simp add: no_faults_def isql_def)

text \<open>Rows with new keys are appended one after the other.\<close>

lemma import_blocks_fresh:
  assumes "no_faults Q" and "distinct (map block_key (signed_block db @ rs))"
    and "\<forall>r \<in> set rs. br_pubkey r = pk"
  shows "foldE (import_block Q pk)
           (map (\<lambda>r. \<lparr>ib_slot = u64_to_string (br_slot r), ib_signing_root = br_signing_root r\<rparr>) rs) db
         = Inr (db\<lparr>signed_block := signed_block db @ rs\<rparr>)"
  using assms(2,3)
proof (induction rs arbitrary: db)
  case (Cons r rs)
  have "insert_block_row r db = Inr (db\<lparr>signed_block := signed_block db @ [r]\<rparr>)"
    using Cons.prems(1) by (subst insert_block_row_Inr) auto
  moreover have "\<lparr>br_pubkey = pk, br_slot = br_slot r, br_signing_root = br_signing_root r\<rparr> = r"
    using Cons.prems(2) by auto
  ultimately have "import_block Q pk
      \<lparr>ib_slot = u64_to_string (br_slot r), ib_signing_root = br_signing_root r\<rparr> db
      = Inr (db\<lparr>signed_block := signed_block db @ [r]\<rparr>)"
    using no_faults_sql [OF assms(1)] by (simp add: import_block_def insert_or_ignore_def)
  with Cons.IH [of "db\<lparr>signed_block := signed_block db @ [r]\<rparr>"] Cons.prems show ?case by simp
qed simp

lemma import_atts_fresh:
  assumes "no_faults Q" and "distinct (map att_key (signed_attestation db @ rs))"
    and "\<forall>r \<in> set rs. ar_pubkey r = pk"
  shows "foldE (import_attestation Q pk)
           (map (\<lambda>r. \<lparr>ia_source_epoch = u64_to_string (ar_source_epoch r),
                       ia_target_epoch = u64_to_string (ar_target_epoch r),
                       ia_signing_root = ar_signing_root r\<rparr>) rs) db
         = Inr (db\<lparr>signed_attestation := signed_attestation db @ rs\<rparr>)"
  using assms(2,3)
proof (induction rs arbitrary: db)
  case (Cons r rs)
  have "insert_att_row r db = Inr (db\<lparr>signed_attestation := signed_attestation db @ [r]\<rparr>)"
    using Cons.prems(1) by (subst insert_att_row_Inr) auto
  moreover have "\<lparr>ar_pubkey = pk, ar_source_epoch = ar_source_epoch r, ar_target_epoch = ar_target_epoch r,
      ar_signing_root = ar_signing_root r\<rparr> = r"
    using Cons.prems(2) by simp
  ultimately have "import_attestation Q pk
      \<lparr>ia_source_epoch = u64_to_string (ar_source_epoch r), ia_target_epoch = u64_to_string (ar_target_epoch r),
       ia_signing_root = ar_signing_root r\<rparr> db
      = Inr (db\<lparr>signed_attestation := signed_attestation db @ [r]\<rparr>)"
    using no_faults_sql [OF assms(1)] by (simp add: import_attestation_def insert_or_ignore_def)
  with Cons.IH [of "db\<lparr>signed_attestation := signed_attestation db @ [r]\<rparr>"] Cons.prems show ?case by simp
qed simp

abbreviation exported_blocks :: "slashing_db \<Rightarrow> string \<Rightarrow> block_row list" where
  "exported_blocks db pk \<equiv> sort_key (\<lambda>r. sint (br_slot r)) (blocks_of_key db pk)"

abbreviation exported_atts :: "slashing_db \<Rightarrow> string \<Rightarrow> att_row list" where
  "exported_atts db pk \<equiv> sort_key (\<lambda>r. sint (ar_target_epoch r)) (atts_of_key db pk)"

lemma distinct_map_sort_key: "distinct (map f (sort_key g xs)) = distinct (map f xs)"
  by (simp add: distinct_map)

lemma exported_distinct:
  assumes "keys_ok db"
  shows "distinct (map block_key (exported_blocks db pk))" "distinct (map att_key (exported_atts db pk))"
  using assms unfolding distinct_map_sort_key keys_ok_def blocks_of_key_def atts_of_key_def
  by (simp_all add: distinct_map_filter)

lemma import_entry_export:
  assumes "no_faults Q" and "keys_ok db"
    and "pk \<notin> br_pubkey ` set (signed_block d)" and "pk \<notin> ar_pubkey ` set (signed_attestation d)"
    and "keys_ok d"
  shows "import_entry Q (export_entry db pk) d =
           Inr (d\<lparr>signed_block := signed_block d @ exported_blocks db pk,
                  signed_attestation := signed_attestation d @ exported_atts db pk\<rparr>)"
proof -
  let ?d = "d\<lparr>signed_block := signed_block d @ exported_blocks db pk\<rparr>"
  have "distinct (map block_key (signed_block d @ exported_blocks db pk))"
    using assms(3,5) exported_distinct(1) [OF assms(2), of pk]
    by (auto simp: keys_ok_def block_key_def blocks_of_key_def image_iff)
  note blocks = import_blocks_fresh [OF assms(1) this, of pk]
  have "distinct (map att_key (signed_attestation ?d @ exported_atts db pk))"
    using assms(4,5) exported_distinct(2) [OF assms(2), of pk]
    by (auto simp: keys_ok_def att_key_def atts_of_key_def image_iff)
  note atts = import_atts_fresh [OF assms(1) this, of pk]
  have "\<forall>r \<in> set (exported_blocks db pk). br_pubkey r = pk" "\<forall>r \<in> set (exported_atts db pk). ar_pubkey r = pk"
    by (simp_all add: blocks_of_key_def atts_of_key_def)
  then show ?thesis
    unfolding import_entry_def export_entry_def interchange_entry.select_convs
    using blocks atts by (simp only: bind_result_simps) simp
qed

lemma import_entries_export:
  assumes "no_faults Q" and "keys_ok db" and "distinct pks" and "keys_ok d"
    and "set pks \<inter> br_pubkey ` set (signed_block d) = {}"
    and "set pks \<inter> ar_pubkey ` set (signed_attestation d) = {}"
  shows "foldE (import_entry Q) (map (export_entry db) pks) d =
           Inr (d\<lparr>signed_block := signed_block d @ concat (map (exported_blocks db) pks),
                  signed_attestation := signed_attestation d @ concat (map (exported_atts db) pks)\<rparr>)"
  using assms(3-)
proof (induction pks arbitrary: d)
  case (Cons pk pks)
  let ?d = "d\<lparr>signed_block := signed_block d @ exported_blocks db pk,
              signed_attestation := signed_attestation d @ exported_atts db pk\<rparr>"
  have fresh: "pk \<notin> br_pubkey ` set (signed_block d)" "pk \<notin> ar_pubkey ` set (signed_attestation d)"
    using Cons.prems by auto
  have "keys_ok ?d"
    using fresh Cons.prems(2) exported_distinct [OF assms(2), of pk]
    by (auto simp: keys_ok_def block_key_def att_key_def blocks_of_key_def atts_of_key_def image_iff)
  moreover have "br_pubkey ` set (exported_blocks db pk) \<subseteq> {pk}" "ar_pubkey ` set (exported_atts db pk) \<subseteq> {pk}"
    by (auto simp: blocks_of_key_def atts_of_key_def)
  ultimately have "foldE (import_entry Q) (map (export_entry db) pks) ?d =
      Inr (?d\<lparr>signed_block := signed_block ?d @ concat (map (exported_blocks db) pks),
             signed_attestation := signed_attestation ?d @ concat (map (exported_atts db) pks)\<rparr>)"
    using Cons.prems by (intro Cons.IH) (auto simp: image_Un)
  then show ?case
    using import_entry_export [OF assms(1,2) fresh Cons.prems(2)] by simp
qed simp

lemma export_file:
  "no_faults Q \<Longrightarrow> export_interchange Q db gvr =
     Inr \<lparr>if_metadata = \<lparr>im_interchange_format_version = ''5'', im_genesis_validators_root = gvr\<rparr>,
          if_data = map (export_entry db) (export_keys db)\<rparr>"
proof -
  assume ok: "no_faults Q"
  have "map_result (\<lambda>pk. isql Q SelectRow (export_entry db pk)) pks = Inr (map (export_entry db) pks)" for pks
    by (induction pks) (simp_all add: no_faults_sql [OF ok])
  then show ?thesis by (simp add: export_interchange_def no_faults_sql [OF ok])
qed

lemma exported_rows:
  "set (concat (map (exported_blocks db) (export_keys db))) = set (signed_block db)"
  "set (concat (map (exported_atts db) (export_keys db))) = set (signed_attestation db)"
  by (auto simp: export_keys_def blocks_of_key_def atts_of_key_def)

text \<open>An import never breaks the primary keys, whatever the file holds.\<close>

lemma insert_or_ignore_keys:
  "keys_ok db \<Longrightarrow> keys_ok (insert_or_ignore insert_block_row r db)"
  "keys_ok db \<Longrightarrow> keys_ok (insert_or_ignore insert_att_row a db)"
  by (auto simp: insert_or_ignore_def insert_block_row_Inr insert_att_row_Inr keys_ok_def split: sum.splits)

lemma isql_Inr [simp]: "isql Q step v = Inr w \<longleftrightarrow> sq_fault Q step = None \<and> w = v"
  by (auto simp: isql_def split: option.splits)

lemma import_block_keys: "import_block Q pk b db = Inr db' \<Longrightarrow> keys_ok db \<Longrightarrow> keys_ok db'"
  by (auto simp: import_block_def bind_result_Inr insert_or_ignore_keys)

lemma import_attestation_keys: "import_attestation Q pk a db = Inr db' \<Longrightarrow> keys_ok db \<Longrightarrow> keys_ok db'"
  by (auto simp: import_attestation_def bind_result_Inr insert_or_ignore_keys)

lemma import_entry_keys:
  assumes "import_entry Q entry db = Inr db'" and "keys_ok db"
  shows "keys_ok db'"
proof -
  from assms(1) obtain d where d: "foldE (import_block Q (ie_pubkey entry)) (ie_signed_blocks entry) db = Inr d"
    "foldE (import_attestation Q (ie_pubkey entry)) (ie_signed_attestations entry) d = Inr db'"
    by (auto simp: import_entry_def bind_result_Inr)
  have "keys_ok d" using d(1) assms(2) by (rule foldE_invariant [where P = keys_ok]) (rule import_block_keys)
  with d(2) show ?thesis by (rule foldE_invariant [where P = keys_ok]) (rule import_attestation_keys)
qed

lemma import_interchange_keys:
  assumes "import_interchange Q file gvr db = (res, db')" and "keys_ok db"
  shows "keys_ok db'"
proof (cases "db' = db")
  case False
  with assms(1) have "foldE (import_entry Q) (if_data file) db = Inr db'"
    by (auto simp: import_interchange_def Let_def bind_result_Inr split: if_splits sum.splits)
  then show ?thesis using assms(2) by (rule foldE_invariant [where P = keys_ok]) (rule import_entry_keys)
qed (use assms(2) in simp)

text \<open>No record is lost.\<close>

definition db_grows :: "slashing_db \<Rightarrow> slashing_db \<Rightarrow> bool" where
  "db_grows db db' \<longleftrightarrow>
     set (signed_block db) \<subseteq> set (signed_block db') \<and> set (signed_attestation db) \<subseteq> set (signed_attestation db')"

lemma insert_or_ignore_grows:
  "db_grows d db \<Longrightarrow> db_grows d (insert_or_ignore insert_block_row r db)"
  "db_grows d db \<Longrightarrow> db_grows d (insert_or_ignore insert_att_row a db)"
  by (auto simp: insert_or_ignore_def insert_block_row_Inr insert_att_row_Inr db_grows_def split: sum.splits)

lemma import_entry_grows:
  assumes "import_entry Q entry db = Inr db'" and "db_grows d0 db"
  shows "db_grows d0 db'"
proof -
  from assms(1) obtain d where d: "foldE (import_block Q (ie_pubkey entry)) (ie_signed_blocks entry) db = Inr d"
    "foldE (import_attestation Q (ie_pubkey entry)) (ie_signed_attestations entry) d = Inr db'"
    by (auto simp: import_entry_def bind_result_Inr)
  have "db_grows d0 d" using d(1) assms(2)
    by (rule foldE_invariant [where P = "db_grows d0"])
       (auto simp: import_block_def bind_result_Inr insert_or_ignore_grows)
  with d(2) show ?thesis
    by (rule foldE_invariant [where P = "db_grows d0"])
       (auto simp: import_attestation_def bind_result_Inr insert_or_ignore_grows)
qed

lemma import_grows:
  assumes "import_slashing_protection Q file gvr db = (res, db')"
  shows "block_records db \<subseteq> block_records db' \<and> att_records db \<subseteq> att_records db'"
proof -
  have "db_grows db db'"
  proof (cases "db' = db")
    case False
    with assms have "foldE (import_entry Q) (if_data file) db = Inr db'"
      by (auto simp: import_slashing_protection_def import_interchange_def Let_def bind_result_Inr
          split: if_splits sum.splits)
    then show ?thesis by (rule foldE_invariant [where P = "db_grows db"]) (simp_all add: db_grows_def[of db db] import_entry_grows)
  qed (simp add: db_grows_def)
  then show ?thesis by (auto simp: db_grows_def block_records_def att_records_def)
qed

text \<open>C31: A validator that moves to another machine keeps its protection.  Importing the exported file
  into a new database succeeds and gives exactly the records of the old one, so the new database is
  safe when the old one was.\<close>

theorem export_import_roundtrip:
  assumes "no_faults Q" and "keys_ok db"
  shows "\<exists>file db'. export_interchange Q db gvr = Inr file
           \<and> import_interchange Q file gvr (open_db None) = (Inr (), db')
           \<and> block_records db' = block_records db \<and> att_records db' = att_records db
           \<and> (db_safe db \<longrightarrow> db_safe db')"
proof -
  let ?ks = "export_keys db"
  let ?db' = "\<lparr>signed_block = concat (map (exported_blocks db) ?ks),
               signed_attestation = concat (map (exported_atts db) ?ks)\<rparr>"
  let ?file = "\<lparr>if_metadata = \<lparr>im_interchange_format_version = ''5'', im_genesis_validators_root = gvr\<rparr>,
               if_data = map (export_entry db) ?ks\<rparr>"
  have "distinct ?ks" by (simp add: export_keys_def)
  then have "import_interchange Q ?file gvr (open_db None) = (Inr (), ?db')"
    using import_entries_export [OF assms, of ?ks "open_db None"]
    by (simp add: import_interchange_def open_db_def keys_ok_def no_faults_sql [OF assms(1)])
  moreover have "block_records ?db' = block_records db \<and> att_records ?db' = att_records db"
    using exported_rows [of db] unfolding block_records_def att_records_def slashing_db.select_convs by simp
  moreover have "db_safe ?db'" if "db_safe db"
    using that exported_rows(2) [of db] import_interchange_keys [OF calculation(1)]
    by (simp add: db_safe_def votes_safe_def open_db_def keys_ok_def)
  ultimately show ?thesis using export_file [OF assms(1), of db gvr] by blast
qed

definition sample_db :: slashing_db where
  "sample_db =
     \<lparr>signed_block = [\<lparr>br_pubkey = ''0xb'', br_slot = 12, br_signing_root = Some ''0x2''\<rparr>,
                      \<lparr>br_pubkey = ''0xa'', br_slot = 7, br_signing_root = None\<rparr>,
                      \<lparr>br_pubkey = ''0xb'', br_slot = 9, br_signing_root = Some ''0x1''\<rparr>],
      signed_attestation = [\<lparr>ar_pubkey = ''0xb'', ar_source_epoch = 3, ar_target_epoch = 4,
                             ar_signing_root = Some ''0x3''\<rparr>]\<rparr>"

theorem export_import_roundtrip_witness:
  "\<exists>file db'. export_interchange healthy sample_db ''0x0'' = Inr file
     \<and> import_interchange healthy file ''0x0'' (open_db None) = (Inr (), db')
     \<and> block_records db' = block_records sample_db \<and> att_records db' = att_records sample_db
     \<and> (db_safe sample_db \<longrightarrow> db_safe db')"
  by (rule export_import_roundtrip)
     (simp_all add: no_faults_def healthy_def keys_ok_def sample_db_def block_key_def att_key_def)

text \<open>
  The import checks no slashing rule: a file with two votes of one key, one around the other, is
  imported whole, and the database that results is not safe.
\<close>

definition conflicting_file :: interchange_file where
  "conflicting_file =
     \<lparr>if_metadata = \<lparr>im_interchange_format_version = ''5'', im_genesis_validators_root = ''0x0''\<rparr>,
      if_data = [\<lparr>ie_pubkey = ''0xa'', ie_signed_blocks = [],
        ie_signed_attestations =
          [\<lparr>ia_source_epoch = ''3'', ia_target_epoch = ''4'', ia_signing_root = Some ''0x1''\<rparr>,
           \<lparr>ia_source_epoch = ''2'', ia_target_epoch = ''5'', ia_signing_root = Some ''0x2''\<rparr>]\<rparr>]\<rparr>"

lemma import_keeps_surrounding_votes:
  "import_interchange healthy conflicting_file ''0x0'' (open_db None) =
     (Inr (), \<lparr>signed_block = [], signed_attestation =
        [\<lparr>ar_pubkey = ''0xa'', ar_source_epoch = 3, ar_target_epoch = 4, ar_signing_root = Some ''0x1''\<rparr>,
         \<lparr>ar_pubkey = ''0xa'', ar_source_epoch = 2, ar_target_epoch = 5, ar_signing_root = Some ''0x2''\<rparr>]\<rparr>)"
  by code_simp

end
