(* ===== verification/VC_Doppelganger.thy ===== *)
theory VC_Doppelganger
  imports Prelude
begin

text \<open>
  Doppelganger protection of the validator client
  (\<^verbatim>\<open>src/crates/pharos-validator/src/doppelganger.rs\<close>): the guard that holds back signing after a
  start, and the loop that asks the beacon node whether a key is live elsewhere.
\<close>

datatype validator_state = HoldOff u64 | Cleared

definition HOLDOFF_EPOCHS :: u64 where
  "HOLDOFF_EPOCHS = 2"

record doppelganger_guard =
  dg_enabled :: bool
  dg_states :: "(string \<times> validator_state) list"

definition guard_new :: "bool \<Rightarrow> string list \<Rightarrow> u64 \<Rightarrow> doppelganger_guard" where
  "guard_new enabled pubkeys_hex startup_epoch =
     \<lparr>dg_enabled = enabled,
      dg_states = fold (\<lambda>pk. AList.update pk
        (if enabled then HoldOff (saturating_add startup_epoch HOLDOFF_EPOCHS) else Cleared)) pubkeys_hex []\<rparr>"

definition may_sign :: "doppelganger_guard \<Rightarrow> string \<Rightarrow> u64 \<Rightarrow> bool" where
  "may_sign g pk current_epoch \<longleftrightarrow>
     (if \<not> dg_enabled g then True
      else case map_of (dg_states g) pk of
             Some Cleared \<Rightarrow> True
           | Some (HoldOff clear_epoch) \<Rightarrow> clear_epoch \<le> current_epoch
           | None \<Rightarrow> False)"

fun advance_state :: "u64 \<Rightarrow> validator_state \<Rightarrow> validator_state" where
  "advance_state current_epoch (HoldOff clear_epoch) =
     (if clear_epoch \<le> current_epoch then Cleared else HoldOff clear_epoch)"
| "advance_state current_epoch Cleared = Cleared"

definition advance :: "u64 \<Rightarrow> doppelganger_guard \<Rightarrow> doppelganger_guard" where
  "advance current_epoch g = g\<lparr>dg_states := map (\<lambda>(pk, st). (pk, advance_state current_epoch st)) (dg_states g)\<rparr>"

section \<open>The liveness loop\<close>

datatype bn_error = Unavailable | OtherBnError string

datatype check_outcome = ExitProcess | Passed | CheckFailed bn_error

text \<open>\<open>liveness\<close> is the beacon node's answer: the validators of an epoch with their live flags.\<close>

definition run_doppelganger_check ::
  "(u64 \<Rightarrow> u64 list \<Rightarrow> (bn_error, (u64 \<times> bool) list) result) \<Rightarrow> u64 list \<Rightarrow> u64 \<Rightarrow> check_outcome" where
  "run_doppelganger_check liveness validator_indices epoch =
     (case liveness epoch validator_indices of
        Inl e \<Rightarrow> CheckFailed e
      | Inr results \<Rightarrow> if list_ex snd results then ExitProcess else Passed)"

definition poll_epochs :: "u64 \<Rightarrow> u64 list" where
  "poll_epochs startup_epoch =
     map word_of_nat [unat (saturating_sub startup_epoch 1)..<unat (saturating_add startup_epoch HOLDOFF_EPOCHS)]"

text \<open>Whether the loop ends the process.  A failed check is logged and skipped.\<close>

definition run_doppelganger_loop ::
  "bool \<Rightarrow> (u64 \<Rightarrow> u64 list \<Rightarrow> (bn_error, (u64 \<times> bool) list) result) \<Rightarrow> u64 list \<Rightarrow> u64 \<Rightarrow> bool" where
  "run_doppelganger_loop enabled liveness validator_indices startup_epoch =
     (if \<not> enabled \<or> validator_indices = [] then False
      else list_ex (\<lambda>epoch. run_doppelganger_check liveness validator_indices epoch = ExitProcess)
             (poll_epochs startup_epoch))"

text \<open>The times of the polls: one at the start, the next ones an epoch's duration apart.\<close>

definition poll_times :: "nat \<Rightarrow> nat \<Rightarrow> u64 \<Rightarrow> (u64 \<times> nat) list" where
  "poll_times start_ms epoch_ms startup_epoch =
     map (\<lambda>k. (poll_epochs startup_epoch ! k, start_ms + k * epoch_ms)) [0..<length (poll_epochs startup_epoch)]"

section \<open>Lemmas\<close>

lemma map_of_advance:
  "map_of (dg_states (advance e g)) pk = map_option (advance_state e) (map_of (dg_states g) pk)"
  by (simp add: advance_def map_of_map)

lemma map_of_fold_update:
  "map_of (fold (\<lambda>k. AList.update k v) ks al) k = (if k \<in> set ks then Some v else map_of al k)"
  by (induction ks arbitrary: al) (auto simp: update_conv')

lemma guard_new_states:
  "map_of (dg_states (guard_new enabled pks e)) pk =
     (if pk \<in> set pks
      then Some (if enabled then HoldOff (saturating_add e HOLDOFF_EPOCHS) else Cleared) else None)"
  by (simp add: guard_new_def map_of_fold_update)

lemma guard_new_enabled: "dg_enabled (guard_new enabled pks e) = enabled"
  by (simp add: guard_new_def)

lemma advance_many:
  "map_of (dg_states (fold advance es g)) pk =
     map_option (\<lambda>st. fold advance_state es st) (map_of (dg_states g) pk)"
  by (induction es arbitrary: g) (simp_all add: map_of_advance option.map_comp comp_def option.map_id0)

lemma advance_states:
  "fold advance_state es Cleared = Cleared"
  "fold advance_state es (HoldOff c) = (if \<exists>e \<in> set es. c \<le> e then Cleared else HoldOff c)"
  by (induction es) auto

lemma advance_many_enabled: "dg_enabled (fold advance es g) = dg_enabled g"
  by (induction es arbitrary: g) (simp_all add: advance_def)

text \<open>C32: When a key may sign.  The guard lets a key sign in an epoch exactly if protection is off, or the
  key is one of those it was made for and the epoch, or an epoch the guard was advanced to before, is at
  least two epochs after the start.  So with protection on no key signs in the start epoch or the next one,
  and from then on every local key may sign for good, whatever the beacon node answers.\<close>

theorem may_sign_iff:
  "may_sign (fold advance es (guard_new enabled pks startup)) pk current \<longleftrightarrow>
     \<not> enabled \<or> (pk \<in> set pks
       \<and> (\<exists>e \<in> insert current (set es). unat startup + 2 \<le> unat e \<or> e = - 1))"
proof -
  let ?c = "saturating_add startup HOLDOFF_EPOCHS"
  have "unat e \<le> 2 ^ 64 - 1" for e :: u64 using u64_less_bound [of e] by (simp del: u64_less_bound)
  then have "?c \<le> e \<longleftrightarrow> unat startup + 2 \<le> unat e \<or> e = - 1" for e
    unfolding word_le_nat_alt unat_saturating_add word_unat_eq_iff [of e] unat_minus_1_u64 HOLDOFF_EPOCHS_def
    by (auto simp: min_def le_antisym)
  then show ?thesis
    by (auto simp: may_sign_def advance_many advance_many_enabled guard_new_states advance_states
        guard_new_enabled)
qed

theorem may_sign_iff_witness:
  "\<not> may_sign (fold advance [5, 6] (guard_new True [''0xa''] 5)) ''0xa'' 6
   \<and> may_sign (fold advance [5, 6, 7] (guard_new True [''0xa''] 5)) ''0xa'' 7"
  unfolding may_sign_iff by simp

text \<open>The loop ends the process exactly if a poll that the node answers reports a live key.\<close>

lemma run_doppelganger_loop_iff:
  "run_doppelganger_loop enabled liveness indices startup \<longleftrightarrow>
     enabled \<and> indices \<noteq> []
     \<and> (\<exists>e \<in> set (poll_epochs startup). \<exists>rs. liveness e indices = Inr rs \<and> (\<exists>r \<in> set rs. snd r))"
proof -
  have "run_doppelganger_check liveness indices e = ExitProcess \<longleftrightarrow>
      (\<exists>rs. liveness e indices = Inr rs \<and> (\<exists>r \<in> set rs. snd r))" for e
    by (cases "liveness e indices") (auto simp: run_doppelganger_check_def list_ex_iff)
  then show ?thesis by (auto simp: run_doppelganger_loop_def list_ex_iff)
qed

text \<open>
  The last epoch of the hold-off is polled only when the guard already lets keys sign: the poll of
  \<open>startup + 1\<close> runs two epoch durations after the start, when epoch \<open>startup + 2\<close> has begun.
\<close>

lemma last_poll_after_clear:
  assumes "0 < unat startup" and "unat startup + 2 < 2 ^ 64"
    and "genesis_ms + unat startup * epoch_ms \<le> start_ms"
  shows "\<exists>t. last (poll_times start_ms epoch_ms startup) = (startup + 1, t)
           \<and> genesis_ms + (unat startup + 2) * epoch_ms \<le> t"
proof -
  have "unat (saturating_add startup HOLDOFF_EPOCHS) = unat startup + 2"
    using assms(2) by (simp add: unat_saturating_add HOLDOFF_EPOCHS_def min_def)
  then have "poll_epochs startup = map word_of_nat [unat startup - 1..<unat startup + 2]"
    by (simp add: poll_epochs_def)
  also have "[unat startup - 1..<unat startup + 2] = [unat startup - 1, unat startup, unat startup + 1]"
    using assms(1) by (simp add: upt_rec)
  finally have "poll_epochs startup = [word_of_nat (unat startup - 1), startup, startup + 1]"
    by simp
  then have "last (poll_times start_ms epoch_ms startup) = (startup + 1, start_ms + 2 * epoch_ms)"
    by (simp add: poll_times_def numeral_3_eq_3 numeral_2_eq_2)
  then show ?thesis using assms(3) by (auto simp: algebra_simps)
qed

end
