(* ===== verification/VC_Signing.thy ===== *)
theory VC_Signing
  imports VC_Interchange VC_Doppelganger Phase0_Helpers
begin

text \<open>
  Signing in the validator client: the functions of \<^verbatim>\<open>src/crates/pharos-validator/src/signing.rs\<close>, which
  ask slashing protection before the signer, and from \<^verbatim>\<open>run.rs\<close> the proposer path, the attester
  path up to the attestation's signature, and the body of the slot loop.

  The trait object \<^verbatim>\<open>&dyn SlashingProtection\<close> is the pair of functions \<open>rb\<close> and \<open>ra\<close>.  The beacon node,
  the signers, the hex codec and the decoder of the produced block are parameters.  Sync committee
  messages, selection proofs and aggregates are not slashable; the loop's part that signs them changes
  no state and is left out.
\<close>

section \<open>Signing requests\<close>

record fork_context =
  fx_current_version :: u32
  fx_genesis_validators_root :: root

datatype signing_type =
    BlockV2 | AttestationType | RandaoReveal | AggregationSlot | AggregateAndProofType
  | SyncCommitteeMessageType | SyncCommitteeSelectionProof | SyncCommitteeContributionAndProof
  | VoluntaryExitType | ValidatorRegistration

record 'p signing_request =
  sr_ty :: signing_type
  sr_signing_root :: root
  sr_fork :: fork_context
  sr_payload :: 'p

datatype signer_error = SignerTransport string | SignerStatus nat string | SignerResponse string | SignerUrl string

type_synonym 'p signer = "'p signing_request \<Rightarrow> (signer_error, 768 word) result"

datatype signing_error = SlashingRejected slashing_error | SignerFailed signer_error

definition DOMAIN_SELECTION_PROOF :: "u8 list" where "DOMAIN_SELECTION_PROOF = [5, 0, 0, 0]"
definition DOMAIN_AGGREGATE_AND_PROOF :: "u8 list" where "DOMAIN_AGGREGATE_AND_PROOF = [6, 0, 0, 0]"
definition DOMAIN_SYNC_COMMITTEE :: "u8 list" where "DOMAIN_SYNC_COMMITTEE = [7, 0, 0, 0]"
definition DOMAIN_SYNC_COMMITTEE_SELECTION_PROOF :: "u8 list" where
  "DOMAIN_SYNC_COMMITTEE_SELECTION_PROOF = [8, 0, 0, 0]"
definition DOMAIN_CONTRIBUTION_AND_PROOF :: "u8 list" where "DOMAIN_CONTRIBUTION_AND_PROOF = [9, 0, 0, 0]"
definition DOMAIN_BLS_TO_EXECUTION_CHANGE :: "u8 list" where "DOMAIN_BLS_TO_EXECUTION_CHANGE = [10, 0, 0, 0]"

definition domain_for :: "sha256 \<Rightarrow> fork_context \<Rightarrow> u8 list \<Rightarrow> hash256" where
  "domain_for sha fork domain_type =
     compute_domain sha domain_type (fx_current_version fork) (fx_genesis_validators_root fork)"

definition signing_root_for :: "sha256 \<Rightarrow> u8 list \<Rightarrow> fork_context \<Rightarrow> hash256 \<Rightarrow> root" where
  "signing_root_for sha domain_type fork object_root =
     compute_signing_root sha object_root (domain_for sha fork domain_type)"

text \<open>\<^verbatim>\<open>Ok(signer.sign(&req).await?)\<close>.\<close>

definition sign_object ::
  "sha256 \<Rightarrow> 'p signer \<Rightarrow> signing_type \<Rightarrow> u8 list \<Rightarrow> hash256 \<Rightarrow> fork_context \<Rightarrow> 'p
     \<Rightarrow> (signing_error, 768 word) result" where
  "sign_object sha signer ty domain_type object_root fork payload =
     (let req = \<lparr>sr_ty = ty, sr_signing_root = signing_root_for sha domain_type fork object_root,
                 sr_fork = fork, sr_payload = payload\<rparr>
      in case signer req of Inl e \<Rightarrow> Inl (SignerFailed e) | Inr sig \<Rightarrow> Inr sig)"

text \<open>\<^verbatim>\<open>format!("0x{}", hex::encode(..))\<close>.\<close>

definition hex_0x :: "(u8 list \<Rightarrow> string) \<Rightarrow> u8 list \<Rightarrow> string" where
  "hex_0x hex_encode bytes = ''0x'' @ hex_encode bytes"

definition sign_beacon_block ::
  "sha256 \<Rightarrow> (u8 list \<Rightarrow> string) \<Rightarrow> (string \<Rightarrow> u64 \<Rightarrow> string option \<Rightarrow> 'db \<Rightarrow> (slashing_error, unit) result \<times> 'db)
     \<Rightarrow> 'p signer \<Rightarrow> string \<Rightarrow> hash256 \<Rightarrow> u64 \<Rightarrow> fork_context \<Rightarrow> 'p \<Rightarrow> 'db
     \<Rightarrow> (signing_error, 768 word) result \<times> 'db" where
  "sign_beacon_block sha hex_encode rb signer pubkey_hex block_root slot fork payload db =
     (let signing_root = signing_root_for sha DOMAIN_BEACON_PROPOSER fork block_root;
          signing_root_hex = hex_0x hex_encode (hash_bytes signing_root)
      in case rb pubkey_hex slot (Some signing_root_hex) db of
           (Inl e, db') \<Rightarrow> (Inl (SlashingRejected e), db')
         | (Inr _, db') \<Rightarrow> (sign_object sha signer BlockV2 DOMAIN_BEACON_PROPOSER block_root fork payload, db'))"

definition sign_attestation ::
  "sha256 \<Rightarrow> (u8 list \<Rightarrow> string)
     \<Rightarrow> (string \<Rightarrow> u64 \<Rightarrow> u64 \<Rightarrow> string option \<Rightarrow> 'db \<Rightarrow> (slashing_error, unit) result \<times> 'db)
     \<Rightarrow> 'p signer \<Rightarrow> string \<Rightarrow> hash256 \<Rightarrow> u64 \<Rightarrow> u64 \<Rightarrow> fork_context \<Rightarrow> 'p \<Rightarrow> 'db
     \<Rightarrow> (signing_error, 768 word) result \<times> 'db" where
  "sign_attestation sha hex_encode ra signer pubkey_hex data_root source_epoch target_epoch fork payload db =
     (let signing_root = signing_root_for sha DOMAIN_BEACON_ATTESTER fork data_root;
          signing_root_hex = hex_0x hex_encode (hash_bytes signing_root)
      in case ra pubkey_hex source_epoch target_epoch (Some signing_root_hex) db of
           (Inl e, db') \<Rightarrow> (Inl (SlashingRejected e), db')
         | (Inr _, db') \<Rightarrow>
             (sign_object sha signer AttestationType DOMAIN_BEACON_ATTESTER data_root fork payload, db'))"

text \<open>The messages that are not slashable.  The root of \<^verbatim>\<open>U64Leaf\<close> is the padded integer.\<close>

definition sign_randao_reveal ::
  "sha256 \<Rightarrow> (string \<Rightarrow> u64 \<Rightarrow> 'p) \<Rightarrow> 'p signer \<Rightarrow> u64 \<Rightarrow> fork_context \<Rightarrow> (signing_error, 768 word) result" where
  "sign_randao_reveal sha field signer epoch fork =
     sign_object sha signer RandaoReveal DOMAIN_RANDAO (uint64_root epoch) fork (field ''epoch'' epoch)"

definition sign_selection_proof ::
  "sha256 \<Rightarrow> (string \<Rightarrow> u64 \<Rightarrow> 'p) \<Rightarrow> 'p signer \<Rightarrow> u64 \<Rightarrow> fork_context \<Rightarrow> (signing_error, 768 word) result" where
  "sign_selection_proof sha field signer slot fork =
     sign_object sha signer AggregationSlot DOMAIN_SELECTION_PROOF (uint64_root slot) fork (field ''slot'' slot)"

definition sign_aggregate_and_proof ::
  "sha256 \<Rightarrow> 'p signer \<Rightarrow> hash256 \<Rightarrow> fork_context \<Rightarrow> 'p \<Rightarrow> (signing_error, 768 word) result" where
  "sign_aggregate_and_proof sha signer object_root fork payload =
     sign_object sha signer AggregateAndProofType DOMAIN_AGGREGATE_AND_PROOF object_root fork payload"

definition sign_sync_committee_message ::
  "sha256 \<Rightarrow> 'p signer \<Rightarrow> hash256 \<Rightarrow> fork_context \<Rightarrow> 'p \<Rightarrow> (signing_error, 768 word) result" where
  "sign_sync_committee_message sha signer object_root fork payload =
     sign_object sha signer SyncCommitteeMessageType DOMAIN_SYNC_COMMITTEE object_root fork payload"

definition sign_sync_committee_selection_proof ::
  "sha256 \<Rightarrow> 'p signer \<Rightarrow> hash256 \<Rightarrow> fork_context \<Rightarrow> 'p \<Rightarrow> (signing_error, 768 word) result" where
  "sign_sync_committee_selection_proof sha signer object_root fork payload =
     sign_object sha signer SyncCommitteeSelectionProof DOMAIN_SYNC_COMMITTEE_SELECTION_PROOF object_root fork payload"

definition sign_contribution_and_proof ::
  "sha256 \<Rightarrow> 'p signer \<Rightarrow> hash256 \<Rightarrow> fork_context \<Rightarrow> 'p \<Rightarrow> (signing_error, 768 word) result" where
  "sign_contribution_and_proof sha signer object_root fork payload =
     sign_object sha signer SyncCommitteeContributionAndProof DOMAIN_CONTRIBUTION_AND_PROOF object_root fork payload"

definition sign_voluntary_exit ::
  "sha256 \<Rightarrow> 'p signer \<Rightarrow> hash256 \<Rightarrow> fork_context \<Rightarrow> 'p \<Rightarrow> (signing_error, 768 word) result" where
  "sign_voluntary_exit sha signer object_root fork payload =
     sign_object sha signer VoluntaryExitType DOMAIN_VOLUNTARY_EXIT object_root fork payload"

definition sign_bls_to_execution_change ::
  "sha256 \<Rightarrow> 'p signer \<Rightarrow> hash256 \<Rightarrow> fork_context \<Rightarrow> 'p \<Rightarrow> (signing_error, 768 word) result" where
  "sign_bls_to_execution_change sha signer object_root fork payload =
     sign_object sha signer VoluntaryExitType DOMAIN_BLS_TO_EXECUTION_CHANGE object_root fork payload"

section \<open>Attestation data from the beacon node\<close>

record checkpoint_dto =
  cd_epoch :: string
  cd_root :: string

record attestation_data_dto =
  dto_slot :: string
  dto_index :: string
  dto_beacon_block_root :: string
  dto_source :: checkpoint_dto
  dto_target :: checkpoint_dto

definition parse_or :: "string \<Rightarrow> u64 \<Rightarrow> u64" where
  "parse_or s d = (case parse_u64 s of Inl _ \<Rightarrow> d | Inr n \<Rightarrow> n)"

definition strip_0x :: "string \<Rightarrow> string" where
  "strip_0x s = (if take 2 s = ''0x'' then drop 2 s else s)"

definition root_from_hex :: "(string \<Rightarrow> u8 list option) \<Rightarrow> string \<Rightarrow> root" where
  "root_from_hex hex_decode s =
     (case hex_decode (strip_0x s) of
        Some b \<Rightarrow> hash_of_bytes (pad_right 32 (take 32 b))
      | None \<Rightarrow> hash_of_bytes (replicate 32 0))"

definition att_data_from_dto :: "(string \<Rightarrow> u8 list option) \<Rightarrow> attestation_data_dto \<Rightarrow> attestation_data" where
  "att_data_from_dto hex_decode dto =
     \<lparr>ad_slot = parse_or (dto_slot dto) 0,
      ad_index = parse_or (dto_index dto) 0,
      ad_beacon_block_root = root_from_hex hex_decode (dto_beacon_block_root dto),
      ad_source = \<lparr>cp_epoch = parse_or (cd_epoch (dto_source dto)) 0,
                   cp_root = root_from_hex hex_decode (cd_root (dto_source dto))\<rparr>,
      ad_target = \<lparr>cp_epoch = parse_or (cd_epoch (dto_target dto)) 0,
                   cp_root = root_from_hex hex_decode (cd_root (dto_target dto))\<rparr>\<rparr>"

definition parse_fork_version :: "(string \<Rightarrow> u8 list option) \<Rightarrow> string \<Rightarrow> u32 option" where
  "parse_fork_version hex_decode s =
     do { bytes \<leftarrow> hex_decode (strip_0x s);
          if length bytes \<noteq> 4 then None else Some (from_le_bytes (rev bytes)) }"

section \<open>The slot loop\<close>

record produced_block =
  pb_block_ssz :: "string option"
  pb_version :: "string option"

record syncing_data =
  sy_is_syncing :: bool
  sy_is_optimistic :: bool
  sy_el_offline :: bool

text \<open>The answers of the beacon node during one slot.\<close>

record bn =
  bn_get_syncing :: "(bn_error, syncing_data) result"
  bn_get_fork :: "(bn_error, string) result"
  bn_produce_block_v3 :: "u64 \<Rightarrow> string \<Rightarrow> string option \<Rightarrow> (bn_error, produced_block) result"
  bn_get_attestation_data :: "u64 \<Rightarrow> u64 \<Rightarrow> (bn_error, attestation_data_dto) result"

text \<open>Code the client calls and that is not part of it: hashing, hex, JSON, and block types.\<close>

record 'p vc_env =
  en_sha :: sha256
  en_hex_encode :: "u8 list \<Rightarrow> string"
  en_hex_decode :: "string \<Rightarrow> u8 list option"
  en_block_from_ssz :: "u8 list \<Rightarrow> (string, beacon_block) result"
  en_block_root :: "beacon_block \<Rightarrow> hash256"
  en_block_payload :: "beacon_block \<Rightarrow> string option \<Rightarrow> 'p"
  en_att_payload :: "attestation_data \<Rightarrow> 'p"
  en_field :: "string \<Rightarrow> u64 \<Rightarrow> 'p"

record 'p validator_entry =
  va_index :: u64
  va_pubkey_hex :: string
  va_signer :: "'p signer"

record attester_duty =
  du_validator_index :: string
  du_committee_index :: string

record epoch_duties =
  ed_proposer :: "u64 \<rightharpoonup> string"
  ed_attester :: "u64 \<rightharpoonup> attester_duty list"

record vc_config =
  vcc_graffiti :: "string option"
  vcc_slots_per_epoch :: u64
  vcc_electra_fork_version :: "u32 option"

text \<open>
  The state of the client: the database, the guard, and the history of slashable messages: those it has
  put a signature on, with the slot the block was recorded under, and the attestations it has asked
  slashing protection for, signed or not.
\<close>

record 'db vc =
  vc_db :: 'db
  vc_guard :: doppelganger_guard
  vc_blocks :: "(string \<times> u64 \<times> beacon_block \<times> fork_context) list"
  vc_atts :: "(string \<times> attestation_data \<times> fork_context) list"
  vc_requests :: "(string \<times> attestation_data \<times> fork_context) list"

type_synonym 'db rec_block = "string \<Rightarrow> u64 \<Rightarrow> string option \<Rightarrow> 'db \<Rightarrow> (slashing_error, unit) result \<times> 'db"
type_synonym 'db rec_att =
  "string \<Rightarrow> u64 \<Rightarrow> u64 \<Rightarrow> string option \<Rightarrow> 'db \<Rightarrow> (slashing_error, unit) result \<times> 'db"

definition run_proposer ::
  "'p vc_env \<Rightarrow> 'db rec_block \<Rightarrow> bn \<Rightarrow> 'p validator_entry \<Rightarrow> u64 \<Rightarrow> u64 \<Rightarrow> fork_context \<Rightarrow> string option
     \<Rightarrow> 'db vc \<Rightarrow> 'db vc" where
  "run_proposer env rb node entry slot epoch fork graffiti s =
     (case sign_randao_reveal (en_sha env) (en_field env) (va_signer entry) epoch fork of
        Inl _ \<Rightarrow> s
      | Inr randao_sig \<Rightarrow>
     (case bn_produce_block_v3 node slot (hex_0x (en_hex_encode env) (be_bytes 96 randao_sig)) graffiti of
        Inl _ \<Rightarrow> s
      | Inr block_json \<Rightarrow>
     (case en_hex_decode env (strip_0x (unwrap_or (pb_block_ssz block_json) [])) of
        None \<Rightarrow> s
      | Some [] \<Rightarrow> s
      | Some block_ssz \<Rightarrow>
     (case en_block_from_ssz env block_ssz of
        Inl _ \<Rightarrow> s
      | Inr block \<Rightarrow>
     (case sign_beacon_block (en_sha env) (en_hex_encode env) rb (va_signer entry) (va_pubkey_hex entry)
             (en_block_root env block) slot fork (en_block_payload env block (pb_version block_json))
             (vc_db s) of
        (Inl _, db) \<Rightarrow> s\<lparr>vc_db := db\<rparr>
      | (Inr _, db) \<Rightarrow>
          s\<lparr>vc_db := db, vc_blocks := vc_blocks s @ [(va_pubkey_hex entry, slot, block, fork)]\<rparr>)))))"

definition run_attester ::
  "'p vc_env \<Rightarrow> 'db rec_att \<Rightarrow> bn \<Rightarrow> 'p validator_entry \<Rightarrow> attester_duty \<Rightarrow> u64 \<Rightarrow> fork_context \<Rightarrow> bool
     \<Rightarrow> 'db vc \<Rightarrow> 'db vc" where
  "run_attester env ra node entry duty slot fork is_electra s =
     (let committee_index = parse_or (du_committee_index duty) 0 in
      case bn_get_attestation_data node slot committee_index of
        Inl _ \<Rightarrow> s
      | Inr att_data \<Rightarrow>
          let source_epoch = parse_or (cd_epoch (dto_source att_data)) 0;
              target_epoch = parse_or (cd_epoch (dto_target att_data)) 0;
              typed_att = att_data_from_dto (en_hex_decode env) att_data;
              typed_att = (if is_electra then typed_att\<lparr>ad_index := 0\<rparr> else typed_att);
              s = s\<lparr>vc_requests := vc_requests s @ [(va_pubkey_hex entry, typed_att, fork)]\<rparr>
          in (case sign_attestation (en_sha env) (en_hex_encode env) ra (va_signer entry) (va_pubkey_hex entry)
                     (attestation_data_root (en_sha env) typed_att) source_epoch target_epoch fork
                     (en_att_payload env typed_att) (vc_db s) of
                (Inl _, db) \<Rightarrow> s\<lparr>vc_db := db\<rparr>
              | (Inr _, db) \<Rightarrow>
                  s\<lparr>vc_db := db, vc_atts := vc_atts s @ [(va_pubkey_hex entry, typed_att, fork)]\<rparr>))"

text \<open>\<^verbatim>\<open>collect()\<close> into a \<^verbatim>\<open>HashMap\<close>: the last entry of a key wins.\<close>

definition entry_by_pubkey :: "'p validator_entry list \<Rightarrow> string \<rightharpoonup> 'p validator_entry" where
  "entry_by_pubkey validators = map_of (rev (map (\<lambda>e. (va_pubkey_hex e, e)) validators))"

definition entry_by_index :: "'p validator_entry list \<Rightarrow> u64 \<rightharpoonup> 'p validator_entry" where
  "entry_by_index validators = map_of (rev (map (\<lambda>e. (va_index e, e)) validators))"

definition propose_duty ::
  "'p vc_env \<Rightarrow> 'db rec_block \<Rightarrow> vc_config \<Rightarrow> 'p validator_entry list \<Rightarrow> bn \<Rightarrow> epoch_duties \<Rightarrow> u64 \<Rightarrow> u64
     \<Rightarrow> fork_context \<Rightarrow> 'db vc \<Rightarrow> 'db vc" where
  "propose_duty env rb cfg validators node duties slot epoch fork s =
     (case ed_proposer duties slot of
        None \<Rightarrow> s
      | Some pk \<Rightarrow>
          (case entry_by_pubkey validators pk of
             None \<Rightarrow> s
           | Some entry \<Rightarrow>
               if may_sign (vc_guard s) (va_pubkey_hex entry) epoch
               then run_proposer env rb node entry slot epoch fork (vcc_graffiti cfg) s else s))"

definition attest_duty ::
  "'p vc_env \<Rightarrow> 'db rec_att \<Rightarrow> 'p validator_entry list \<Rightarrow> bn \<Rightarrow> u64 \<Rightarrow> u64 \<Rightarrow> fork_context \<Rightarrow> bool
     \<Rightarrow> attester_duty \<Rightarrow> 'db vc \<Rightarrow> 'db vc" where
  "attest_duty env ra validators node slot epoch fork is_electra duty s =
     (case entry_by_index validators (parse_or (du_validator_index duty) (- 1)) of
        None \<Rightarrow> s
      | Some entry \<Rightarrow>
          if may_sign (vc_guard s) (va_pubkey_hex entry) epoch
          then run_attester env ra node entry duty slot fork is_electra s else s)"

text \<open>
  One iteration of \<^verbatim>\<open>run_vc_loop\<close> for the slot the clock gives.  The number of slots per epoch comes from the
  configuration and is not zero; the source panics on the division otherwise.
\<close>

definition vc_slot ::
  "'p vc_env \<Rightarrow> 'db rec_block \<Rightarrow> 'db rec_att \<Rightarrow> vc_config \<Rightarrow> root \<Rightarrow> 'p validator_entry list \<Rightarrow> bn
     \<Rightarrow> (u64 \<rightharpoonup> epoch_duties) \<Rightarrow> u64 \<Rightarrow> 'db vc \<Rightarrow> 'db vc" where
  "vc_slot env rb ra cfg genesis_validators_root validators node duties current_slot s =
     (let current_epoch = current_slot div vcc_slots_per_epoch cfg;
          s = s\<lparr>vc_guard := advance current_epoch (vc_guard s)\<rparr>
      in case bn_get_syncing node of
           Inl _ \<Rightarrow> s
         | Inr sync \<Rightarrow>
             if sy_is_syncing sync \<or> sy_is_optimistic sync \<or> sy_el_offline sync then s
             else
               (case bn_get_fork node of
                  Inl _ \<Rightarrow> s
                | Inr version \<Rightarrow>
               (case parse_fork_version (en_hex_decode env) version of
                  None \<Rightarrow> s
                | Some current_version \<Rightarrow>
                    let fork = \<lparr>fx_current_version = current_version,
                                fx_genesis_validators_root = genesis_validators_root\<rparr>;
                        is_electra = (vcc_electra_fork_version cfg = Some current_version)
                    in (case duties current_epoch of
                          None \<Rightarrow> s
                        | Some duties_for_slot \<Rightarrow>
                            let s = propose_duty env rb cfg validators node duties_for_slot current_slot
                                      current_epoch fork s
                            in fold (attest_duty env ra validators node current_slot current_epoch fork is_electra)
                                 (unwrap_or (ed_attester duties_for_slot current_slot) []) s))))"

definition vc_start :: "bool \<Rightarrow> 'p validator_entry list \<Rightarrow> u64 \<Rightarrow> 'db \<Rightarrow> 'db vc" where
  "vc_start doppelganger_protection validators startup_epoch db =
     \<lparr>vc_db = db, vc_guard = guard_new doppelganger_protection (map va_pubkey_hex validators) startup_epoch,
      vc_blocks = [], vc_atts = [], vc_requests = []\<rparr>"

section \<open>Every signature has its record\<close>

definition block_root_hex :: "'p vc_env \<Rightarrow> beacon_block \<Rightarrow> fork_context \<Rightarrow> string" where
  "block_root_hex env b fork =
     hex_0x (en_hex_encode env)
       (hash_bytes (signing_root_for (en_sha env) DOMAIN_BEACON_PROPOSER fork (en_block_root env b)))"

definition att_root_hex :: "'p vc_env \<Rightarrow> attestation_data \<Rightarrow> fork_context \<Rightarrow> string" where
  "att_root_hex env d fork =
     hex_0x (en_hex_encode env)
       (hash_bytes (signing_root_for (en_sha env) DOMAIN_BEACON_ATTESTER fork
          (attestation_data_root (en_sha env) d)))"

definition recorded ::
  "'p vc_env \<Rightarrow> ('db \<Rightarrow> (string \<times> u64 \<times> string option) set)
     \<Rightarrow> ('db \<Rightarrow> (string \<times> u64 \<times> u64 \<times> string option) set) \<Rightarrow> 'db vc \<Rightarrow> bool" where
  "recorded env brs ars s \<longleftrightarrow>
     (\<forall>(pk, slot, b, f) \<in> set (vc_blocks s). (pk, slot, Some (block_root_hex env b f)) \<in> brs (vc_db s))
     \<and> (\<forall>(pk, d, f) \<in> set (vc_atts s).
          (pk, cp_epoch (ad_source d), cp_epoch (ad_target d), Some (att_root_hex env d f)) \<in> ars (vc_db s)
          \<and> (pk, d, f) \<in> set (vc_requests s))"

text \<open>What the client relies on from the beacon node: epochs below \<open>2 ^ 63\<close>.\<close>

definition bn_epochs :: "(u64 \<Rightarrow> bool) \<Rightarrow> bn \<Rightarrow> bool" where
  "bn_epochs ok node \<longleftrightarrow>
     (\<forall>slot i dto. bn_get_attestation_data node slot i = Inr dto \<longrightarrow>
        ok (parse_or (cd_epoch (dto_source dto)) 0) \<and> ok (parse_or (cd_epoch (dto_target dto)) 0))"

text \<open>
  Signing roots identify the messages of a run: \<open>B\<close> gives back the block of a root that was signed, \<open>A\<close>
  the attestation data of a root that was asked for.  This is what collision resistance of the hash
  gives; it says nothing of the database.
\<close>

definition blocks_identified :: "'p vc_env \<Rightarrow> (string \<Rightarrow> beacon_block) \<Rightarrow> 'db vc \<Rightarrow> bool" where
  "blocks_identified env B s \<longleftrightarrow> (\<forall>(pk, slot, b, f) \<in> set (vc_blocks s). B (block_root_hex env b f) = b)"

definition requests_identified :: "'p vc_env \<Rightarrow> (string \<Rightarrow> attestation_data) \<Rightarrow> 'db vc \<Rightarrow> bool" where
  "requests_identified env A s \<longleftrightarrow> (\<forall>(pk, d, f) \<in> set (vc_requests s). A (att_root_hex env d f) = d)"

text \<open>
  A record that came from elsewhere, with the database or by an import, is truthful when its source
  epoch is that of the attestation its root stands for.
\<close>

definition truthful :: "(string \<Rightarrow> attestation_data) \<Rightarrow> string \<times> u64 \<times> u64 \<times> string option \<Rightarrow> bool" where
  "truthful A = (\<lambda>(pk, src, tgt, root). case root of None \<Rightarrow> True | Some r \<Rightarrow> src = cp_epoch (ad_source (A r)))"

definition no_slashable_pair :: "'db vc \<Rightarrow> bool" where
  "no_slashable_pair s \<longleftrightarrow>
     (\<forall>(pk, d, f) \<in> set (vc_atts s). \<forall>(pk', d', f') \<in> set (vc_atts s).
        pk = pk' \<longrightarrow> \<not> is_slashable_attestation_data d d')
     \<and> (\<forall>(pk, slot, b, f) \<in> set (vc_blocks s). \<forall>(pk', slot', b', f') \<in> set (vc_blocks s).
        pk = pk' \<and> slot = slot' \<longrightarrow> b = b')"

text \<open>
  A run of the client: slots with any answers of the beacon node, any behaviour of the database
  engine \<open>q\<close> and any duties, restarts, and maintenance of the database.
\<close>

inductive vc_run ::
  "'p vc_env \<Rightarrow> ('q \<Rightarrow> 'db rec_block) \<Rightarrow> ('q \<Rightarrow> 'db rec_att) \<Rightarrow> (u64 \<Rightarrow> bool) \<Rightarrow> ('db \<Rightarrow> 'db \<Rightarrow> bool)
     \<Rightarrow> vc_config \<Rightarrow> root \<Rightarrow> 'p validator_entry list \<Rightarrow> 'db vc \<Rightarrow> 'db vc \<Rightarrow> bool"
  for env rb ra ok maint cfg gvr validators where
  start: "vc_run env rb ra ok maint cfg gvr validators s s"
| slot: "vc_run env rb ra ok maint cfg gvr validators s s' \<Longrightarrow> bn_epochs ok node \<Longrightarrow>
    vc_run env rb ra ok maint cfg gvr validators s
      (vc_slot env (rb q) (ra q) cfg gvr validators node duties current_slot s')"
| restart: "vc_run env rb ra ok maint cfg gvr validators s s' \<Longrightarrow>
    vc_run env rb ra ok maint cfg gvr validators s
      (s'\<lparr>vc_guard := guard_new enabled (map va_pubkey_hex validators) epoch\<rparr>)"
| maintenance: "vc_run env rb ra ok maint cfg gvr validators s s' \<Longrightarrow> maint (vc_db s') db \<Longrightarrow>
    vc_run env rb ra ok maint cfg gvr validators s (s'\<lparr>vc_db := db\<rparr>)"

text \<open>A database that is also maintained from outside, by imports.\<close>

locale maintained_protection = slashing_protection +
  fixes maint :: "'b \<Rightarrow> 'b \<Rightarrow> bool"
  assumes maint_keeps: "safe db \<Longrightarrow> maint db db' \<Longrightarrow>
    safe db' \<and> block_recs db \<subseteq> block_recs db' \<and> att_recs db \<subseteq> att_recs db'"
begin

abbreviation truthful_maint :: "(string \<Rightarrow> attestation_data) \<Rightarrow> 'b \<Rightarrow> 'b \<Rightarrow> bool" where
  "truthful_maint A db db' \<equiv> maint db db' \<and> (\<forall>r \<in> att_recs db' - att_recs db. truthful A r)"

abbreviation vc_inv :: "'p vc_env \<Rightarrow> (string \<Rightarrow> attestation_data) \<Rightarrow> 'b vc \<Rightarrow> bool" where
  "vc_inv env A s \<equiv> requests_identified env A s \<longrightarrow>
     safe (vc_db s) \<and> recorded env block_recs att_recs s \<and> (\<forall>r \<in> att_recs (vc_db s). truthful A r)"

lemma sign_beacon_block_keeps:
  assumes "safe db" and "sign_beacon_block sha hex (record_block q) signer pk r slot fork payload db = (res, db')"
  shows "safe db' \<and> block_recs db \<subseteq> block_recs db' \<and> att_recs db' = att_recs db
    \<and> (\<forall>sig. res = Inr sig \<longrightarrow>
         (pk, slot, Some (hex_0x hex (hash_bytes (signing_root_for sha DOMAIN_BEACON_PROPOSER fork r)))) \<in> block_recs db')"
  using assms(2) block_call [OF assms(1)]
  by (auto simp: sign_beacon_block_def Let_def split: prod.splits sum.splits)

lemma sign_attestation_keeps:
  assumes "safe db" and "epoch_ok src" and "epoch_ok tgt"
    and "sign_attestation sha hex (record_att q) signer pk r src tgt fork payload db = (res, db')"
  shows "safe db' \<and> att_recs db \<subseteq> att_recs db' \<and> block_recs db' = block_recs db
    \<and> att_recs db' \<subseteq> insert (pk, src, tgt,
        Some (hex_0x hex (hash_bytes (signing_root_for sha DOMAIN_BEACON_ATTESTER fork r)))) (att_recs db)
    \<and> (\<forall>sig. res = Inr sig \<longrightarrow> (\<exists>s.
         (pk, s, tgt, Some (hex_0x hex (hash_bytes (signing_root_for sha DOMAIN_BEACON_ATTESTER fork r)))) \<in> att_recs db'))"
  using assms(4) att_call [OF assms(1-3)]
  by (auto simp: sign_attestation_def Let_def split: prod.splits sum.splits)

lemma run_proposer_inv:
  assumes "vc_inv env A s"
  shows "vc_inv env A (run_proposer env (record_block q) node entry slot epoch fork graffiti s)"
proof -
  have "vc_inv env A (case sign_beacon_block (en_sha env) (en_hex_encode env) (record_block q) (va_signer entry)
      (va_pubkey_hex entry) (en_block_root env block) slot fork payload (vc_db s) of
        (Inl _, db) \<Rightarrow> s\<lparr>vc_db := db\<rparr>
      | (Inr _, db) \<Rightarrow> s\<lparr>vc_db := db, vc_blocks := vc_blocks s @ [(va_pubkey_hex entry, slot, block, fork)]\<rparr>)"
    for block payload
    using assms sign_beacon_block_keeps [of "vc_db s"]
    by (fastforce simp: recorded_def requests_identified_def block_root_hex_def split: prod.splits sum.splits)
  then show ?thesis using assms
    by (simp add: run_proposer_def split: sum.split option.split list.split)
qed

lemma run_attester_inv:
  assumes "vc_inv env A s" and "bn_epochs epoch_ok node"
  shows "vc_inv env A (run_attester env (record_att q) node entry duty slot fork is_electra s)"
proof (cases "bn_get_attestation_data node slot (parse_or (du_committee_index duty) 0)")
  case (Inr dto)
  let ?d = "att_data_from_dto (en_hex_decode env) dto"
  let ?t = "if is_electra then ?d\<lparr>ad_index := 0\<rparr> else ?d"
  let ?src = "parse_or (cd_epoch (dto_source dto)) 0" and ?tgt = "parse_or (cd_epoch (dto_target dto)) 0"
  let ?new = "(va_pubkey_hex entry, cp_epoch (ad_source ?t), cp_epoch (ad_target ?t), Some (att_root_hex env ?t fork))"
  obtain res db' where r: "sign_attestation (en_sha env) (en_hex_encode env) (record_att q) (va_signer entry)
      (va_pubkey_hex entry) (attestation_data_root (en_sha env) ?t) ?src ?tgt fork (en_att_payload env ?t)
      (vc_db s) = (res, db')" by fastforce
  let ?s = "s\<lparr>vc_requests := vc_requests s @ [(va_pubkey_hex entry, ?t, fork)], vc_db := db'\<rparr>"
  have run: "run_attester env (record_att q) node entry duty slot fork is_electra s =
      (case res of Inl _ \<Rightarrow> ?s | Inr _ \<Rightarrow> ?s\<lparr>vc_atts := vc_atts s @ [(va_pubkey_hex entry, ?t, fork)]\<rparr>)"
    by (cases res) (simp_all add: run_attester_def Let_def Inr r)
  show ?thesis
  proof
    assume "requests_identified env A (run_attester env (record_att q) node entry duty slot fork is_electra s)"
    then have "requests_identified env A ?s" by (cases res) (simp_all add: run requests_identified_def)
    then have idn: "A (att_root_hex env ?t fork) = ?t" and "requests_identified env A s"
      by (simp_all add: requests_identified_def)
    with assms(1) have s: "safe (vc_db s)" "recorded env block_recs att_recs s"
      "\<forall>r \<in> att_recs (vc_db s). truthful A r" by blast+
    have ep: "epoch_ok ?src" "epoch_ok ?tgt" using assms(2) Inr unfolding bn_epochs_def by blast+
    have eps: "?src = cp_epoch (ad_source ?t)" "?tgt = cp_epoch (ad_target ?t)"
      by (simp_all add: att_data_from_dto_def)
    note keeps = sign_attestation_keeps [OF s(1) ep r, folded att_root_hex_def, unfolded eps]
    have truth: "\<forall>r \<in> att_recs db'. truthful A r"
      using keeps s(3) idn by (auto simp: truthful_def)
    have "?new \<in> att_recs db'" if res: "res = Inr sig" for sig
    proof -
      from keeps res obtain src where new: "(va_pubkey_hex entry, src, cp_epoch (ad_target ?t),
          Some (att_root_hex env ?t fork)) \<in> att_recs db'" by blast
      with truth have "src = cp_epoch (ad_source (A (att_root_hex env ?t fork)))" by (force simp: truthful_def)
      with new show ?thesis by (simp only: idn)
    qed
    moreover have "recorded env block_recs att_recs ?s" using keeps s(2) by (fastforce simp: recorded_def)
    ultimately have "recorded env block_recs att_recs
        (run_attester env (record_att q) node entry duty slot fork is_electra s)"
      by (cases res) (simp_all add: run recorded_def)
    then show "safe (vc_db (run_attester env (record_att q) node entry duty slot fork is_electra s)) \<and>
        recorded env block_recs att_recs (run_attester env (record_att q) node entry duty slot fork is_electra s) \<and>
        (\<forall>r \<in> att_recs (vc_db (run_attester env (record_att q) node entry duty slot fork is_electra s)). truthful A r)"
      using keeps truth by (cases res) (simp_all add: run)
  qed
qed (use assms in \<open>simp add: run_attester_def\<close>)

lemma vc_slot_inv:
  assumes "vc_inv env A s" and "bn_epochs epoch_ok node"
  shows "vc_inv env A (vc_slot env (record_block q) (record_att q) cfg gvr validators node duties slot s)"
proof -
  have att: "vc_inv env A (attest_duty env (record_att q) validators node slot epoch fork is_electra duty u)"
    if "vc_inv env A u" for epoch fork is_electra duty u
    using that run_attester_inv [OF that assms(2)] by (simp add: attest_duty_def split: option.split)
  have atts: "vc_inv env A (fold (attest_duty env (record_att q) validators node slot epoch fork is_electra) ds u)"
    if "vc_inv env A u" for epoch fork is_electra ds u
    using that
  proof (induction ds arbitrary: u)
    case (Cons duty ds)
    show ?case using Cons.IH [OF att [OF Cons.prems]] by (simp only: fold.simps comp_apply)
  qed (simp only: fold.simps id_apply)
  have proposed: "vc_inv env A (propose_duty env (record_block q) cfg validators node ed slot epoch fork u)"
    if "vc_inv env A u" for ed epoch fork u
    using that run_proposer_inv [OF that] by (simp add: propose_duty_def split: option.split)
  have "vc_inv env A (s\<lparr>vc_guard := g\<rparr>)" for g using assms(1) by (simp add: recorded_def requests_identified_def)
  note atts [OF proposed [OF this]] this
  then show ?thesis by (simp add: vc_slot_def Let_def split: sum.split option.split)
qed

lemma vc_run_inv:
  assumes "vc_run env record_block record_att epoch_ok (truthful_maint A) cfg gvr validators s s'" and "vc_inv env A s"
  shows "vc_inv env A s'"
  using assms
proof (induction rule: vc_run.induct)
  case (slot s s' node q duties current_slot)
  then show ?case by (intro vc_slot_inv) auto
next
  case (restart s s' enabled epoch)
  then show ?case by (simp add: recorded_def requests_identified_def)
next
  case (maintenance s s' db)
  show ?case
  proof
    assume "requests_identified env A (s'\<lparr>vc_db := db\<rparr>)"
    with maintenance have s': "safe (vc_db s')" "recorded env block_recs att_recs s'"
      "\<forall>r \<in> att_recs (vc_db s'). truthful A r" by (simp_all add: requests_identified_def)
    from maint_keeps [OF this(1)] maintenance.hyps(2) have
      "safe db \<and> block_recs (vc_db s') \<subseteq> block_recs db \<and> att_recs (vc_db s') \<subseteq> att_recs db" by blast
    then show "safe (vc_db (s'\<lparr>vc_db := db\<rparr>)) \<and> recorded env block_recs att_recs (s'\<lparr>vc_db := db\<rparr>)
        \<and> (\<forall>r \<in> att_recs (vc_db (s'\<lparr>vc_db := db\<rparr>)). truthful A r)"
      using s' maintenance.hyps(2) by (fastforce simp: recorded_def)
  qed
qed

lemma run_never_slashable:
  assumes "vc_run env record_block record_att epoch_ok (truthful_maint A) cfg gvr validators s s'" and "vc_inv env A s"
    and "requests_identified env A s'" and "blocks_identified env B s'"
  shows "no_slashable_pair s'"
proof -
  from vc_run_inv [OF assms(1,2)] assms(3)
  have safe: "safe (vc_db s')" and rec: "recorded env block_recs att_recs s'" by blast+
  have "\<not> is_slashable_attestation_data d d'"
    if a: "(pk, d, f) \<in> set (vc_atts s')" and a': "(pk, d', f') \<in> set (vc_atts s')" for pk d f d' f'
  proof -
    from a a' rec have
      r: "(pk, cp_epoch (ad_source d), cp_epoch (ad_target d), Some (att_root_hex env d f)) \<in> att_recs (vc_db s')" and
      r': "(pk, cp_epoch (ad_source d'), cp_epoch (ad_target d'), Some (att_root_hex env d' f')) \<in> att_recs (vc_db s')"
      and "(pk, d, f) \<in> set (vc_requests s')" "(pk, d', f') \<in> set (vc_requests s')"
      unfolding recorded_def by blast+
    then have "A (att_root_hex env d f) = d" "A (att_root_hex env d' f') = d'"
      using assms(3) unfolding requests_identified_def by blast+
    then show ?thesis
      using att_recs_key [OF safe r, of "cp_epoch (ad_source d')" "Some (att_root_hex env d' f')"] r'
        att_recs_safe [OF safe r r']
      by (auto simp: is_slashable_attestation_data_def)
  qed
  moreover have "b = b'"
    if "(pk, slot, b, f) \<in> set (vc_blocks s')" "(pk, slot, b', f') \<in> set (vc_blocks s')" for pk slot b f b' f'
  proof -
    from that rec have "block_root_hex env b f = block_root_hex env b' f'"
      using block_recs_key [OF safe, of pk slot] unfolding recorded_def by blast
    moreover have "B (block_root_hex env b f) = b" "B (block_root_hex env b' f') = b'"
      using assms(4) that unfolding blocks_identified_def by blast+
    ultimately show ?thesis by simp
  qed
  ultimately show ?thesis unfolding no_slashable_pair_def by blast
qed

end

section \<open>The SQLite database\<close>

definition safe_import :: "slashing_db \<Rightarrow> slashing_db \<Rightarrow> bool" where
  "safe_import db db' \<longleftrightarrow>
     db_safe db' \<and> (\<exists>Q file gvr res. import_slashing_protection Q file gvr db = (res, db'))"

interpretation maintained_sqlite: maintained_protection check_and_record_block_proposal
  check_and_record_attestation block_records att_records db_safe epoch_63 safe_import
proof
  show "db_safe db' \<and> block_records db \<subseteq> block_records db' \<and> att_records db \<subseteq> att_records db'"
    if "safe_import db db'" for db db'
    using that import_grows unfolding safe_import_def by blast
qed

text \<open>C1: The validator client never signs a slashable pair.  Start from a safe database and let the client
  run: slots with any answers of the beacon node, any failures of SQLite and of the signers, restarts, and
  imports that leave the database safe.  Then no two attestations that a key has signed satisfy the
  slashing condition of the chain, and no two different blocks were signed by a key for one proposal slot.
  This relies on the beacon node for epochs below \<open>2 ^ 63\<close>, on the hash for signing roots that identify
  the messages of the run, and on truthful records in the database the client starts from and in the
  files it imports.  That the records the client makes itself carry the source and target epochs of what
  it signs is part of what is shown.\<close>

theorem vc_never_signs_slashable:
  assumes "vc_run env check_and_record_block_proposal check_and_record_attestation epoch_63
             (\<lambda>db db'. safe_import db db' \<and> (\<forall>r \<in> att_records db' - att_records db. truthful A r))
             cfg gvr validators (vc_start dp validators epoch db) s"
    and "db_safe db" and "\<forall>r \<in> att_records db. truthful A r"
    and "requests_identified env A s" and "blocks_identified env B s"
  shows "no_slashable_pair s"
  by (rule maintained_sqlite.run_never_slashable [OF assms(1) _ assms(4,5)])
     (simp add: vc_start_def recorded_def assms(2,3))

definition vc_sample_env :: "unit vc_env" where
  "vc_sample_env =
     \<lparr>en_sha = \<lambda>_. 0, en_hex_encode = \<lambda>_. [], en_hex_decode = \<lambda>_. Some [0, 0, 0, 1],
      en_block_from_ssz = \<lambda>_. Inr (sample_block 64 0), en_block_root = \<lambda>_. 0,
      en_block_payload = \<lambda>_ _. (), en_att_payload = \<lambda>_. (), en_field = \<lambda>_ _. ()\<rparr>"

definition vc_sample_data :: attestation_data_dto where
  "vc_sample_data =
     \<lparr>dto_slot = ''64'', dto_index = ''0'', dto_beacon_block_root = ''0x01'',
      dto_source = \<lparr>cd_epoch = ''1'', cd_root = ''0x02''\<rparr>, dto_target = \<lparr>cd_epoch = ''2'', cd_root = ''0x03''\<rparr>\<rparr>"

definition vc_sample_bn :: bn where
  "vc_sample_bn =
     \<lparr>bn_get_syncing = Inr \<lparr>sy_is_syncing = False, sy_is_optimistic = False, sy_el_offline = False\<rparr>,
      bn_get_fork = Inr ''0x00000001'',
      bn_produce_block_v3 = \<lambda>_ _ _. Inr \<lparr>pb_block_ssz = Some ''0x00'', pb_version = None\<rparr>,
      bn_get_attestation_data = \<lambda>_ _. Inr vc_sample_data\<rparr>"

definition vc_sample_entries :: "unit validator_entry list" where
  "vc_sample_entries = [\<lparr>va_index = 7, va_pubkey_hex = ''0xa'', va_signer = \<lambda>_. Inr 0\<rparr>]"

definition vc_sample_end :: "slashing_db vc" where
  "vc_sample_end =
     vc_slot vc_sample_env (check_and_record_block_proposal healthy) (check_and_record_attestation healthy)
       \<lparr>vcc_graffiti = None, vcc_slots_per_epoch = 32, vcc_electra_fork_version = None\<rparr> 0
       vc_sample_entries vc_sample_bn
       (\<lambda>e. if e = 2 then Some \<lparr>ed_proposer = \<lambda>_. Some ''0xa'', ed_attester = \<lambda>_. Some
          [\<lparr>du_validator_index = ''7'', du_committee_index = ''0''\<rparr>]\<rparr> else None)
       64 (vc_start True vc_sample_entries 0 (open_db None))"

definition vc_sample_fork :: fork_context where
  "vc_sample_fork = \<lparr>fx_current_version = 1, fx_genesis_validators_root = 0\<rparr>"

definition vc_sample_att :: attestation_data where
  "vc_sample_att = att_data_from_dto (\<lambda>_. Some [0, 0, 0, 1]) vc_sample_data"

lemma vc_sample_parses:
  "parse_or ''7'' (- 1) = 7" "parse_or ''0'' 0 = 0" "parse_or ''1'' 0 = 1" "parse_or ''2'' 0 = 2"
  by code_simp+

lemma vc_sample_guard: "may_sign (advance 2 (guard_new True [''0xa''] 0)) ''0xa'' 2"
  by code_simp

lemma vc_sample_version: "parse_fork_version (\<lambda>_. Some [0, 0, 0, 1]) ''0x00000001'' = Some 1"
  by code_simp

lemma vc_sample_signs:
  "vc_db vc_sample_end =
     \<lparr>signed_block = [\<lparr>br_pubkey = ''0xa'', br_slot = 64, br_signing_root = Some ''0x''\<rparr>],
      signed_attestation = [\<lparr>ar_pubkey = ''0xa'', ar_source_epoch = 1, ar_target_epoch = 2,
                             ar_signing_root = Some ''0x''\<rparr>]\<rparr>
   \<and> vc_blocks vc_sample_end = [(''0xa'', 64, sample_block 64 0, vc_sample_fork)]
   \<and> vc_atts vc_sample_end = [(''0xa'', vc_sample_att, vc_sample_fork)]
   \<and> vc_requests vc_sample_end = [(''0xa'', vc_sample_att, vc_sample_fork)]"
  by (simp add: vc_sample_end_def vc_slot_def vc_start_def Let_def vc_sample_bn_def vc_sample_env_def
      vc_sample_entries_def propose_duty_def attest_duty_def entry_by_pubkey_def entry_by_index_def
      run_proposer_def run_attester_def sign_randao_reveal_def sign_object_def sign_beacon_block_def
      sign_attestation_def hex_0x_def vc_sample_guard vc_sample_version vc_sample_parses
      check_and_record_block_proposal_def check_block_proposal_def check_and_record_attestation_def
      check_attestation_def check_surround_def sql_def healthy_def open_db_def blocks_of_key_def
      atts_of_key_def block_at_def att_at_def insert_block_row_def insert_att_row_def
      vc_sample_att_def vc_sample_fork_def vc_sample_data_def)

theorem vc_never_signs_slashable_witness:
  "no_slashable_pair vc_sample_end \<and> vc_atts vc_sample_end \<noteq> [] \<and> vc_blocks vc_sample_end \<noteq> []"
proof -
  have epochs: "bn_epochs epoch_63 vc_sample_bn"
    by (simp add: bn_epochs_def vc_sample_bn_def vc_sample_data_def vc_sample_parses epoch_63_def)
  have "vc_run vc_sample_env check_and_record_block_proposal check_and_record_attestation epoch_63
      (\<lambda>db db'. safe_import db db' \<and> (\<forall>r \<in> att_records db' - att_records db. truthful (\<lambda>_. vc_sample_att) r))
      \<lparr>vcc_graffiti = None, vcc_slots_per_epoch = 32, vcc_electra_fork_version = None\<rparr> 0
      vc_sample_entries (vc_start True vc_sample_entries 0 (open_db None)) vc_sample_end"
    unfolding vc_sample_end_def by (rule vc_run.slot [OF vc_run.start epochs])
  moreover have "db_safe (open_db None)" "\<forall>r \<in> att_records (open_db None). truthful (\<lambda>_. vc_sample_att) r"
    by (simp_all add: open_db_def db_safe_def keys_ok_def votes_safe_def att_records_def)
  moreover have "requests_identified vc_sample_env (\<lambda>_. vc_sample_att) vc_sample_end"
    "blocks_identified vc_sample_env (\<lambda>_. sample_block 64 0) vc_sample_end"
    by (simp_all add: requests_identified_def blocks_identified_def vc_sample_signs)
  ultimately have "no_slashable_pair vc_sample_end"
    by (rule vc_never_signs_slashable)
  then show ?thesis by (simp add: vc_sample_signs)
qed

text \<open>
  The proposer path does not compare the slot of the block it gets with the slot it asked for: asked to
  propose at slot 65 it signs a block of slot 64 and records slot 65.
\<close>

lemma produced_block_slot_unchecked:
  "vc_blocks (run_proposer vc_sample_env (check_and_record_block_proposal healthy) vc_sample_bn
      (hd vc_sample_entries) 65 2 vc_sample_fork None (vc_start True vc_sample_entries 0 (open_db None)))
     = [(''0xa'', 65, sample_block 64 0, vc_sample_fork)] \<and> b_slot (sample_block 64 0) = 64"
  by (simp add: vc_start_def vc_sample_bn_def vc_sample_env_def vc_sample_entries_def run_proposer_def
      sign_randao_reveal_def sign_object_def sign_beacon_block_def hex_0x_def
      check_and_record_block_proposal_def check_block_proposal_def sql_def healthy_def open_db_def
      blocks_of_key_def block_at_def insert_block_row_def sample_block_def Let_def)

end
