(* ===== verification/Phase0_Mutators.thy ===== *)
theory Phase0_Mutators
  imports Phase0_Accessors
begin

text \<open>
  Setters and mutators of the phase 0 beacon state
  (\<^verbatim>\<open>src/crates/pharos-stf/src/phase0/state_write.rs\<close>, \<^verbatim>\<open>mutators.rs\<close>).

  A mutator takes a state and returns an error or the new state; what the source has already written
  when it returns an error is dropped, as its callers drop the state.  The states of the model are
  the phase 0 variant of the fork enum: the setters of the enum reach \<^verbatim>\<open>unreachable!\<close> on any
  other.  SSZ lists and vectors are HOL lists; that both storage forms of the SSZ crate behave
  like one is the subject of \<^verbatim>\<open>Ssz_Refine\<close>.

  The lemmas: \<open>frame\<close>, the relation between the states before and after any mutator, keeps the
  shape of the state, its slot and its checkpoints, and lets the registry only evolve
  (\<open>registry_evolves\<close>: nobody active at an epoch below the activation delay stops being active).
  The exit queue admits no more validators to an epoch than the churn limit allows.
\<close>

section \<open>Setters\<close>

text \<open>\<^verbatim>\<open>Result::map_err\<close>.\<close>

definition map_err :: "('e \<Rightarrow> 'f) \<Rightarrow> ('e, 'a) result \<Rightarrow> ('f, 'a) result" where
  "map_err f r = (case r of Inl e \<Rightarrow> Inl (f e) | Inr a \<Rightarrow> Inr a)"

lemma map_err_Inr [simp]: "map_err f r = Inr a \<longleftrightarrow> r = Inr a"
  by (cases r) (simp_all add: map_err_def)

text \<open>
  \<^verbatim>\<open>with_set\<close> and \<^verbatim>\<open>with_push\<close> of the SSZ sequences.
\<close>

definition list_with_set :: "'a list \<Rightarrow> nat \<Rightarrow> 'a \<Rightarrow> (state_transition_error, 'a list) result" where
  "list_with_set xs i v = (if i < length xs then Inr (xs[i := v]) else Inl SszError)"

definition list_with_push :: "u64 \<Rightarrow> 'a list \<Rightarrow> 'a \<Rightarrow> (state_transition_error, 'a list) result" where
  "list_with_push limit xs v = (if length xs < unat limit then Inr (xs @ [v]) else Inl SszError)"

definition set_slot :: "u64 \<Rightarrow> beacon_state \<Rightarrow> beacon_state" where
  "set_slot slot st = st\<lparr>st_slot := slot\<rparr>"

definition set_latest_block_header :: "beacon_block_header \<Rightarrow> beacon_state \<Rightarrow> beacon_state" where
  "set_latest_block_header header st = st\<lparr>st_latest_block_header := header\<rparr>"

definition set_eth1_data :: "eth1_data \<Rightarrow> beacon_state \<Rightarrow> beacon_state" where
  "set_eth1_data data st = st\<lparr>st_eth1_data := data\<rparr>"

definition push_eth1_data_vote ::
  "preset \<Rightarrow> eth1_data \<Rightarrow> beacon_state \<Rightarrow> (state_transition_error, beacon_state) result" where
  "push_eth1_data_vote E data st =
     bind_result (list_with_push (ETH1_DATA_VOTES_LIMIT E) (st_eth1_data_votes st) data)
       (\<lambda>votes. Inr (st\<lparr>st_eth1_data_votes := votes\<rparr>))"

definition increment_eth1_deposit_index :: "beacon_state \<Rightarrow> beacon_state" where
  "increment_eth1_deposit_index st = st\<lparr>st_eth1_deposit_index := st_eth1_deposit_index st + 1\<rparr>"

definition set_validator ::
  "nat \<Rightarrow> validator \<Rightarrow> beacon_state \<Rightarrow> (state_transition_error, beacon_state) result" where
  "set_validator idx v st =
     bind_result (list_with_set (st_validators st) idx v) (\<lambda>vs. Inr (st\<lparr>st_validators := vs\<rparr>))"

definition push_validator ::
  "preset \<Rightarrow> validator \<Rightarrow> beacon_state \<Rightarrow> (state_transition_error, beacon_state) result" where
  "push_validator E v st =
     bind_result (list_with_push (VALIDATOR_REGISTRY_LIMIT E) (st_validators st) v)
       (\<lambda>vs. Inr (st\<lparr>st_validators := vs\<rparr>))"

definition set_balance ::
  "nat \<Rightarrow> u64 \<Rightarrow> beacon_state \<Rightarrow> (state_transition_error, beacon_state) result" where
  "set_balance idx val st =
     (case list_with_set (st_balances st) idx val of
        Inl e \<Rightarrow> Inl (IndexOutOfRange idx)
      | Inr bs \<Rightarrow> Inr (st\<lparr>st_balances := bs\<rparr>))"

definition push_balance ::
  "preset \<Rightarrow> u64 \<Rightarrow> beacon_state \<Rightarrow> (state_transition_error, beacon_state) result" where
  "push_balance E val st =
     bind_result (list_with_push (VALIDATOR_REGISTRY_LIMIT E) (st_balances st) val)
       (\<lambda>bs. Inr (st\<lparr>st_balances := bs\<rparr>))"

definition set_slashing ::
  "nat \<Rightarrow> u64 \<Rightarrow> beacon_state \<Rightarrow> (state_transition_error, beacon_state) result" where
  "set_slashing idx val st =
     bind_result (list_with_set (st_slashings st) idx val) (\<lambda>xs. Inr (st\<lparr>st_slashings := xs\<rparr>))"

definition set_randao_mix ::
  "nat \<Rightarrow> hash256 \<Rightarrow> beacon_state \<Rightarrow> (state_transition_error, beacon_state) result" where
  "set_randao_mix idx mix st =
     bind_result (list_with_set (st_randao_mixes st) idx mix) (\<lambda>xs. Inr (st\<lparr>st_randao_mixes := xs\<rparr>))"

definition push_current_epoch_attestation ::
  "preset \<Rightarrow> pending_attestation \<Rightarrow> beacon_state \<Rightarrow> (state_transition_error, beacon_state) result" where
  "push_current_epoch_attestation E att st =
     bind_result (list_with_push (MAX_PENDING_ATTESTATIONS E) (st_current_epoch_attestations st) att)
       (\<lambda>atts. Inr (st\<lparr>st_current_epoch_attestations := atts\<rparr>))"

definition push_previous_epoch_attestation ::
  "preset \<Rightarrow> pending_attestation \<Rightarrow> beacon_state \<Rightarrow> (state_transition_error, beacon_state) result" where
  "push_previous_epoch_attestation E att st =
     bind_result (list_with_push (MAX_PENDING_ATTESTATIONS E) (st_previous_epoch_attestations st) att)
       (\<lambda>atts. Inr (st\<lparr>st_previous_epoch_attestations := atts\<rparr>))"

definition eth1_data_votes_count_matching :: "eth1_data \<Rightarrow> beacon_state \<Rightarrow> nat" where
  "eth1_data_votes_count_matching data st = length (filter (\<lambda>v. v = data) (st_eth1_data_votes st))"

text \<open>Bits \<open>0..4\<close> are written one by one; a bit vector ignores a write out of range.\<close>

definition set_justification_bits :: "bool list \<Rightarrow> beacon_state \<Rightarrow> beacon_state" where
  "set_justification_bits bits st =
     st\<lparr>st_justification_bits :=
          fold (\<lambda>i bs. bs[i := unwrap_or (nth_opt bits i) False]) [0..<4] (st_justification_bits st)\<rparr>"

definition justification_bits :: "beacon_state \<Rightarrow> bool list" where
  "justification_bits st = map (\<lambda>i. unwrap_or (nth_opt (st_justification_bits st) i) False) [0..<4]"

definition push_historical_root ::
  "preset \<Rightarrow> root \<Rightarrow> beacon_state \<Rightarrow> (state_transition_error, beacon_state) result" where
  "push_historical_root E rt st =
     bind_result (list_with_push (HISTORICAL_ROOTS_LIMIT E) (st_historical_roots st) rt)
       (\<lambda>xs. Inr (st\<lparr>st_historical_roots := xs\<rparr>))"

definition set_previous_epoch_attestations ::
  "preset \<Rightarrow> pending_attestation list \<Rightarrow> beacon_state \<Rightarrow>
   (state_transition_error, beacon_state) result" where
  "set_previous_epoch_attestations E atts st =
     (if length atts \<le> unat (MAX_PENDING_ATTESTATIONS E)
      then Inr (st\<lparr>st_previous_epoch_attestations := atts\<rparr>) else Inl SszError)"

definition clear_current_epoch_attestations :: "beacon_state \<Rightarrow> beacon_state" where
  "clear_current_epoch_attestations st = st\<lparr>st_current_epoch_attestations := []\<rparr>"

definition clear_eth1_data_votes :: "beacon_state \<Rightarrow> beacon_state" where
  "clear_eth1_data_votes st = st\<lparr>st_eth1_data_votes := []\<rparr>"

definition set_state_root ::
  "nat \<Rightarrow> root \<Rightarrow> beacon_state \<Rightarrow> (state_transition_error, beacon_state) result" where
  "set_state_root idx rt st =
     bind_result (list_with_set (st_state_roots st) idx rt) (\<lambda>xs. Inr (st\<lparr>st_state_roots := xs\<rparr>))"

definition set_block_root ::
  "nat \<Rightarrow> root \<Rightarrow> beacon_state \<Rightarrow> (state_transition_error, beacon_state) result" where
  "set_block_root idx rt st =
     bind_result (list_with_set (st_block_roots st) idx rt) (\<lambda>xs. Inr (st\<lparr>st_block_roots := xs\<rparr>))"

section \<open>Mutators\<close>

definition increase_balance ::
  "u64 \<Rightarrow> u64 \<Rightarrow> beacon_state \<Rightarrow> (state_transition_error, beacon_state) result" where
  "increase_balance index delta st =
     (let cur = unwrap_or (nth_opt (st_balances st) (unat index)) 0
      in set_balance (unat index) (saturating_add cur delta) st)"

definition decrease_balance ::
  "u64 \<Rightarrow> u64 \<Rightarrow> beacon_state \<Rightarrow> (state_transition_error, beacon_state) result" where
  "decrease_balance index delta st =
     (let cur = unwrap_or (nth_opt (st_balances st) (unat index)) 0;
          new_val = (if cur < delta then 0 else cur - delta)
      in set_balance (unat index) new_val st)"

text \<open>\<^verbatim>\<open>Iterator::max\<close> on \<^verbatim>\<open>u64\<close>.\<close>

definition iter_max :: "u64 list \<Rightarrow> u64 option" where
  "iter_max xs = (case xs of [] \<Rightarrow> None | x # ys \<Rightarrow> Some (fold max ys x))"

definition exit_queue_epoch_of :: "preset \<Rightarrow> beacon_state \<Rightarrow> u64" where
  "exit_queue_epoch_of E st =
     (let activation_exit_epoch =
            compute_activation_exit_epoch (get_current_epoch E st) (MAX_SEED_LOOKAHEAD E)
      in max (unwrap_or (iter_max (map v_exit_epoch
                (filter (\<lambda>v. v_exit_epoch v \<noteq> FAR_FUTURE_EPOCH) (st_validators st)))) 0)
           activation_exit_epoch)"

definition initiate_validator_exit ::
  "preset \<Rightarrow> u64 \<Rightarrow> beacon_state \<Rightarrow> (state_transition_error, beacon_state) result" where
  "initiate_validator_exit E index st =
     (case nth_opt (st_validators st) (unat index) of
        None \<Rightarrow> Inl SlotOutOfRange
      | Some validator \<Rightarrow>
          if v_exit_epoch validator \<noteq> FAR_FUTURE_EPOCH then Inr st
          else
            let exit_queue_epoch = exit_queue_epoch_of E st;
                churn_limit = get_validator_churn_limit E st;
                exit_queue_churn = word_of_nat (length
                  (filter (\<lambda>v. v_exit_epoch v = exit_queue_epoch) (st_validators st))) :: u64
            in bind_result
                 (if churn_limit \<le> exit_queue_churn
                  then ok_or (checked_add exit_queue_epoch 1) SlotOutOfRange
                  else Inr exit_queue_epoch)
                 (\<lambda>final_exit_epoch.
                    bind_result
                      (ok_or (checked_add final_exit_epoch (MIN_VALIDATOR_WITHDRAWABILITY_DELAY E))
                         SlotOutOfRange)
                      (\<lambda>withdrawable_epoch.
                         set_validator (unat index)
                           (validator\<lparr>v_exit_epoch := final_exit_epoch,
                                      v_withdrawable_epoch := withdrawable_epoch\<rparr>) st)))"

definition slash_validator ::
  "preset \<Rightarrow> sha256 \<Rightarrow> u64 \<Rightarrow> u64 option \<Rightarrow> beacon_state \<Rightarrow>
   (state_transition_error, beacon_state) result option" where
  "slash_validator E sha slashed_index whistleblower_index st =
     (let epoch = get_current_epoch E st in
      bind_try (Some (initiate_validator_exit E slashed_index st)) (\<lambda>st.
      bind_try (Some (ok_or (nth_opt (st_validators st) (unat slashed_index)) SlotOutOfRange)) (\<lambda>v.
      let effective_balance = v_effective_balance v;
          new_withdrawable_epoch =
            max (v_withdrawable_epoch v) (epoch + EPOCHS_PER_SLASHINGS_VECTOR E)
      in
      bind_try (Some (set_validator (unat slashed_index)
                  (v\<lparr>v_slashed := True, v_withdrawable_epoch := new_withdrawable_epoch\<rparr>) st)) (\<lambda>st.
      let slashing_slot = unat (epoch mod EPOCHS_PER_SLASHINGS_VECTOR E);
          cur_slashing = unwrap_or (nth_opt (st_slashings st) slashing_slot) 0
      in
      bind_try (Some (set_slashing slashing_slot (saturating_add cur_slashing effective_balance) st)) (\<lambda>st.
      let penalty = effective_balance div MIN_SLASHING_PENALTY_QUOTIENT E in
      bind_try (Some (decrease_balance slashed_index penalty st)) (\<lambda>st.
      case get_beacon_proposer_index E sha st of
        None \<Rightarrow> None
      | Some proposer_index \<Rightarrow>
          let whistleblower_idx = unwrap_or whistleblower_index proposer_index;
              whistleblower_reward = effective_balance div WHISTLEBLOWER_REWARD_QUOTIENT E;
              proposer_reward = whistleblower_reward div PROPOSER_REWARD_QUOTIENT E
          in
          bind_try (Some (increase_balance proposer_index proposer_reward st)) (\<lambda>st.
          Some (increase_balance whistleblower_idx (whistleblower_reward - proposer_reward) st))))))))"

section \<open>What a mutator leaves alone\<close>

text \<open>
  The type of a state: the SSZ containers fix the length of every vector and bound that of every
  list, and the registry and the balances are two columns of one table.
\<close>

definition state_shape :: "preset \<Rightarrow> beacon_state \<Rightarrow> bool" where
  "state_shape E st \<longleftrightarrow>
     length (st_block_roots st) = unat (SLOTS_PER_HISTORICAL_ROOT E) \<and>
     length (st_state_roots st) = unat (SLOTS_PER_HISTORICAL_ROOT E) \<and>
     length (st_randao_mixes st) = unat (EPOCHS_PER_HISTORICAL_VECTOR E) \<and>
     length (st_slashings st) = unat (EPOCHS_PER_SLASHINGS_VECTOR E) \<and>
     length (st_justification_bits st) = 4 \<and>
     length (st_balances st) = length (st_validators st) \<and>
     length (st_validators st) \<le> unat (VALIDATOR_REGISTRY_LIMIT E) \<and>
     length (st_historical_roots st) \<le> unat (HISTORICAL_ROOTS_LIMIT E) \<and>
     length (st_eth1_data_votes st) \<le> unat (ETH1_DATA_VOTES_LIMIT E) \<and>
     length (st_previous_epoch_attestations st) \<le> unat (MAX_PENDING_ATTESTATIONS E) \<and>
     length (st_current_epoch_attestations st) \<le> unat (MAX_PENDING_ATTESTATIONS E)"

text \<open>
  A registry evolves: keys stay, a slashed validator stays slashed, and an activation or exit
  epoch is written once, to an epoch not below \<open>d\<close>.
\<close>

definition validator_evolves :: "u64 \<Rightarrow> validator \<Rightarrow> validator \<Rightarrow> bool" where
  "validator_evolves d v v' \<longleftrightarrow>
     v_pubkey v' = v_pubkey v \<and> v_withdrawal_credentials v' = v_withdrawal_credentials v \<and>
     (v_slashed v \<longrightarrow> v_slashed v') \<and>
     (v_activation_epoch v' = v_activation_epoch v \<or>
      v_activation_epoch v = FAR_FUTURE_EPOCH \<and> d \<le> v_activation_epoch v') \<and>
     (v_exit_epoch v' = v_exit_epoch v \<or> v_exit_epoch v = FAR_FUTURE_EPOCH \<and> d \<le> v_exit_epoch v')"

definition registry_evolves :: "u64 \<Rightarrow> validator list \<Rightarrow> validator list \<Rightarrow> bool" where
  "registry_evolves d vs vs' \<longleftrightarrow>
     length vs \<le> length vs' \<and>
     (\<forall>i<length vs. validator_evolves d (vs ! i) (vs' ! i)) \<and>
     (\<forall>i<length vs'. length vs \<le> i \<longrightarrow> d \<le> v_activation_epoch (vs' ! i))"

abbreviation delay_epoch :: "preset \<Rightarrow> beacon_state \<Rightarrow> u64" where
  "delay_epoch E st \<equiv> compute_activation_exit_epoch (get_current_epoch E st) (MAX_SEED_LOOKAHEAD E)"

lemma far_future_greatest [simp]: "e \<le> FAR_FUTURE_EPOCH"
  by (simp add: FAR_FUTURE_EPOCH_def)

lemma unat_activation_exit_epoch:
  assumes "unat e + 1 + unat l < 2 ^ 64"
  shows "unat (compute_activation_exit_epoch e l) = unat e + 1 + unat l"
proof -
  have "unat (e + 1) = unat e + 1" using assms by (intro unat_Suc_u64) linarith
  then show ?thesis
    using assms unat_add_u64 [of "e + 1" l] by (simp only: compute_activation_exit_epoch_def)
qed

lemma delay_epoch_above:
  assumes "unat e + 1 + unat l < 2 ^ 64" and "unat x \<le> unat e + unat l"
  shows "x < compute_activation_exit_epoch e l"
  using unat_activation_exit_epoch [OF assms(1)] assms(2) by (simp only: word_less_nat_alt)

subsection \<open>The active set is fixed up to the activation delay\<close>

lemma enumerate_filter_map_from:
  "map (\<lambda>(i, v). word_of_nat i :: u64) (filter (\<lambda>(i, v). P v) (enumerate k vs))
     = map word_of_nat (filter (\<lambda>i. P (vs ! (i - k))) [k..<k + length vs])"
proof (induction vs arbitrary: k)
  case (Cons v vs)
  have "filter (\<lambda>i. P ((v # vs) ! (i - k))) [Suc k..<Suc k + length vs]
          = filter (\<lambda>i. P (vs ! (i - Suc k))) [Suc k..<Suc k + length vs]"
    by (intro filter_cong) (auto simp: nth_Cons' not_less_eq_eq)
  moreover have "[k..<k + length (v # vs)] = k # [Suc k..<Suc k + length vs]"
    by (simp add: upt_conv_Cons del: upt_Suc)
  ultimately show ?case using Cons.IH [of "Suc k"] by (simp del: upt_Suc)
qed simp

lemma enumerate_filter_map:
  "map (\<lambda>(i, v). word_of_nat i :: u64) (filter (\<lambda>(i, v). P v) (enumerate 0 vs))
     = map word_of_nat (filter (\<lambda>i. P (vs ! i)) [0..<length vs])"
  using enumerate_filter_map_from [of P 0 vs] by simp

lemma active_indices_filter:
  "get_active_validator_indices E st epoch =
     map word_of_nat (filter (\<lambda>i. is_active_validator (st_validators st ! i) epoch)
                        [0..<length (st_validators st)])"
  unfolding get_active_validator_indices_def by (rule enumerate_filter_map)

lemma is_active_evolves:
  assumes "validator_evolves d v v'" and "x < d"
  shows "is_active_validator v' x = is_active_validator v x"
proof -
  from assms(2) have "x < FAR_FUTURE_EPOCH" using far_future_greatest less_le_trans by blast
  then show ?thesis using assms by (auto simp: validator_evolves_def is_active_validator_def)
qed

lemma active_indices_evolves:
  assumes "registry_evolves d (st_validators st) (st_validators st')" and "x < d"
  shows "get_active_validator_indices E st' x = get_active_validator_indices E st x"
proof -
  let ?m = "length (st_validators st)" and ?n = "length (st_validators st')"
  have len: "?m \<le> ?n" using assms(1) by (simp add: registry_evolves_def)
  then have split: "[0..<?n] = [0..<?m] @ [?m..<?n]"
    by (metis le_add_diff_inverse upt_add_eq_append zero_le)
  have old: "filter (\<lambda>i. is_active_validator (st_validators st' ! i) x) [0..<?m]
               = filter (\<lambda>i. is_active_validator (st_validators st ! i) x) [0..<?m]"
    using assms by (intro filter_cong) (auto simp: registry_evolves_def is_active_evolves)
  have new: "filter (\<lambda>i. is_active_validator (st_validators st' ! i) x) [?m..<?n] = []"
    using assms by (auto simp: filter_empty_conv registry_evolves_def is_active_validator_def)
  show ?thesis by (simp add: active_indices_filter split old new)
qed

subsection \<open>Pending attestations\<close>

text \<open>
  The pending attestations a committee exists for: their slot lies in the current or an earlier
  epoch and their committee index below the number of committees of that epoch.
\<close>

definition pending_ok :: "preset \<Rightarrow> beacon_state \<Rightarrow> pending_attestation \<Rightarrow> bool" where
  "pending_ok E st a \<longleftrightarrow>
     (let epoch = compute_epoch_at_slot (ad_slot (pa_data a)) (SLOTS_PER_EPOCH E)
      in epoch \<le> get_current_epoch E st \<and>
         ad_index (pa_data a) < get_committee_count_per_slot E st epoch)"

definition pending_atts :: "beacon_state \<Rightarrow> pending_attestation set" where
  "pending_atts st = set (st_previous_epoch_attestations st) \<union> set (st_current_epoch_attestations st)"

definition epoch_bound :: "preset \<Rightarrow> beacon_state \<Rightarrow> bool" where
  "epoch_bound E st \<longleftrightarrow> unat (get_current_epoch E st) + 1 + unat (MAX_SEED_LOOKAHEAD E) < 2 ^ 64"

lemma epoch_before_delay: "epoch_bound E st \<Longrightarrow> x \<le> get_current_epoch E st \<Longrightarrow> x < delay_epoch E st"
  unfolding epoch_bound_def by (rule delay_epoch_above) (simp_all add: word_le_nat_alt)

lemma pending_ok_evolves:
  assumes "registry_evolves (delay_epoch E st) (st_validators st) (st_validators st')"
    and "st_slot st' = st_slot st" and "epoch_bound E st"
  shows "pending_ok E st' a = pending_ok E st a"
proof -
  have "get_current_epoch E st' = get_current_epoch E st" by (simp add: get_current_epoch_def assms(2))
  moreover have "get_committee_count_per_slot E st' x = get_committee_count_per_slot E st x"
    if "x \<le> get_current_epoch E st" for x
    using active_indices_evolves [OF assms(1) epoch_before_delay [OF assms(3) that]]
    by (simp only: get_committee_count_per_slot_def)
  ultimately show ?thesis by (auto simp: pending_ok_def Let_def)
qed

subsection \<open>The frame\<close>

definition mixes_kept :: "preset \<Rightarrow> u64 \<Rightarrow> hash256 list \<Rightarrow> hash256 list \<Rightarrow> bool" where
  "mixes_kept E e ms ms' \<longleftrightarrow>
     length ms' = length ms \<and>
     (\<forall>j. j \<noteq> unat (e mod EPOCHS_PER_HISTORICAL_VECTOR E) \<longrightarrow>
          j \<noteq> unat ((e + 1) mod EPOCHS_PER_HISTORICAL_VECTOR E) \<longrightarrow> ms' ! j = ms ! j)"

definition evolves :: "preset \<Rightarrow> beacon_state \<Rightarrow> beacon_state \<Rightarrow> bool" where
  "evolves E st st' \<longleftrightarrow>
     st_fork_variant st' = st_fork_variant st \<and> st_genesis_time st' = st_genesis_time st \<and>
     st_genesis_validators_root st' = st_genesis_validators_root st \<and>
     st_slot st' = st_slot st \<and> st_fork st' = st_fork st \<and>
     (state_shape E st \<longrightarrow> state_shape E st') \<and>
     registry_evolves (delay_epoch E st) (st_validators st) (st_validators st') \<and>
     mixes_kept E (get_current_epoch E st) (st_randao_mixes st) (st_randao_mixes st') \<and>
     (epoch_bound E st \<longrightarrow> pending_atts st' \<subseteq> pending_atts st \<union> {a. pending_ok E st a})"

definition frame :: "preset \<Rightarrow> beacon_state \<Rightarrow> beacon_state \<Rightarrow> bool" where
  "frame E st st' \<longleftrightarrow>
     evolves E st st' \<and>
     st_justification_bits st' = st_justification_bits st \<and>
     st_previous_justified_checkpoint st' = st_previous_justified_checkpoint st \<and>
     st_current_justified_checkpoint st' = st_current_justified_checkpoint st \<and>
     st_finalized_checkpoint st' = st_finalized_checkpoint st"

subsection \<open>Sequences of steps under a preorder\<close>

text \<open>
  What the state transition relies on of its pieces: each is related to its input by a preorder
  \<open>R\<close>, so every sequence, loop and early return of them is.
\<close>

locale state_preorder =
  fixes R :: "'s \<Rightarrow> 's \<Rightarrow> bool"
  assumes refl: "R s s"
    and trans: "R s t \<Longrightarrow> R t u \<Longrightarrow> R s u"
begin

lemma bind_step:
  assumes "bind_result m f = Inr t" and "\<And>u. m = Inr u \<Longrightarrow> R s u"
    and "\<And>u. m = Inr u \<Longrightarrow> f u = Inr t \<Longrightarrow> R u t"
  shows "R s t"
  using assms trans by (auto simp: bind_result_Inr)

lemma try_step:
  assumes "bind_try m f = Some (Inr t)" and "\<And>u. m = Some (Inr u) \<Longrightarrow> R s u"
    and "\<And>u. m = Some (Inr u) \<Longrightarrow> f u = Some (Inr t) \<Longrightarrow> R u t"
  shows "R s t"
  using assms trans by (auto simp: bind_try_Inr)

lemma fold_try_step:
  assumes "fold_try f xs s = Some (Inr t)"
    and "\<And>x u v. x \<in> set xs \<Longrightarrow> f x u = Some (Inr v) \<Longrightarrow> R u v"
  shows "R s t"
  using fold_try_invariant [of f xs s t "R s"] assms refl trans by blast

lemma foldE_step:
  assumes "foldE f xs s = Inr t" and "\<And>x u v. x \<in> set xs \<Longrightarrow> f x u = Inr v \<Longrightarrow> R u v"
  shows "R s t"
  using assms
proof (induction xs arbitrary: s)
  case (Cons x xs)
  then obtain v where "f x s = Inr v" "foldE f xs v = Inr t" by (auto simp: bind_result_Inr)
  then show ?case using Cons.IH [of v] Cons.prems(2) trans by (metis list.set_intros)
qed (auto intro: refl)

end

lemma validator_evolves_refl: "validator_evolves d v v"
  by (simp add: validator_evolves_def)

lemma validator_evolves_trans:
  "validator_evolves d u v \<Longrightarrow> validator_evolves d v w \<Longrightarrow> validator_evolves d u w"
  unfolding validator_evolves_def by metis

lemma registry_evolves_refl: "registry_evolves d vs vs"
  by (simp add: registry_evolves_def validator_evolves_refl)

lemma validator_evolves_activation:
  "validator_evolves d v v' \<Longrightarrow> d \<le> v_activation_epoch v \<Longrightarrow> d \<le> v_activation_epoch v'"
  by (auto simp: validator_evolves_def)

lemma registry_evolves_trans:
  assumes "registry_evolves d us vs" and "registry_evolves d vs ws"
  shows "registry_evolves d us ws"
  unfolding registry_evolves_def
proof (intro conjI allI impI)
  show "length us \<le> length ws" using assms by (simp add: registry_evolves_def)
next
  fix i assume "i < length us"
  then show "validator_evolves d (us ! i) (ws ! i)"
    using assms validator_evolves_trans [of d "us ! i" "vs ! i" "ws ! i"]
    by (simp add: registry_evolves_def)
next
  fix i assume "i < length ws" "length us \<le> i"
  then show "d \<le> v_activation_epoch (ws ! i)"
    using assms validator_evolves_activation [of d "vs ! i" "ws ! i"]
    by (cases "i < length vs") (simp_all add: registry_evolves_def)
qed

lemma mixes_kept_refl: "mixes_kept E e ms ms"
  by (simp add: mixes_kept_def)

lemma mixes_kept_trans: "mixes_kept E e ls ms \<Longrightarrow> mixes_kept E e ms ns \<Longrightarrow> mixes_kept E e ls ns"
  by (simp add: mixes_kept_def)

lemma evolves_refl: "evolves E st st"
  by (simp add: evolves_def registry_evolves_refl mixes_kept_refl)

lemma evolves_epoch: "evolves E st st' \<Longrightarrow> get_current_epoch E st' = get_current_epoch E st"
  by (simp add: evolves_def get_current_epoch_def)

lemma evolves_pending:
  assumes "evolves E st st'" and "epoch_bound E st"
  shows "pending_ok E st' a = pending_ok E st a"
    and "pending_atts st' \<subseteq> pending_atts st \<union> {a. pending_ok E st a}"
proof -
  from assms(1) have "registry_evolves (delay_epoch E st) (st_validators st) (st_validators st')"
    "st_slot st' = st_slot st" by (simp_all add: evolves_def)
  then show "pending_ok E st' a = pending_ok E st a" using assms(2) by (rule pending_ok_evolves)
  from assms show "pending_atts st' \<subseteq> pending_atts st \<union> {a. pending_ok E st a}"
    by (simp add: evolves_def)
qed

lemma evolves_trans:
  assumes "evolves E r s" and "evolves E s t"
  shows "evolves E r t"
proof -
  note ep = evolves_epoch [OF assms(1)]
  have "pending_atts t \<subseteq> pending_atts r \<union> {a. pending_ok E r a}" if b: "epoch_bound E r"
  proof -
    have "epoch_bound E s" using b ep by (simp add: epoch_bound_def)
    then show ?thesis
      using evolves_pending(2) [OF assms(2)] evolves_pending [OF assms(1) b] by blast
  qed
  then show ?thesis
    using assms ep
      registry_evolves_trans [of "delay_epoch E r" "st_validators r" "st_validators s" "st_validators t"]
      mixes_kept_trans [of E "get_current_epoch E r" "st_randao_mixes r" "st_randao_mixes s" "st_randao_mixes t"]
    by (simp add: evolves_def)
qed

interpretation evo: state_preorder "evolves E" for E
  by unfold_locales (rule evolves_refl, rule evolves_trans)

interpretation fra: state_preorder "frame E" for E
  by unfold_locales (auto simp: frame_def intro: evolves_refl evolves_trans)

section \<open>Each mutator stays in its frame\<close>

lemma ok_or_nth_opt [simp]: "ok_or (nth_opt xs i) e = Inr v \<longleftrightarrow> i < length xs \<and> xs ! i = v"
  by (simp add: ok_or_Inr)

lemmas frame_defs = frame_def evolves_def state_shape_def list_with_set_def list_with_push_def
  registry_evolves_refl mixes_kept_refl pending_atts_def

lemma set_balance_frame: "set_balance i b st = Inr st' \<Longrightarrow> frame E st st'"
  by (auto simp: set_balance_def frame_defs split: if_splits)

lemma increase_balance_frame: "increase_balance i d st = Inr st' \<Longrightarrow> frame E st st'"
  by (auto simp: increase_balance_def Let_def intro: set_balance_frame)

lemma decrease_balance_frame: "decrease_balance i d st = Inr st' \<Longrightarrow> frame E st st'"
  by (simp only: decrease_balance_def Let_def) (rule set_balance_frame)

lemma set_slashing_frame: "set_slashing i b st = Inr st' \<Longrightarrow> frame E st st'"
  by (auto simp: set_slashing_def bind_result_Inr frame_defs split: if_splits)

lemma set_randao_mix_frame:
  assumes "set_randao_mix i mix st = Inr st'"
    and "i = unat (get_current_epoch E st mod EPOCHS_PER_HISTORICAL_VECTOR E) \<or>
         i = unat ((get_current_epoch E st + 1) mod EPOCHS_PER_HISTORICAL_VECTOR E)"
  shows "frame E st st'"
  using assms
  by (auto simp: set_randao_mix_def bind_result_Inr list_with_set_def frame_def evolves_def state_shape_def
      registry_evolves_refl mixes_kept_def pending_atts_def split: if_splits)

lemma set_validator_frame:
  assumes "set_validator i v st = Inr st'"
    and "validator_evolves (delay_epoch E st) (st_validators st ! i) v"
  shows "frame E st st'"
proof -
  from assms(1) have st': "i < length (st_validators st)"
    "st' = st\<lparr>st_validators := (st_validators st)[i := v]\<rparr>"
    by (auto simp: set_validator_def bind_result_Inr list_with_set_def split: if_splits)
  have "registry_evolves (delay_epoch E st) (st_validators st) ((st_validators st)[i := v])"
    using assms(2) st'(1) by (auto simp: registry_evolves_def nth_list_update validator_evolves_refl)
  then show ?thesis by (simp add: st' frame_def evolves_def state_shape_def mixes_kept_refl pending_atts_def)
qed

lemma checked_add_le: "checked_add a b = Some c \<Longrightarrow> a \<le> c"
  using checked_add_unat [of a b c] by (simp add: word_le_nat_alt)

lemma exit_queue_epoch_ge_delay: "delay_epoch E st \<le> exit_queue_epoch_of E st"
  by (simp add: exit_queue_epoch_of_def Let_def)

text \<open>What an exit that is not already queued does.\<close>

lemma initiate_validator_exitD:
  assumes "initiate_validator_exit E index st = Inr st'"
  obtains "st' = st" "unat index < length (st_validators st)"
      "v_exit_epoch (st_validators st ! unat index) \<noteq> FAR_FUTURE_EPOCH"
  | v x w where "unat index < length (st_validators st)" "v = st_validators st ! unat index"
      "v_exit_epoch v = FAR_FUTURE_EPOCH"
      "checked_add x (MIN_VALIDATOR_WITHDRAWABILITY_DELAY E) = Some w"
      "st' = st\<lparr>st_validators := (st_validators st)
                  [unat index := v\<lparr>v_exit_epoch := x, v_withdrawable_epoch := w\<rparr>]\<rparr>"
      "if get_validator_churn_limit E st \<le> word_of_nat (length
            (filter (\<lambda>v. v_exit_epoch v = exit_queue_epoch_of E st) (st_validators st)))
       then checked_add (exit_queue_epoch_of E st) 1 = Some x else x = exit_queue_epoch_of E st"
proof (cases "unat index < length (st_validators st)")
  case True
  let ?v = "st_validators st ! unat index" and ?q = "exit_queue_epoch_of E st"
  let ?full = "get_validator_churn_limit E st \<le> word_of_nat (length
                 (filter (\<lambda>v. v_exit_epoch v = ?q) (st_validators st)))"
  show ?thesis
  proof (cases "v_exit_epoch ?v = FAR_FUTURE_EPOCH")
    case far: True
    from assms True far obtain x w where x:
        "(if ?full then ok_or (checked_add ?q 1) SlotOutOfRange else Inr ?q) = Inr x"
        "ok_or (checked_add x (MIN_VALIDATOR_WITHDRAWABILITY_DELAY E)) SlotOutOfRange = Inr w"
        "set_validator (unat index) (?v\<lparr>v_exit_epoch := x, v_withdrawable_epoch := w\<rparr>) st = Inr st'"
      by (simp add: initiate_validator_exit_def Let_def bind_result_Inr) blast
    from x(3) True have "st' = st\<lparr>st_validators := (st_validators st)
        [unat index := ?v\<lparr>v_exit_epoch := x, v_withdrawable_epoch := w\<rparr>]\<rparr>"
      by (simp add: set_validator_def list_with_set_def)
    moreover from x(1) have "if ?full then checked_add ?q 1 = Some x else x = ?q"
      by (simp add: ok_or_Inr split: if_splits)
    ultimately show ?thesis using that(2) [OF True refl far] x(2) by (simp add: ok_or_Inr)
  qed (use that(1) True assms in \<open>simp add: initiate_validator_exit_def\<close>)
qed (use assms in \<open>simp add: initiate_validator_exit_def nth_opt_def\<close>)

lemma initiate_validator_exit_frame:
  assumes "initiate_validator_exit E index st = Inr st'"
  shows "frame E st st'"
  using assms
proof (cases rule: initiate_validator_exitD)
  case (2 v x w)
  from 2(6) have "exit_queue_epoch_of E st \<le> x"
    using checked_add_le by (auto split: if_splits)
  then have "delay_epoch E st \<le> x" using exit_queue_epoch_ge_delay order_trans by blast
  then have "validator_evolves (delay_epoch E st) v (v\<lparr>v_exit_epoch := x, v_withdrawable_epoch := w\<rparr>)"
    using 2(3) by (simp add: validator_evolves_def)
  then show ?thesis using 2 by (intro set_validator_frame [of "unat index" _ st st'])
      (simp_all add: set_validator_def list_with_set_def)
qed (simp add: fra.refl)

lemma slash_validator_frame:
  assumes "slash_validator E sha i wb st = Some (Inr st')"
  shows "frame E st st'"
proof -
  note frames = initiate_validator_exit_frame set_slashing_frame decrease_balance_frame
    increase_balance_frame
  have slash: "validator_evolves d v (v\<lparr>v_slashed := True, v_withdrawable_epoch := w\<rparr>)" for d v w
    by (simp add: validator_evolves_def)
  from assms show ?thesis
    unfolding slash_validator_def Let_def
    apply (elim fra.try_step)
     apply (simp add: frames(1))
    apply (subst (asm) bind_try_Inr, elim exE conjE)
    apply (elim fra.try_step)
        apply (auto simp: ok_or_Inr intro!: set_validator_frame slash)[1]
       apply (simp add: frames(2))
      apply (simp add: frames(3))
     apply (auto split: option.splits elim!: fra.try_step intro: frames(4))
    done
qed

section \<open>The exit queue\<close>

definition exits_at :: "beacon_state \<Rightarrow> u64 \<Rightarrow> nat" where
  "exits_at st x = length (filter (\<lambda>v. v_exit_epoch v = x) (st_validators st))"

text \<open>
  One or more exits: an epoch that gains an exiting validator holds at most the churn limit, and
  whoever is queued leaves no earlier than everybody queued before.
\<close>

definition queue_step :: "preset \<Rightarrow> beacon_state \<Rightarrow> beacon_state \<Rightarrow> bool" where
  "queue_step E st st' \<longleftrightarrow>
     length (st_validators st') = length (st_validators st) \<and>
     get_validator_churn_limit E st' = get_validator_churn_limit E st \<and>
     (\<forall>x. exits_at st x < exits_at st' x \<longrightarrow> exits_at st' x \<le> unat (get_validator_churn_limit E st)) \<and>
     (\<forall>i<length (st_validators st).
        v_exit_epoch (st_validators st' ! i) = v_exit_epoch (st_validators st ! i) \<or>
        v_exit_epoch (st_validators st ! i) = FAR_FUTURE_EPOCH \<and>
        v_exit_epoch (st_validators st' ! i) \<noteq> FAR_FUTURE_EPOCH \<and>
        (\<forall>j<length (st_validators st). v_exit_epoch (st_validators st ! j) \<noteq> FAR_FUTURE_EPOCH \<longrightarrow>
           v_exit_epoch (st_validators st ! j) \<le> v_exit_epoch (st_validators st' ! i)))"

lemma queue_step_refl: "queue_step E st st"
  by (simp add: queue_step_def)

lemma queue_step_exit:
  assumes "queue_step E st st'" and "i < length (st_validators st)"
  shows "v_exit_epoch (st_validators st' ! i) = v_exit_epoch (st_validators st ! i) \<or>
         v_exit_epoch (st_validators st ! i) = FAR_FUTURE_EPOCH \<and>
         v_exit_epoch (st_validators st' ! i) \<noteq> FAR_FUTURE_EPOCH"
  using assms by (auto simp: queue_step_def)

lemma queue_step_order:
  assumes "queue_step E st st'" and "i < length (st_validators st)" and "j < length (st_validators st)"
    and "v_exit_epoch (st_validators st' ! i) \<noteq> v_exit_epoch (st_validators st ! i)"
    and "v_exit_epoch (st_validators st ! j) \<noteq> FAR_FUTURE_EPOCH"
  shows "v_exit_epoch (st_validators st ! j) \<le> v_exit_epoch (st_validators st' ! i)"
  using assms by (auto simp: queue_step_def)

lemma queue_step_trans:
  assumes st: "queue_step E s t" and tu: "queue_step E t u"
  shows "queue_step E s u"
  unfolding queue_step_def
proof (intro conjI allI impI)
  show "length (st_validators u) = length (st_validators s)"
    "get_validator_churn_limit E u = get_validator_churn_limit E s"
    using assms by (simp_all add: queue_step_def)
next
  fix x assume "exits_at s x < exits_at u x"
  then show "exits_at u x \<le> unat (get_validator_churn_limit E s)"
    using assms unfolding queue_step_def by (metis le_trans less_le_trans linorder_le_less_linear)
next
  fix i assume i: "i < length (st_validators s)"
  let ?e = "\<lambda>st i. v_exit_epoch (st_validators st ! i)"
  have len: "length (st_validators t) = length (st_validators s)" using st by (simp add: queue_step_def)
  note ex = queue_step_exit [OF st i] queue_step_exit [OF tu, of i, unfolded len, OF i]
  show "?e u i = ?e s i \<or> ?e s i = FAR_FUTURE_EPOCH \<and> ?e u i \<noteq> FAR_FUTURE_EPOCH \<and>
          (\<forall>j<length (st_validators s). ?e s j \<noteq> FAR_FUTURE_EPOCH \<longrightarrow> ?e s j \<le> ?e u i)"
  proof (cases "?e t i = ?e s i")
    case True
    have "?e s j \<le> ?e u i"
      if "?e u i \<noteq> ?e t i" "j < length (st_validators s)" "?e s j \<noteq> FAR_FUTURE_EPOCH" for j
      using queue_step_order [OF tu, of i j] queue_step_exit [OF st that(2)] that i len by auto
    with True ex show ?thesis by auto
  next
    case False
    with ex queue_step_order [OF st i] show ?thesis by auto
  qed
qed

interpretation que: state_preorder "queue_step E" for E
  by unfold_locales (rule queue_step_refl, rule queue_step_trans)

lemma exits_at_update:
  assumes "i < length (st_validators st)"
  shows "exits_at (st\<lparr>st_validators := (st_validators st)[i := v]\<rparr>) x
           + (if v_exit_epoch (st_validators st ! i) = x then 1 else 0)
         = exits_at st x + (if v_exit_epoch v = x then 1 else 0)"
proof -
  let ?vs = "st_validators st"
  have "?vs = take i ?vs @ ?vs ! i # drop (Suc i) ?vs" using assms by (rule id_take_nth_drop)
  then have "length (filter P ?vs) = length (filter P (take i ?vs @ ?vs ! i # drop (Suc i) ?vs))" for P
    by simp
  then show ?thesis using assms by (simp add: exits_at_def upd_conv_take_nth_drop)
qed

lemma fold_max_ge: "y \<in> insert x (set xs) \<Longrightarrow> y \<le> fold max xs x" for x :: "'a :: linorder"
proof (induction xs arbitrary: x y)
  case (Cons a xs)
  show ?case
  proof (cases "y = x \<or> y = a")
    case True
    then have "y \<le> max a x" by auto
    also have "\<dots> \<le> fold max xs (max a x)" by (rule Cons.IH) simp
    finally show ?thesis by simp
  qed (use Cons in simp)
qed simp

lemma exit_queue_epoch_ge:
  assumes "v \<in> set (st_validators st)" and "v_exit_epoch v \<noteq> FAR_FUTURE_EPOCH"
  shows "v_exit_epoch v \<le> exit_queue_epoch_of E st"
proof -
  let ?xs = "map v_exit_epoch (filter (\<lambda>v. v_exit_epoch v \<noteq> FAR_FUTURE_EPOCH) (st_validators st))"
  have "v_exit_epoch v \<in> set ?xs" using assms by auto
  then obtain y ys where xs: "?xs = y # ys" "v_exit_epoch v \<in> insert y (set ys)"
    by (cases ?xs) auto
  then have "v_exit_epoch v \<le> unwrap_or (iter_max ?xs) 0"
    using fold_max_ge [of "v_exit_epoch v" y ys] by (simp add: iter_max_def)
  then show ?thesis by (simp add: exit_queue_epoch_of_def Let_def max.coboundedI1)
qed

lemma churn_limit_evolves:
  assumes "frame E st st'"
    and "epoch_bound E st"
  shows "get_validator_churn_limit E st' = get_validator_churn_limit E st"
proof -
  have "get_current_epoch E st < delay_epoch E st" using assms(2) by (rule epoch_before_delay) simp
  moreover have "registry_evolves (delay_epoch E st) (st_validators st) (st_validators st')"
    "get_current_epoch E st' = get_current_epoch E st"
    using assms(1) by (simp_all add: frame_def evolves_epoch) (simp add: evolves_def)
  ultimately show ?thesis using active_indices_evolves [of "delay_epoch E st" st st' "get_current_epoch E st" E]
    by (simp only: get_validator_churn_limit_def)
qed

lemma churn_limit_pos:
  assumes "0 < MIN_PER_EPOCH_CHURN_LIMIT E"
  shows "0 < unat (get_validator_churn_limit E st)"
proof -
  have "MIN_PER_EPOCH_CHURN_LIMIT E \<le> get_validator_churn_limit E st"
    by (simp add: get_validator_churn_limit_def Let_def)
  with assms have "0 < get_validator_churn_limit E st" by (rule less_le_trans)
  then show ?thesis by (simp add: word_less_nat_alt)
qed

lemma initiate_validator_exit_queue_step:
  assumes "initiate_validator_exit E index st = Inr st'"
    and "epoch_bound E st"
    and "0 < MIN_PER_EPOCH_CHURN_LIMIT E" and "0 < MIN_VALIDATOR_WITHDRAWABILITY_DELAY E"
    and "length (st_validators st) < 2 ^ 64"
  shows "queue_step E st st'"
proof -
  have churn: "get_validator_churn_limit E st' = get_validator_churn_limit E st"
    using initiate_validator_exit_frame [OF assms(1)] assms(2) by (rule churn_limit_evolves)
  from assms(1) show ?thesis
  proof (cases rule: initiate_validator_exitD)
    case (2 v x w)
    let ?q = "exit_queue_epoch_of E st" and ?c = "get_validator_churn_limit E st"
    have qx: "?q \<le> x" using 2(6) checked_add_le by (auto split: if_splits)
    have far: "x \<noteq> FAR_FUTURE_EPOCH"
      using 2(4) assms(4) by (auto simp: checked_add_def FAR_FUTURE_EPOCH_def unat_minus_1_u64
          word_less_nat_alt split: if_splits)
    have upd: "exits_at st' y + (if y = FAR_FUTURE_EPOCH then 1 else 0)
                 = exits_at st y + (if x = y then 1 else 0)" for y
      using exits_at_update [of "unat index" st "v\<lparr>v_exit_epoch := x, v_withdrawable_epoch := w\<rparr>" y]
        2(1-3) 2(5) by auto
    have count: "exits_at st' x \<le> unat ?c"
    proof (cases "?c \<le> word_of_nat (exits_at st ?q)")
      case True
      then have x: "checked_add ?q 1 = Some x" using 2(6) by (simp add: exits_at_def)
      then have "?q < x" using checked_add_unat [OF x] by (simp add: word_less_nat_alt)
      then have "exits_at st x = 0" using far
        by (auto simp: exits_at_def filter_empty_conv dest!: exit_queue_epoch_ge [where E = E])
      then show ?thesis using upd [of x] far churn_limit_pos [OF assms(3), of st] by simp
    next
      case False
      have "exits_at st ?q < 2 ^ 64"
        using assms(5) le_less_trans [OF length_filter_le] by (simp add: exits_at_def)
      then have "unat (word_of_nat (exits_at st ?q) :: u64) = exits_at st ?q"
        by (rule word_of_nat_length_unat)
      with False have "exits_at st ?q < unat ?c" by (simp add: word_le_nat_alt)
      moreover have "x = ?q" using False 2(6) by (simp add: exits_at_def)
      ultimately show ?thesis using upd [of x] far by simp
    qed
    have "exits_at st' y \<le> unat ?c" if "exits_at st y < exits_at st' y" for y
      using upd [of y] that count by (cases "x = y") (auto split: if_splits)
    moreover have "v_exit_epoch (st_validators st ! j) \<le> x"
      if "j < length (st_validators st)" "v_exit_epoch (st_validators st ! j) \<noteq> FAR_FUTURE_EPOCH" for j
      using exit_queue_epoch_ge [of "st_validators st ! j" st E] that qx by simp
    ultimately show ?thesis using 2 far churn
      by (auto simp: queue_step_def nth_list_update)
  qed (simp add: queue_step_refl)
qed

text \<open>C12: any sequence of exits initiated in one epoch respects the churn limit: an epoch of the
  exit queue that gains a validator ends with at most the churn limit of the epoch, and every newly
  queued validator leaves no earlier than the activation delay and than everybody who was queued
  before.\<close>

theorem exit_queue_within_churn:
  assumes "foldE (initiate_validator_exit E) indices st = Inr st'"
    and "epoch_bound E st"
    and "0 < MIN_PER_EPOCH_CHURN_LIMIT E" and "0 < MIN_VALIDATOR_WITHDRAWABILITY_DELAY E"
    and "length (st_validators st) < 2 ^ 64"
  shows "(\<forall>x. exits_at st x < exits_at st' x \<longrightarrow>
              exits_at st' x \<le> unat (get_validator_churn_limit E st))
       \<and> (\<forall>i<length (st_validators st).
            v_exit_epoch (st_validators st' ! i) \<noteq> v_exit_epoch (st_validators st ! i) \<longrightarrow>
              delay_epoch E st \<le> v_exit_epoch (st_validators st' ! i) \<and>
              (\<forall>j<length (st_validators st).
                 v_exit_epoch (st_validators st ! j) \<noteq> FAR_FUTURE_EPOCH \<longrightarrow>
                 v_exit_epoch (st_validators st ! j) \<le> v_exit_epoch (st_validators st' ! i)))"
proof -
  have "frame E st st' \<and> queue_step E st st'"
    using assms(1) _ _
  proof (rule foldE_invariant [where P = "\<lambda>u. frame E st u \<and> queue_step E st u"])
    show "frame E st st \<and> queue_step E st st" by (simp add: fra.refl queue_step_refl)
  next
    fix i u v assume "i \<in> set indices" and u: "frame E st u \<and> queue_step E st u"
      and v: "initiate_validator_exit E i u = Inr v"
    have "get_current_epoch E u = get_current_epoch E st"
      "length (st_validators u) = length (st_validators st)"
      using u by (simp_all add: frame_def evolves_epoch queue_step_def)
    then have "queue_step E u v"
      using assms(2-5) unfolding epoch_bound_def by (intro initiate_validator_exit_queue_step [OF v]) (simp_all add: epoch_bound_def)
    then show "frame E st v \<and> queue_step E st v"
      using u initiate_validator_exit_frame [OF v] fra.trans que.trans by blast
  qed
  then have q: "queue_step E st st'"
    and r: "registry_evolves (delay_epoch E st) (st_validators st) (st_validators st')"
    by (simp_all add: frame_def evolves_def)
  show ?thesis
  proof (intro conjI allI impI)
    fix x assume "exits_at st x < exits_at st' x"
    then show "exits_at st' x \<le> unat (get_validator_churn_limit E st)"
      using q by (simp only: queue_step_def)
  next
    fix i assume "i < length (st_validators st)"
      "v_exit_epoch (st_validators st' ! i) \<noteq> v_exit_epoch (st_validators st ! i)"
    then show "delay_epoch E st \<le> v_exit_epoch (st_validators st' ! i)"
      using r by (simp only: registry_evolves_def validator_evolves_def) blast
  next
    fix i j assume "i < length (st_validators st)" "j < length (st_validators st)"
      "v_exit_epoch (st_validators st' ! i) \<noteq> v_exit_epoch (st_validators st ! i)"
      "v_exit_epoch (st_validators st ! j) \<noteq> FAR_FUTURE_EPOCH"
    then show "v_exit_epoch (st_validators st ! j) \<le> v_exit_epoch (st_validators st' ! i)"
      by (rule queue_step_order [OF q])
  qed
qed

theorem exit_queue_within_churn_witness:
  "\<exists>st'. foldE (initiate_validator_exit minimal_preset) [0, 1, 2]
           (sample_state 0 [sample_validator, sample_validator, sample_validator]) = Inr st'
      \<and> map v_exit_epoch (st_validators st') = [5, 5, 6]
      \<and> exits_at st' 5 \<le> unat (get_validator_churn_limit minimal_preset
            (sample_state 0 [sample_validator, sample_validator, sample_validator]))"
proof -
  let ?st = "sample_state 0 [sample_validator, sample_validator, sample_validator]"
  have "case foldE (initiate_validator_exit minimal_preset) [0, 1, 2] ?st of
          Inl _ \<Rightarrow> False | Inr st' \<Rightarrow> map v_exit_epoch (st_validators st') = [5, 5, 6]"
    by code_simp
  then obtain st' where st': "foldE (initiate_validator_exit minimal_preset) [0, 1, 2] ?st = Inr st'"
    "map v_exit_epoch (st_validators st') = [5, 5, 6]" by (auto split: sum.splits)
  have "epoch_bound minimal_preset ?st"
    "0 < MIN_PER_EPOCH_CHURN_LIMIT minimal_preset" "0 < MIN_VALIDATOR_WITHDRAWABILITY_DELAY minimal_preset"
    "length (st_validators ?st) < 2 ^ 64" "exits_at ?st 5 = 0"
    by (simp_all add: epoch_bound_def get_current_epoch_def compute_epoch_at_slot_def sample_state_def
        minimal_preset_def exits_at_def sample_validator_def)
  moreover have "0 < exits_at st' 5" using st'(2) by (auto simp: exits_at_def filter_empty_conv)
  ultimately show ?thesis using exit_queue_within_churn [OF st'(1)] st' by auto
qed

end
