(* ===== verification/Phase0_Justification.thy ===== *)
theory Phase0_Justification
  imports Phase0_Mutators
begin

text \<open>
  Justification and finalization of phase 0
  (\<^verbatim>\<open>src/crates/pharos-stf/src/phase0/epoch/helpers.rs\<close> and
  \<^verbatim>\<open>justification_and_finalization.rs\<close>).

  A \<^verbatim>\<open>HashSet\<close> of indices is a list without repetitions: the code only sums over it, and sums of
  words do not depend on the order.  \<open>None\<close> is a panic inside the committee computation.

  The lemmas: the three checkpoints stay ordered and never move back, a checkpoint is justified
  only by two thirds of the active balance, and two consecutive justified epochs finalize.
\<close>

section \<open>Matching attestations\<close>

definition get_matching_source_attestations ::
  "preset \<Rightarrow> beacon_state \<Rightarrow> u64 \<Rightarrow> (epoch_processing_error, pending_attestation list) result" where
  "get_matching_source_attestations E st epoch =
     (let current_epoch = get_current_epoch E st;
          previous_epoch = get_previous_epoch E st
      in if epoch = current_epoch then Inr (st_current_epoch_attestations st)
         else if epoch = previous_epoch then Inr (st_previous_epoch_attestations st)
         else Inl InvalidEpochForAttestation)"

definition get_matching_target_attestations ::
  "preset \<Rightarrow> beacon_state \<Rightarrow> u64 \<Rightarrow> (epoch_processing_error, pending_attestation list) result" where
  "get_matching_target_attestations E st epoch =
     bind_result (get_matching_source_attestations E st epoch) (\<lambda>source.
       if source = [] then Inr []
       else bind_result (map_err (\<lambda>_. BlockRootUnavailable) (get_block_root E st epoch)) (\<lambda>block_root.
         Inr (filter (\<lambda>a. cp_root (ad_target (pa_data a)) = block_root) source)))"

definition get_matching_head_attestations ::
  "preset \<Rightarrow> beacon_state \<Rightarrow> u64 \<Rightarrow> (epoch_processing_error, pending_attestation list) result" where
  "get_matching_head_attestations E st epoch =
     bind_result (get_matching_target_attestations E st epoch) (\<lambda>target.
       foldE (\<lambda>a result.
                bind_result (map_err (\<lambda>_. BlockRootUnavailable)
                               (get_block_root_at_slot E st (ad_slot (pa_data a)))) (\<lambda>slot_root.
                  Inr (if ad_beacon_block_root (pa_data a) = slot_root then result @ [a] else result)))
         target [])"

definition get_unslashed_attesting_indices ::
  "preset \<Rightarrow> sha256 \<Rightarrow> beacon_state \<Rightarrow> pending_attestation list \<Rightarrow> u64 list option" where
  "get_unslashed_attesting_indices E sha st attestations =
     do {
       indices \<leftarrow> mapM (\<lambda>a. get_attesting_indices E sha st (pa_data a) (pa_aggregation_bits a)) attestations;
       Some (filter (\<lambda>idx. unwrap_or (map_option (\<lambda>v. \<not> v_slashed v) (nth_opt (st_validators st) (unat idx)))
                             False)
               (remdups (concat indices)))
     }"

definition get_attesting_balance ::
  "preset \<Rightarrow> sha256 \<Rightarrow> beacon_state \<Rightarrow> pending_attestation list \<Rightarrow> u64 option" where
  "get_attesting_balance E sha st attestations =
     map_option (get_total_balance E st) (get_unslashed_attesting_indices E sha st attestations)"

section \<open>Justification and finalization\<close>

text \<open>The four finalization rules in the order of the code: a later rule overwrites an earlier one.\<close>

definition finalization_rules :: "u64 \<Rightarrow> checkpoint \<Rightarrow> checkpoint \<Rightarrow> beacon_state \<Rightarrow> beacon_state" where
  "finalization_rules current_epoch old_previous old_current st =
     (let bits = justification_bits st;
          b1 = unwrap_or (nth_opt bits 1) False;
          b2 = unwrap_or (nth_opt bits 2) False;
          b3 = unwrap_or (nth_opt bits 3) False;
          b0 = unwrap_or (nth_opt bits 0) False;
          st = (if b1 \<and> b2 \<and> b3 \<and> cp_epoch old_previous + 3 = current_epoch
                then st\<lparr>st_finalized_checkpoint := old_previous\<rparr> else st);
          st = (if b1 \<and> b2 \<and> cp_epoch old_previous + 2 = current_epoch
                then st\<lparr>st_finalized_checkpoint := old_previous\<rparr> else st);
          st = (if b0 \<and> b1 \<and> b2 \<and> cp_epoch old_current + 2 = current_epoch
                then st\<lparr>st_finalized_checkpoint := old_current\<rparr> else st)
      in if b0 \<and> b1 \<and> cp_epoch old_current + 1 = current_epoch
         then st\<lparr>st_finalized_checkpoint := old_current\<rparr> else st)"

definition weigh_justification_and_finalization ::
  "preset \<Rightarrow> u64 \<Rightarrow> u64 \<Rightarrow> u64 \<Rightarrow> beacon_state \<Rightarrow> (epoch_processing_error, beacon_state) result" where
  "weigh_justification_and_finalization E total_active_balance previous_epoch_target_balance
     current_epoch_target_balance st =
     (let previous_epoch = get_previous_epoch E st;
          current_epoch = get_current_epoch E st;
          old_previous = st_previous_justified_checkpoint st;
          old_current = st_current_justified_checkpoint st;
          st = st\<lparr>st_previous_justified_checkpoint := st_current_justified_checkpoint st\<rparr>;
          bits = justification_bits st;
          b0 = unwrap_or (nth_opt bits 0) False;
          b1 = unwrap_or (nth_opt bits 1) False;
          b2 = unwrap_or (nth_opt bits 2) False;
          bits = bits[3 := b2, 2 := b1, 1 := b0, 0 := False]
      in
      bind_result
        (if total_active_balance * 2 \<le> previous_epoch_target_balance * 3
         then bind_result (map_err (\<lambda>_. BlockRootUnavailable) (get_block_root E st previous_epoch)) (\<lambda>rt.
                Inr (st\<lparr>st_current_justified_checkpoint := \<lparr>cp_epoch = previous_epoch, cp_root = rt\<rparr>\<rparr>,
                     bits[1 := True]))
         else Inr (st, bits)) (\<lambda>(st, bits).
      bind_result
        (if total_active_balance * 2 \<le> current_epoch_target_balance * 3
         then bind_result (map_err (\<lambda>_. BlockRootUnavailable) (get_block_root E st current_epoch)) (\<lambda>rt.
                Inr (st\<lparr>st_current_justified_checkpoint := \<lparr>cp_epoch = current_epoch, cp_root = rt\<rparr>\<rparr>,
                     bits[0 := True]))
         else Inr (st, bits)) (\<lambda>(st, bits).
      Inr (finalization_rules current_epoch old_previous old_current (set_justification_bits bits st)))))"

definition process_justification_and_finalization ::
  "preset \<Rightarrow> sha256 \<Rightarrow> beacon_state \<Rightarrow> (epoch_processing_error, beacon_state) result option" where
  "process_justification_and_finalization E sha st =
     (let current_epoch = get_current_epoch E st in
      if current_epoch \<le> GENESIS_EPOCH + 1 then Some (Inr st)
      else
        let previous_epoch = get_previous_epoch E st in
        bind_try (Some (get_matching_target_attestations E st previous_epoch)) (\<lambda>previous_target.
        bind_try (Some (get_matching_target_attestations E st current_epoch)) (\<lambda>current_target.
        let active_indices = get_active_validator_indices E st current_epoch;
            total_active_balance = get_total_balance E st active_indices
        in do {
          previous_target_balance \<leftarrow> get_attesting_balance E sha st previous_target;
          current_target_balance \<leftarrow> get_attesting_balance E sha st current_target;
          Some (weigh_justification_and_finalization E total_active_balance
                  previous_target_balance current_target_balance st)
        })))"

section \<open>What one round of justification does\<close>

text \<open>Two thirds of the active balance attested the target of \<open>epoch\<close>.\<close>

definition target_supermajority :: "preset \<Rightarrow> sha256 \<Rightarrow> beacon_state \<Rightarrow> u64 \<Rightarrow> bool" where
  "target_supermajority E sha st epoch \<longleftrightarrow>
     (case get_matching_target_attestations E st epoch of
        Inl _ \<Rightarrow> False
      | Inr atts \<Rightarrow>
          (case get_attesting_balance E sha st atts of
             None \<Rightarrow> False
           | Some balance \<Rightarrow>
               get_total_balance E st (get_active_validator_indices E st (get_current_epoch E st)) * 2
                 \<le> balance * 3))"

definition checkpoints_ordered :: "preset \<Rightarrow> beacon_state \<Rightarrow> bool" where
  "checkpoints_ordered E st \<longleftrightarrow>
     cp_epoch (st_finalized_checkpoint st) \<le> cp_epoch (st_previous_justified_checkpoint st) \<and>
     cp_epoch (st_previous_justified_checkpoint st) \<le> cp_epoch (st_current_justified_checkpoint st) \<and>
     cp_epoch (st_current_justified_checkpoint st) \<le> get_previous_epoch E st"

definition finalized_by_rules ::
  "u64 \<Rightarrow> bool list \<Rightarrow> checkpoint \<Rightarrow> checkpoint \<Rightarrow> checkpoint \<Rightarrow> checkpoint" where
  "finalized_by_rules current_epoch bits old_previous old_current old_finalized =
     (if bits ! 0 \<and> bits ! 1 \<and> cp_epoch old_current + 1 = current_epoch then old_current
      else if bits ! 0 \<and> bits ! 1 \<and> bits ! 2 \<and> cp_epoch old_current + 2 = current_epoch then old_current
      else if bits ! 1 \<and> bits ! 2 \<and> cp_epoch old_previous + 2 = current_epoch then old_previous
      else if bits ! 1 \<and> bits ! 2 \<and> bits ! 3 \<and> cp_epoch old_previous + 3 = current_epoch
        then old_previous
      else old_finalized)"

lemma four_bits:
  assumes "length xs = 4"
  obtains b0 b1 b2 b3 where "xs = [b0, b1, b2, b3]"
  using assms by (auto simp: numeral_eq_Suc length_Suc_conv)

lemma upt_0_4: "[0..<4] = [0, 1, 2, 3]"
  by (simp add: upt_rec)

lemma justification_bits_four:
  "st_justification_bits st = [b0, b1, b2, b3] \<Longrightarrow> justification_bits st = [b0, b1, b2, b3]"
  by (simp add: justification_bits_def upt_0_4 nth_opt_def)

lemma set_justification_bits_four:
  "length (st_justification_bits st) = 4 \<Longrightarrow>
   set_justification_bits [b0, b1, b2, b3] st = st\<lparr>st_justification_bits := [b0, b1, b2, b3]\<rparr>"
  by (elim four_bits) (simp add: set_justification_bits_def upt_0_4 nth_opt_def)

lemma finalization_rules_four:
  assumes "st_justification_bits st = bits" and "length bits = 4"
  shows "finalization_rules e op oc st =
           st\<lparr>st_finalized_checkpoint := finalized_by_rules e bits op oc (st_finalized_checkpoint st)\<rparr>"
proof -
  obtain b0 b1 b2 b3 where bits: "bits = [b0, b1, b2, b3]" by (rule four_bits [OF assms(2)])
  have four: "justification_bits st = [b0, b1, b2, b3]"
    using assms(1) bits by (simp add: justification_bits_four)
  define p2 p3 c1 c2 where "p2 \<longleftrightarrow> cp_epoch op + 2 = e" and "p3 \<longleftrightarrow> cp_epoch op + 3 = e"
    and "c1 \<longleftrightarrow> cp_epoch oc + 1 = e" and "c2 \<longleftrightarrow> cp_epoch oc + 2 = e"
  show ?thesis
    unfolding finalization_rules_def finalized_by_rules_def four bits Let_def
      p2_def [symmetric] p3_def [symmetric] c1_def [symmetric] c2_def [symmetric]
    by (cases b0; cases b1; cases b2; cases b3; simp add: nth_opt_def)
qed

lemma get_block_root_cong:
  "st_slot st' = st_slot st \<Longrightarrow> st_block_roots st' = st_block_roots st \<Longrightarrow>
   get_block_root E st' = get_block_root E st"
  by (simp add: fun_eq_iff get_block_root_def get_block_root_at_slot_def)

text \<open>The new state in closed form; \<open>J1\<close> and \<open>J2\<close> say whether the two epochs were justified.\<close>

lemma weigh_closed_form:
  fixes E st
  defines "p \<equiv> get_previous_epoch E st" and "c \<equiv> get_current_epoch E st"
  assumes w: "weigh_justification_and_finalization E tot prev_bal cur_bal st = Inr st'"
    and bits: "st_justification_bits st = [b0, b1, b2, b3]"
    and J1: "J1 \<longleftrightarrow> tot * 2 \<le> prev_bal * 3" and J2: "J2 \<longleftrightarrow> tot * 2 \<le> cur_bal * 3"
  shows "\<exists>r1 r2. (J1 \<longrightarrow> get_block_root E st p = Inr r1) \<and> (J2 \<longrightarrow> get_block_root E st c = Inr r2) \<and>
    st' = st\<lparr>st_justification_bits := [J2, J1 \<or> b0, b1, b2],
             st_previous_justified_checkpoint := st_current_justified_checkpoint st,
             st_current_justified_checkpoint :=
               (if J2 then \<lparr>cp_epoch = c, cp_root = r2\<rparr>
                else if J1 then \<lparr>cp_epoch = p, cp_root = r1\<rparr> else st_current_justified_checkpoint st),
             st_finalized_checkpoint :=
               finalized_by_rules c [J2, J1 \<or> b0, b1, b2] (st_previous_justified_checkpoint st)
                 (st_current_justified_checkpoint st) (st_finalized_checkpoint st)\<rparr>"
proof -
  have gbr: "get_block_root E (st\<lparr>st_previous_justified_checkpoint := a\<rparr>) = get_block_root E st"
    "get_block_root E (st\<lparr>st_previous_justified_checkpoint := a, st_current_justified_checkpoint := b\<rparr>)
       = get_block_root E st" for a b
    by (rule get_block_root_cong; simp)+
  show ?thesis
    using w bits unfolding weigh_justification_and_finalization_def Let_def J1 [symmetric] J2 [symmetric]
      p_def [symmetric] c_def [symmetric]
    by (cases J1; cases J2)
      (auto simp: bind_result_Inr gbr justification_bits_four set_justification_bits_four nth_opt_def
        finalization_rules_four [OF refl])
qed

lemma previous_epoch_le: "get_previous_epoch E st \<le> get_current_epoch E st"
proof (cases "get_current_epoch E st = 0")
  case False
  then have "unat (get_current_epoch E st - 1) = unat (get_current_epoch E st) - 1"
    by (rule unat_minus_one)
  then show ?thesis using False
    by (simp add: get_previous_epoch_def Let_def GENESIS_EPOCH_def word_le_nat_alt)
qed (simp add: get_previous_epoch_def GENESIS_EPOCH_def)

lemma finalized_by_rules_cases:
  "finalized_by_rules e bits op oc fin \<in> {fin, op, oc}"
  by (simp add: finalized_by_rules_def)

text \<open>One round: nothing in the first two epochs, then the closed form with the two supermajorities.\<close>

lemma process_justificationD:
  fixes E st
  defines "p \<equiv> get_previous_epoch E st" and "c \<equiv> get_current_epoch E st"
  assumes run: "process_justification_and_finalization E sha st = Some (Inr st')"
    and bits: "st_justification_bits st = [b0, b1, b2, b3]"
  obtains "c \<le> 1" "st' = st"
  | r1 r2 J1 J2 where "1 < c" "J1 \<longleftrightarrow> target_supermajority E sha st p"
      "J2 \<longleftrightarrow> target_supermajority E sha st c"
      "J1 \<Longrightarrow> get_block_root E st p = Inr r1" "J2 \<Longrightarrow> get_block_root E st c = Inr r2"
      "st' = st\<lparr>st_justification_bits := [J2, J1 \<or> b0, b1, b2],
             st_previous_justified_checkpoint := st_current_justified_checkpoint st,
             st_current_justified_checkpoint :=
               (if J2 then \<lparr>cp_epoch = c, cp_root = r2\<rparr>
                else if J1 then \<lparr>cp_epoch = p, cp_root = r1\<rparr> else st_current_justified_checkpoint st),
             st_finalized_checkpoint :=
               finalized_by_rules c [J2, J1 \<or> b0, b1, b2] (st_previous_justified_checkpoint st)
                 (st_current_justified_checkpoint st) (st_finalized_checkpoint st)\<rparr>"
proof (cases "c \<le> 1")
  case True
  then show ?thesis using that(1) run
    by (simp add: process_justification_and_finalization_def c_def GENESIS_EPOCH_def)
next
  case False
  from run False obtain pa ca pb cb where t:
      "get_matching_target_attestations E st p = Inr pa" "get_matching_target_attestations E st c = Inr ca"
      "get_attesting_balance E sha st pa = Some pb" "get_attesting_balance E sha st ca = Some cb"
      "weigh_justification_and_finalization E
         (get_total_balance E st (get_active_validator_indices E st c)) pb cb st = Inr st'"
    by (auto simp: process_justification_and_finalization_def p_def c_def GENESIS_EPOCH_def Let_def
        bind_try_Inr Option.bind_eq_Some_conv)
  have J: "target_supermajority E sha st p \<longleftrightarrow>
             get_total_balance E st (get_active_validator_indices E st c) * 2 \<le> pb * 3"
    "target_supermajority E sha st c \<longleftrightarrow>
             get_total_balance E st (get_active_validator_indices E st c) * 2 \<le> cb * 3"
    using t by (simp_all add: target_supermajority_def c_def)
  have "1 < c" using False by simp
  with weigh_closed_form [OF t(5) bits J] that(2) [OF _ refl refl] show ?thesis
    unfolding p_def c_def by blast
qed

lemma process_justification_supermajority:
  fixes E st
  defines "p \<equiv> get_previous_epoch E st" and "c \<equiv> get_current_epoch E st"
  assumes "1 < c" and "target_supermajority E sha st p" and "target_supermajority E sha st c"
    and "get_block_root E st p = Inr r1" and "get_block_root E st c = Inr r2"
  shows "\<exists>st'. process_justification_and_finalization E sha st = Some (Inr st')"
proof -
  have gbr: "get_block_root E (st\<lparr>st_previous_justified_checkpoint := a\<rparr>) = get_block_root E st"
    "get_block_root E (st\<lparr>st_previous_justified_checkpoint := a, st_current_justified_checkpoint := b\<rparr>)
       = get_block_root E st" for a b
    by (rule get_block_root_cong; simp)+
  obtain pa pb where p: "get_matching_target_attestations E st p = Inr pa"
      "get_attesting_balance E sha st pa = Some pb"
      "get_total_balance E st (get_active_validator_indices E st c) * 2 \<le> pb * 3"
    using assms(4) by (auto simp: target_supermajority_def c_def split: sum.splits option.splits)
  obtain ca cb where c: "get_matching_target_attestations E st c = Inr ca"
      "get_attesting_balance E sha st ca = Some cb"
      "get_total_balance E st (get_active_validator_indices E st c) * 2 \<le> cb * 3"
    using assms(5) by (auto simp: target_supermajority_def c_def split: sum.splits option.splits)
  have "\<exists>st'. weigh_justification_and_finalization E
          (get_total_balance E st (get_active_validator_indices E st c)) pb cb st = Inr st'"
    using p(3) c(3) assms(6,7)
    by (simp add: weigh_justification_and_finalization_def p_def c_def Let_def gbr map_err_def)
  then show ?thesis using assms(3) p c
    by (simp add: process_justification_and_finalization_def p_def c_def GENESIS_EPOCH_def not_le Let_def)
qed

lemma justification_evolves:
  assumes "process_justification_and_finalization E sha st = Some (Inr st')"
    and "length (st_justification_bits st) = 4"
  shows "evolves E st st'" and "length (st_justification_bits st') = 4"
proof -
  obtain b0 b1 b2 b3 where b: "st_justification_bits st = [b0, b1, b2, b3]"
    using assms(2) by (rule four_bits)
  from assms(1) b show "evolves E st st'"
    by (cases rule: process_justificationD)
      (simp_all add: evolves_def state_shape_def registry_evolves_refl mixes_kept_refl pending_atts_def)
  from assms(1) b show "length (st_justification_bits st') = 4"
    by (cases rule: process_justificationD) (simp_all add: b)
qed

section \<open>Block roots of the last two epochs\<close>

lemma block_root_at_slot_available:
  assumes "length (st_block_roots st) = unat (SLOTS_PER_HISTORICAL_ROOT E)"
    and "0 < SLOTS_PER_HISTORICAL_ROOT E" and "unat slot < unat (st_slot st)"
    and "unat (st_slot st) \<le> unat slot + unat (SLOTS_PER_HISTORICAL_ROOT E)"
    and "unat (st_slot st) + unat (SLOTS_PER_HISTORICAL_ROOT E) < 2 ^ 64"
  shows "\<exists>r. get_block_root_at_slot E st slot = Inr r"
proof -
  let ?n = "SLOTS_PER_HISTORICAL_ROOT E"
  have "unat slot + unat ?n < 2 ^ 64" using assms(3,5) by linarith
  then have "unat (slot + ?n) = unat slot + unat ?n" by (rule unat_add_u64)
  then have guard: "slot < st_slot st" "st_slot st \<le> slot + ?n"
    using assms(3,4) by (simp_all only: word_less_nat_alt word_le_nat_alt)
  have "slot mod ?n < ?n" using assms(2) by (rule u64_mod_less)
  then have "unat (slot mod ?n) < length (st_block_roots st)"
    using assms(1) by (simp only: word_less_nat_alt)
  then show ?thesis using guard by (simp add: get_block_root_at_slot_def)
qed

lemma epoch_start_unat:
  assumes "unat e * unat spe < 2 ^ 64"
  shows "unat (compute_start_slot_at_epoch e spe) = unat e * unat spe"
  using unat_mult_u64 [OF assms] by (simp only: compute_start_slot_at_epoch_def)

text \<open>
  At any slot but the first of an epoch both the current and the previous epoch have a block root,
  as long as the history holds two epochs.
\<close>

lemma epoch_block_roots_available:
  assumes shape: "state_shape E st" and wf: "wf_preset E"
    and two: "2 * unat (SLOTS_PER_EPOCH E) \<le> unat (SLOTS_PER_HISTORICAL_ROOT E)"
    and mid: "st_slot st mod SLOTS_PER_EPOCH E \<noteq> 0"
    and e: "e = get_current_epoch E st \<or> e = get_previous_epoch E st"
    and bound: "unat (st_slot st) + unat (SLOTS_PER_HISTORICAL_ROOT E) < 2 ^ 64"
  shows "\<exists>r. get_block_root E st e = Inr r"
proof -
  let ?spe = "unat (SLOTS_PER_EPOCH E)" and ?s = "unat (st_slot st)"
  have spe: "0 < ?spe" using wf by (simp add: wf_preset_def word_less_nat_alt)
  have c: "unat (get_current_epoch E st) = ?s div ?spe"
    by (simp add: get_current_epoch_def compute_epoch_at_slot_def unat_div)
  have m: "0 < ?s mod ?spe" using mid by (metis neq0_conv unat_eq_zero unat_mod)
  have dm: "?s div ?spe * ?spe + ?s mod ?spe = ?s" by (rule div_mult_mod_eq)
  have lt: "?s mod ?spe < ?spe" using spe by (rule mod_less_divisor)
  have ue: "unat e * ?spe < ?s \<and> ?s \<le> unat e * ?spe + 2 * ?spe"
  proof (cases "unat e = ?s div ?spe")
    case True
    show ?thesis unfolding True using dm m lt by linarith
  next
    case False
    then have "get_current_epoch E st \<noteq> 0" "e = get_current_epoch E st - 1"
      using e c by (auto simp: get_previous_epoch_def Let_def GENESIS_EPOCH_def split: if_splits)
    then have "?s div ?spe = Suc (unat e)"
      using c unat_minus_one [of "get_current_epoch E st"] unat_eq_zero [of "get_current_epoch E st"]
      by (metis Suc_pred neq0_conv diff_Suc_1 One_nat_def)
    then have "unat e * ?spe + ?spe + ?s mod ?spe = ?s" using dm by (simp only: mult_Suc add.commute)
    then show ?thesis using m lt by linarith
  qed
  then have "unat e * ?spe < 2 ^ 64" using bound by linarith
  note start = epoch_start_unat [OF this]
  show ?thesis unfolding get_block_root_def
    by (rule block_root_at_slot_available)
      (use shape wf ue two bound start in \<open>simp_all only: state_shape_def wf_preset_def\<close>, linarith)
qed

section \<open>What finality needs\<close>

text \<open>
  Bit \<open>i\<close> stands for the epoch \<open>i\<close> before the current one.  A checkpoint \<open>c\<close> of \<open>d\<close> epochs ago may
  become final when every epoch from its own up to the current one (\<open>j = 0\<close>), or up to the previous one
  (\<open>j = 1\<close>), is justified, and at most two epochs lie between \<open>c\<close> and the last of them.
\<close>

definition finality_link :: "u64 \<Rightarrow> bool list \<Rightarrow> checkpoint \<Rightarrow> nat \<Rightarrow> bool" where
  "finality_link current_epoch bits c j \<longleftrightarrow>
     list_ex (\<lambda>d. cp_epoch c + word_of_nat d = current_epoch \<and> list_all (\<lambda>i. bits ! i) [j..<Suc d]) [j + 1, j + 2]"

lemma finalized_by_rules_link:
  "finalized_by_rules e bits op oc fin = fin
   \<or> finalized_by_rules e bits op oc fin = op \<and> finality_link e bits op 1
   \<or> finalized_by_rules e bits op oc fin = oc \<and> finality_link e bits oc 0"
  by (auto simp: finalized_by_rules_def finality_link_def upt_rec numeral_2_eq_2 numeral_3_eq_3)

lemma justification_finality:
  assumes "process_justification_and_finalization E sha st = Some (Inr st')"
    and "length (st_justification_bits st) = 4"
  shows "(get_current_epoch E st \<le> 1 \<and> st' = st
          \<or> st_justification_bits st' =
              [target_supermajority E sha st (get_current_epoch E st),
               target_supermajority E sha st (get_previous_epoch E st) \<or> st_justification_bits st ! 0,
               st_justification_bits st ! 1, st_justification_bits st ! 2])
       \<and> (st_finalized_checkpoint st' = st_finalized_checkpoint st
          \<or> st_finalized_checkpoint st' = st_previous_justified_checkpoint st
            \<and> finality_link (get_current_epoch E st) (st_justification_bits st') (st_previous_justified_checkpoint st) 1
          \<or> st_finalized_checkpoint st' = st_current_justified_checkpoint st
            \<and> finality_link (get_current_epoch E st) (st_justification_bits st') (st_current_justified_checkpoint st) 0)"
proof -
  obtain b0 b1 b2 b3 where b: "st_justification_bits st = [b0, b1, b2, b3]"
    using assms(2) by (rule four_bits)
  from assms(1) b show ?thesis
  proof (cases rule: process_justificationD)
    case (2 r1 r2 J1 J2)
    then show ?thesis
      using finalized_by_rules_link [of "get_current_epoch E st" "[J2, J1 \<or> b0, b1, b2]"
          "st_previous_justified_checkpoint st" "st_current_justified_checkpoint st" "st_finalized_checkpoint st"] b
      by simp
  qed simp
qed

section \<open>Properties\<close>

lemma justification_orders:
  assumes "process_justification_and_finalization E sha st = Some (Inr st')"
    and "length (st_justification_bits st) = 4" and "checkpoints_ordered E st"
  shows "cp_epoch (st_finalized_checkpoint st) \<le> cp_epoch (st_finalized_checkpoint st')
    \<and> cp_epoch (st_current_justified_checkpoint st) \<le> cp_epoch (st_current_justified_checkpoint st')
    \<and> cp_epoch (st_finalized_checkpoint st') \<le> cp_epoch (st_previous_justified_checkpoint st')
    \<and> cp_epoch (st_previous_justified_checkpoint st') \<le> cp_epoch (st_current_justified_checkpoint st')
    \<and> cp_epoch (st_current_justified_checkpoint st') \<le> get_current_epoch E st
    \<and> st_finalized_checkpoint st' \<in> {st_finalized_checkpoint st, st_previous_justified_checkpoint st,
                                        st_current_justified_checkpoint st}
    \<and> (st_current_justified_checkpoint st' = st_current_justified_checkpoint st \<or>
       (\<exists>e \<in> {get_previous_epoch E st, get_current_epoch E st}. \<exists>r.
          target_supermajority E sha st e \<and> get_block_root E st e = Inr r \<and>
          st_current_justified_checkpoint st' = \<lparr>cp_epoch = e, cp_root = r\<rparr>))"
proof -
  note le = previous_epoch_le [of E st]
  obtain b0 b1 b2 b3 where "st_justification_bits st = [b0, b1, b2, b3]"
    using assms(2) by (rule four_bits)
  with assms(1) show ?thesis
  proof (cases rule: process_justificationD)
    case 1
    then show ?thesis using assms(3) le by (auto simp: checkpoints_ordered_def)
  next
    case (2 r1 r2 J1 J2)
    have fin: "st_finalized_checkpoint st' \<in> {st_finalized_checkpoint st,
        st_previous_justified_checkpoint st, st_current_justified_checkpoint st}"
      using 2(6) finalized_by_rules_cases by simp
    have "cp_epoch (st_current_justified_checkpoint st) \<le> cp_epoch (st_current_justified_checkpoint st')
          \<and> cp_epoch (st_current_justified_checkpoint st') \<le> get_current_epoch E st"
      using 2(6) assms(3) le by (auto simp: checkpoints_ordered_def)
    moreover have "st_previous_justified_checkpoint st' = st_current_justified_checkpoint st"
      using 2(6) by simp
    moreover have "st_current_justified_checkpoint st' = st_current_justified_checkpoint st \<or>
       (\<exists>e \<in> {get_previous_epoch E st, get_current_epoch E st}. \<exists>r.
          target_supermajority E sha st e \<and> get_block_root E st e = Inr r \<and>
          st_current_justified_checkpoint st' = \<lparr>cp_epoch = e, cp_root = r\<rparr>)"
      using 2(2-6) by simp
    moreover have "cp_epoch (st_finalized_checkpoint st) \<le> cp_epoch (st_finalized_checkpoint st')
          \<and> cp_epoch (st_finalized_checkpoint st') \<le> cp_epoch (st_current_justified_checkpoint st)"
      using fin assms(3) by (auto simp: checkpoints_ordered_def)
    ultimately show ?thesis using fin by simp
  qed
qed

text \<open>C9: one round of justification keeps the finalized, previous justified and current justified
  epochs ordered and moves none of them back, and it advances them only on supermajorities.  The
  current justified checkpoint changes only to the root of an epoch that two thirds of the active balance
  attested.  After the first two epochs the bits of the round are exactly: the current epoch has a
  supermajority; the previous one has one, or had one before; the two older bits, shifted.  The finalized
  checkpoint changes only to a checkpoint that was justified before the round and from which on every
  epoch is justified in these bits, up to the current epoch for the current justified checkpoint and up to
  the previous epoch for the previous justified one.\<close>

theorem justification_only_advances:
  assumes "process_justification_and_finalization E sha st = Some (Inr st')"
    and "length (st_justification_bits st) = 4" and "checkpoints_ordered E st"
  shows "cp_epoch (st_finalized_checkpoint st) \<le> cp_epoch (st_finalized_checkpoint st')
    \<and> cp_epoch (st_current_justified_checkpoint st) \<le> cp_epoch (st_current_justified_checkpoint st')
    \<and> cp_epoch (st_finalized_checkpoint st') \<le> cp_epoch (st_previous_justified_checkpoint st')
    \<and> cp_epoch (st_previous_justified_checkpoint st') \<le> cp_epoch (st_current_justified_checkpoint st')
    \<and> cp_epoch (st_current_justified_checkpoint st') \<le> get_current_epoch E st
    \<and> (st_current_justified_checkpoint st' = st_current_justified_checkpoint st \<or>
       (\<exists>e \<in> {get_previous_epoch E st, get_current_epoch E st}. \<exists>r.
          target_supermajority E sha st e \<and> get_block_root E st e = Inr r \<and>
          st_current_justified_checkpoint st' = \<lparr>cp_epoch = e, cp_root = r\<rparr>))
    \<and> (get_current_epoch E st \<le> 1 \<and> st' = st
       \<or> st_justification_bits st' =
           [target_supermajority E sha st (get_current_epoch E st),
            target_supermajority E sha st (get_previous_epoch E st) \<or> st_justification_bits st ! 0,
            st_justification_bits st ! 1, st_justification_bits st ! 2])
    \<and> (st_finalized_checkpoint st' = st_finalized_checkpoint st
       \<or> st_finalized_checkpoint st' = st_previous_justified_checkpoint st
         \<and> finality_link (get_current_epoch E st) (st_justification_bits st') (st_previous_justified_checkpoint st) 1
       \<or> st_finalized_checkpoint st' = st_current_justified_checkpoint st
         \<and> finality_link (get_current_epoch E st) (st_justification_bits st') (st_current_justified_checkpoint st) 0)"
  using justification_orders [OF assms] justification_finality [OF assms(1,2)] by blast

text \<open>A state of the minimal preset at the last slot of epoch 2, whose one validator attested both
  epochs and whose current justified checkpoint is epoch 1.\<close>

definition sample_pending :: "u64 \<Rightarrow> u64 \<Rightarrow> pending_attestation" where
  "sample_pending slot epoch = \<lparr>
     pa_aggregation_bits = [True],
     pa_data = \<lparr>ad_slot = slot, ad_index = 0, ad_beacon_block_root = 0,
       ad_source = \<lparr>cp_epoch = 1, cp_root = 0\<rparr>, ad_target = \<lparr>cp_epoch = epoch, cp_root = 0\<rparr>\<rparr>,
     pa_inclusion_delay = 1, pa_proposer_index = 0\<rparr>"

definition justifying_state :: beacon_state where
  "justifying_state = (sample_state 23 [sample_validator])\<lparr>
     st_current_justified_checkpoint := \<lparr>cp_epoch = 1, cp_root = 7\<rparr>,
     st_previous_epoch_attestations := [sample_pending 15 1],
     st_current_epoch_attestations := [sample_pending 23 2]\<rparr>"

theorem justification_only_advances_witness:
  "\<exists>st'. process_justification_and_finalization minimal_preset (\<lambda>_. 0) justifying_state = Some (Inr st')
       \<and> st_finalized_checkpoint st' = \<lparr>cp_epoch = 1, cp_root = 7\<rparr>
       \<and> st_justification_bits st' = [True, True, False, False]
       \<and> finality_link 2 (st_justification_bits st') \<lparr>cp_epoch = 1, cp_root = 7\<rparr> 0"
proof -
  have "case process_justification_and_finalization minimal_preset (\<lambda>_. 0) justifying_state of
          Some (Inr st') \<Rightarrow> st_finalized_checkpoint st' = \<lparr>cp_epoch = 1, cp_root = 7\<rparr> | _ \<Rightarrow> False"
    by code_simp
  then obtain st' where
      st': "process_justification_and_finalization minimal_preset (\<lambda>_. 0) justifying_state = Some (Inr st')"
      "st_finalized_checkpoint st' = \<lparr>cp_epoch = 1, cp_root = 7\<rparr>"
    by (auto split: option.splits sum.splits)
  have pre: "length (st_justification_bits justifying_state) = 4"
    "checkpoints_ordered minimal_preset justifying_state" by code_simp+
  have vals: "get_current_epoch minimal_preset justifying_state = 2"
    "get_previous_epoch minimal_preset justifying_state = 1"
    "target_supermajority minimal_preset (\<lambda>_. 0) justifying_state 1"
    "target_supermajority minimal_preset (\<lambda>_. 0) justifying_state 2"
    "st_justification_bits justifying_state = [False, False, False, False]"
    "st_current_justified_checkpoint justifying_state = \<lparr>cp_epoch = 1, cp_root = 7\<rparr>"
    "st_previous_justified_checkpoint justifying_state = \<lparr>cp_epoch = 0, cp_root = 0\<rparr>"
    "st_finalized_checkpoint justifying_state = \<lparr>cp_epoch = 0, cp_root = 0\<rparr>" by code_simp+
  have "\<not> (2 :: u64) \<le> 1" by code_simp
  with justification_only_advances [OF st'(1) pre] st' show ?thesis by (auto simp: vals)
qed

text \<open>C11: finality makes progress.  When two thirds of the active balance attest the targets of the
  previous and of the current epoch, and the previous epoch is the one justified so far, the round
  returns and finalizes that checkpoint, and the current epoch becomes the justified one.\<close>

theorem two_supermajorities_finalize:
  assumes "state_shape E st" and "wf_preset E"
    and "2 * unat (SLOTS_PER_EPOCH E) \<le> unat (SLOTS_PER_HISTORICAL_ROOT E)"
    and "st_slot st mod SLOTS_PER_EPOCH E \<noteq> 0"
    and "unat (st_slot st) + unat (SLOTS_PER_HISTORICAL_ROOT E) < 2 ^ 64"
    and "1 < get_current_epoch E st"
    and "target_supermajority E sha st (get_previous_epoch E st)"
    and "target_supermajority E sha st (get_current_epoch E st)"
    and "cp_epoch (st_current_justified_checkpoint st) + 1 = get_current_epoch E st"
  shows "\<exists>st' r. process_justification_and_finalization E sha st = Some (Inr st')
           \<and> st_finalized_checkpoint st' = st_current_justified_checkpoint st
           \<and> get_block_root E st (get_current_epoch E st) = Inr r
           \<and> st_current_justified_checkpoint st' = \<lparr>cp_epoch = get_current_epoch E st, cp_root = r\<rparr>"
proof -
  note avail = epoch_block_roots_available [OF assms(1-4) _ assms(5)]
  obtain rp where rp: "get_block_root E st (get_previous_epoch E st) = Inr rp" using avail by blast
  obtain rc where rc: "get_block_root E st (get_current_epoch E st) = Inr rc" using avail by blast
  obtain st' where run: "process_justification_and_finalization E sha st = Some (Inr st')"
    using process_justification_supermajority [OF assms(6-8) rp rc] by blast
  have "length (st_justification_bits st) = 4" using assms(1) by (simp add: state_shape_def)
  then obtain b0 b1 b2 b3 where b: "st_justification_bits st = [b0, b1, b2, b3]" by (rule four_bits)
  from run b show ?thesis
  proof (cases rule: process_justificationD)
    case 1
    then show ?thesis using assms(6) by simp
  next
    case (2 r1 r2 J1 J2)
    then have "J1" "J2" "r2 = rc" using assms(7,8) rc by simp_all
    with 2(6) assms(9) rc run show ?thesis by (simp add: finalized_by_rules_def)
  qed
qed

theorem two_supermajorities_finalize_witness:
  "\<exists>st'. process_justification_and_finalization minimal_preset (\<lambda>_. 0) justifying_state = Some (Inr st')
       \<and> st_finalized_checkpoint st' = \<lparr>cp_epoch = 1, cp_root = 7\<rparr>"
proof -
  have ep: "get_current_epoch minimal_preset justifying_state = 2"
    "get_previous_epoch minimal_preset justifying_state = 1" by code_simp+
  have "target_supermajority minimal_preset (\<lambda>_. 0) justifying_state 1"
    "target_supermajority minimal_preset (\<lambda>_. 0) justifying_state 2" by code_simp+
  moreover have "state_shape minimal_preset justifying_state"
    by (simp add: state_shape_def justifying_state_def sample_state_def minimal_preset_def sample_pending_def)
  moreover have "2 * unat (SLOTS_PER_EPOCH minimal_preset) \<le> unat (SLOTS_PER_HISTORICAL_ROOT minimal_preset)"
    "st_slot justifying_state mod SLOTS_PER_EPOCH minimal_preset \<noteq> 0"
    "unat (st_slot justifying_state) + unat (SLOTS_PER_HISTORICAL_ROOT minimal_preset) < 2 ^ 64"
    "st_current_justified_checkpoint justifying_state = \<lparr>cp_epoch = 1, cp_root = 7\<rparr>"
    by (simp_all add: justifying_state_def sample_state_def minimal_preset_def)
  ultimately show ?thesis
    using two_supermajorities_finalize [of minimal_preset justifying_state "\<lambda>_. 0"] by (auto simp: ep)
qed

end
