(* ===== verification/Phase0_Rewards.thy ===== *)
theory Phase0_Rewards
  imports Phase0_Justification
begin

text \<open>
  Rewards and penalties of phase 0
  (\<^verbatim>\<open>src/crates/pharos-stf/src/phase0/epoch/rewards_and_penalties.rs\<close>).

  The delta functions return one reward and one penalty per validator.  Their divisors (the square
  root of the active balance, the active balance in increments) are positive because the active
  balance is at least one increment.  The parallel map over validators is a plain map.

  The lemmas give each loop a closed form per validator, and show that the balance pass stays in
  the frame of the mutators.
\<close>

section \<open>Helpers\<close>

definition get_finality_delay :: "preset \<Rightarrow> beacon_state \<Rightarrow> u64" where
  "get_finality_delay E st =
     saturating_sub (get_previous_epoch E st) (cp_epoch (st_finalized_checkpoint st))"

definition is_in_inactivity_leak :: "preset \<Rightarrow> beacon_state \<Rightarrow> bool" where
  "is_in_inactivity_leak E st \<longleftrightarrow> MIN_EPOCHS_TO_INACTIVITY_PENALTY E < get_finality_delay E st"

definition get_eligible_validator_indices :: "preset \<Rightarrow> beacon_state \<Rightarrow> u64 list" where
  "get_eligible_validator_indices E st =
     (let previous_epoch = get_previous_epoch E st
      in map (\<lambda>(i, v). word_of_nat i)
           (filter (\<lambda>(i, v). is_active_validator v previous_epoch
                            \<or> v_slashed v \<and> previous_epoch + 1 < v_withdrawable_epoch v)
              (enumerate 0 (st_validators st))))"

text \<open>The closure \<^verbatim>\<open>base_reward\<close>, with the hoisted square root of the active balance.\<close>

definition base_reward :: "preset \<Rightarrow> beacon_state \<Rightarrow> u64 \<Rightarrow> u64 \<Rightarrow> u64" where
  "base_reward E st sqrt_total_balance index =
     (let effective_balance =
            unwrap_or (map_option v_effective_balance (nth_opt (st_validators st) (unat index))) 0
      in effective_balance * BASE_REWARD_FACTOR E div sqrt_total_balance div BASE_REWARDS_PER_EPOCH E)"

text \<open>\<^verbatim>\<open>xs[i] += d\<close>; every index the code writes is in range.\<close>

definition add_at :: "u64 list \<Rightarrow> nat \<Rightarrow> u64 \<Rightarrow> u64 list" where
  "add_at xs i d = xs[i := xs ! i + d]"

text \<open>\<^verbatim>\<open>Iterator::min_by_key\<close>: the first of the minimal elements.\<close>

fun min_by_key :: "('a \<Rightarrow> u64) \<Rightarrow> 'a list \<Rightarrow> 'a option" where
  "min_by_key f [] = None"
| "min_by_key f (x # xs) =
     (case min_by_key f xs of None \<Rightarrow> Some x | Some y \<Rightarrow> Some (if f x \<le> f y then x else y))"

section \<open>Deltas\<close>

definition component_step ::
  "preset \<Rightarrow> beacon_state \<Rightarrow> u64 list \<Rightarrow> u64 \<Rightarrow> u64 \<Rightarrow> u64 \<Rightarrow> u64 list \<times> u64 list \<Rightarrow> u64 list \<times> u64 list"
where
  "component_step E st unslashed total_balance attesting_balance index = (\<lambda>(rewards, penalties).
     (let increment = EFFECTIVE_BALANCE_INCREMENT E;
          i = unat index;
          base = base_reward E st (integer_squareroot total_balance) index
      in if index \<in> set unslashed
         then (if is_in_inactivity_leak E st then (add_at rewards i base, penalties)
               else let reward_numerator = base * (attesting_balance div increment)
                    in (add_at rewards i (reward_numerator div (total_balance div increment)), penalties))
         else (rewards, add_at penalties i base)))"

definition get_attestation_component_deltas ::
  "preset \<Rightarrow> sha256 \<Rightarrow> beacon_state \<Rightarrow> pending_attestation list \<Rightarrow> (u64 list \<times> u64 list) option" where
  "get_attestation_component_deltas E sha st attestations =
     (let n = length (st_validators st);
          total_balance = get_total_active_balance E st
      in do {
        unslashed \<leftarrow> get_unslashed_attesting_indices E sha st attestations;
        let attesting_balance = get_total_balance E st unslashed;
        Some (fold (component_step E st unslashed total_balance attesting_balance)
                (get_eligible_validator_indices E st) (replicate n 0, replicate n 0))
      })"

definition build_deltas ::
  "u64 list \<Rightarrow> u64 list \<Rightarrow> (epoch_processing_error, u64 list \<times> u64 list) result" where
  "build_deltas rewards penalties =
     (if length rewards \<le> unat (1099511627776 :: u64)
      then (if length penalties \<le> unat (1099511627776 :: u64)
            then Inr (rewards, penalties) else Inl EpochSsz)
      else Inl EpochSsz)"

definition component_deltas_of ::
  "preset \<Rightarrow> sha256 \<Rightarrow> beacon_state \<Rightarrow> (epoch_processing_error, pending_attestation list) result \<Rightarrow>
   (epoch_processing_error, u64 list \<times> u64 list) result option" where
  "component_deltas_of E sha st matching =
     bind_try (Some matching) (\<lambda>atts.
       do {
         (rewards, penalties) \<leftarrow> get_attestation_component_deltas E sha st atts;
         Some (build_deltas rewards penalties)
       })"

definition get_source_deltas ::
  "preset \<Rightarrow> sha256 \<Rightarrow> beacon_state \<Rightarrow> (epoch_processing_error, u64 list \<times> u64 list) result option" where
  "get_source_deltas E sha st =
     component_deltas_of E sha st (get_matching_source_attestations E st (get_previous_epoch E st))"

definition get_target_deltas ::
  "preset \<Rightarrow> sha256 \<Rightarrow> beacon_state \<Rightarrow> (epoch_processing_error, u64 list \<times> u64 list) result option" where
  "get_target_deltas E sha st =
     component_deltas_of E sha st (get_matching_target_attestations E st (get_previous_epoch E st))"

definition get_head_deltas ::
  "preset \<Rightarrow> sha256 \<Rightarrow> beacon_state \<Rightarrow> (epoch_processing_error, u64 list \<times> u64 list) result option" where
  "get_head_deltas E sha st =
     component_deltas_of E sha st (get_matching_head_attestations E st (get_previous_epoch E st))"

definition inclusion_step ::
  "preset \<Rightarrow> sha256 \<Rightarrow> beacon_state \<Rightarrow> pending_attestation list \<Rightarrow> u64 \<Rightarrow> u64 \<Rightarrow> u64 list \<Rightarrow> u64 list option"
where
  "inclusion_step E sha st matching_source sqrt_total_balance index rewards =
     do {
       mine \<leftarrow> filterM (\<lambda>a. map_option (\<lambda>ixs. index \<in> set ixs)
                 (get_attesting_indices E sha st (pa_data a) (pa_aggregation_bits a))) matching_source;
       Some (case min_by_key pa_inclusion_delay mine of
               None \<Rightarrow> rewards
             | Some att \<Rightarrow>
                 let n = length (st_validators st);
                     base = base_reward E st sqrt_total_balance index;
                     proposer_reward = base div PROPOSER_REWARD_QUOTIENT E;
                     proposer_i = unat (pa_proposer_index att);
                     rewards = (if proposer_i < n then add_at rewards proposer_i proposer_reward else rewards);
                     max_attester_reward = saturating_sub base proposer_reward;
                     delay = max (pa_inclusion_delay att) 1;
                     i = unat index
                 in if i < n then add_at rewards i (max_attester_reward div delay) else rewards)
     }"

definition get_inclusion_delay_deltas ::
  "preset \<Rightarrow> sha256 \<Rightarrow> beacon_state \<Rightarrow> (epoch_processing_error, u64 list \<times> u64 list) result option" where
  "get_inclusion_delay_deltas E sha st =
     (let n = length (st_validators st);
          prev_epoch = get_previous_epoch E st
      in bind_try (Some (get_matching_source_attestations E st prev_epoch)) (\<lambda>matching_source.
           do {
             unslashed \<leftarrow> get_unslashed_attesting_indices E sha st matching_source;
             let sqrt_total_balance = integer_squareroot (get_total_active_balance E st);
             rewards \<leftarrow> foldM (inclusion_step E sha st matching_source sqrt_total_balance)
                          unslashed (replicate n 0);
             Some (build_deltas rewards (replicate n 0))
           }))"

definition inactivity_step ::
  "preset \<Rightarrow> beacon_state \<Rightarrow> u64 list \<Rightarrow> u64 \<Rightarrow> u64 \<Rightarrow> u64 \<Rightarrow> u64 list \<Rightarrow> u64 list" where
  "inactivity_step E st target_attesting finality_delay sqrt_total_balance index penalties =
     (let i = unat index;
          base = base_reward E st sqrt_total_balance index;
          proposer_reward = base div PROPOSER_REWARD_QUOTIENT E;
          penalties = add_at penalties i (BASE_REWARDS_PER_EPOCH E * base - proposer_reward)
      in if index \<notin> set target_attesting
         then let effective_balance =
                    unwrap_or (map_option v_effective_balance (nth_opt (st_validators st) i)) 0
              in add_at penalties i (effective_balance * finality_delay div INACTIVITY_PENALTY_QUOTIENT E)
         else penalties)"

definition get_inactivity_penalty_deltas ::
  "preset \<Rightarrow> sha256 \<Rightarrow> beacon_state \<Rightarrow> (epoch_processing_error, u64 list \<times> u64 list) result option" where
  "get_inactivity_penalty_deltas E sha st =
     (let n = length (st_validators st) in
      if is_in_inactivity_leak E st
      then bind_try (Some (get_matching_target_attestations E st (get_previous_epoch E st)))
             (\<lambda>matching_target. do {
                target_attesting \<leftarrow> get_unslashed_attesting_indices E sha st matching_target;
                let finality_delay = get_finality_delay E st;
                let sqrt_total_balance = integer_squareroot (get_total_active_balance E st);
                Some (build_deltas (replicate n 0)
                        (fold (inactivity_step E st target_attesting finality_delay sqrt_total_balance)
                           (get_eligible_validator_indices E st) (replicate n 0)))
              })
      else Some (build_deltas (replicate n 0) (replicate n 0)))"

definition get_attestation_deltas ::
  "preset \<Rightarrow> sha256 \<Rightarrow> beacon_state \<Rightarrow> (epoch_processing_error, u64 list \<times> u64 list) result option" where
  "get_attestation_deltas E sha st =
     (let n = length (st_validators st) in
      bind_try (get_source_deltas E sha st) (\<lambda>source.
      bind_try (get_target_deltas E sha st) (\<lambda>target.
      bind_try (get_head_deltas E sha st) (\<lambda>head.
      bind_try (get_inclusion_delay_deltas E sha st) (\<lambda>inclusion.
      bind_try (get_inactivity_penalty_deltas E sha st) (\<lambda>inactivity.
      let at = (\<lambda>xs i. unwrap_or (nth_opt xs i) 0)
      in Some (Inr (map (\<lambda>i. at (fst source) i + at (fst target) i + at (fst head) i + at (fst inclusion) i)
                      [0..<n],
                    map (\<lambda>i. at (snd source) i + at (snd target) i + at (snd head) i + at (snd inactivity) i)
                      [0..<n]))))))))"

section \<open>Applying them\<close>

definition process_rewards_and_penalties ::
  "preset \<Rightarrow> sha256 \<Rightarrow> beacon_state \<Rightarrow> (epoch_processing_error, beacon_state) result option" where
  "process_rewards_and_penalties E sha st =
     (if get_current_epoch E st = GENESIS_EPOCH then Some (Inr st)
      else bind_try (get_attestation_deltas E sha st) (\<lambda>(rewards, penalties).
             let n = length (st_validators st)
             in Some (foldE (\<lambda>i st.
                  bind_result (map_err epoch_error_of (increase_balance (word_of_nat i) (rewards ! i) st)) (\<lambda>st.
                  map_err epoch_error_of (decrease_balance (word_of_nat i) (penalties ! i) st)))
                [0..<n] st)))"

section \<open>The balance pass\<close>

lemma process_rewards_frame:
  assumes "process_rewards_and_penalties E sha st = Some (Inr st')"
  shows "frame E st st'"
proof (cases "get_current_epoch E st = GENESIS_EPOCH")
  case True
  then show ?thesis using assms by (simp add: process_rewards_and_penalties_def fra.refl)
next
  case False
  then obtain rewards penalties where
    "foldE (\<lambda>i st. bind_result (map_err epoch_error_of (increase_balance (word_of_nat i) (rewards ! i) st))
       (\<lambda>st. map_err epoch_error_of (decrease_balance (word_of_nat i) (penalties ! i) st)))
     [0..<length (st_validators st)] st = Inr st'"
    using assms by (auto simp: process_rewards_and_penalties_def bind_try_Inr Let_def)
  then show ?thesis
    by (rule fra.foldE_step) (auto elim!: fra.bind_step intro: increase_balance_frame decrease_balance_frame)
qed

lemma add_at_0 [simp]: "add_at xs i 0 = xs"
  by (simp add: add_at_def)

lemma length_add_at [simp]: "length (add_at xs i d) = length xs"
  by (simp add: add_at_def)

lemma nth_add_at: "i < length xs \<Longrightarrow> add_at xs j d ! i = xs ! i + (if i = j then d else 0)"
  by (simp add: add_at_def nth_list_update)

text \<open>A loop that adds one amount at each of a list of distinct positions.\<close>

lemma fold_add_at:
  assumes "distinct ixs"
  shows "length (fold (\<lambda>ix xs. add_at xs (unat ix) (f ix)) ixs xs) = length xs"
    and "i < length xs \<Longrightarrow> i < 2 ^ 64 \<Longrightarrow>
           fold (\<lambda>ix xs. add_at xs (unat ix) (f ix)) ixs xs ! i
             = xs ! i + (if word_of_nat i \<in> set ixs then f (word_of_nat i :: u64) else 0)"
  using assms
proof (induction ixs arbitrary: xs)
  case (Cons ix ixs)
  { case 1
    then show ?case using Cons.IH(1) by simp
  next
    case 2
    have eq: "i = unat ix \<longleftrightarrow> word_of_nat i = ix"
      using word_of_nat_length_unat [OF 2(2)] by auto
    show ?case
      using Cons.IH(2) [of "add_at xs (unat ix) (f ix)"] 2 eq by (auto simp: nth_add_at)
  }
qed simp_all

lemma fold_pair:
  "fold (\<lambda>x (a, b). (f x a, g x b)) xs (a, b) = (fold f xs a, fold g xs b)"
  by (induction xs arbitrary: a b) auto

lemma eligible_filter:
  "get_eligible_validator_indices E st =
     map word_of_nat (filter (\<lambda>i. is_active_validator (st_validators st ! i) (get_previous_epoch E st)
                          \<or> v_slashed (st_validators st ! i)
                            \<and> get_previous_epoch E st + 1 < v_withdrawable_epoch (st_validators st ! i))
        [0..<length (st_validators st)])"
  unfolding get_eligible_validator_indices_def Let_def
  by (rule enumerate_filter_map)

section \<open>The deltas per validator\<close>

text \<open>The specification of one attestation component: what validator \<open>i\<close> is due.\<close>

definition eligible :: "preset \<Rightarrow> beacon_state \<Rightarrow> nat \<Rightarrow> bool" where
  "eligible E st i \<longleftrightarrow>
     is_active_validator (st_validators st ! i) (get_previous_epoch E st) \<or>
     v_slashed (st_validators st ! i) \<and>
       get_previous_epoch E st + 1 < v_withdrawable_epoch (st_validators st ! i)"

definition component_reward :: "preset \<Rightarrow> beacon_state \<Rightarrow> u64 \<Rightarrow> u64 \<Rightarrow> u64" where
  "component_reward E st attesting_balance index =
     (let total = get_total_active_balance E st;
          increment = EFFECTIVE_BALANCE_INCREMENT E;
          base = base_reward E st (integer_squareroot total) index
      in if is_in_inactivity_leak E st then base
         else base * (attesting_balance div increment) div (total div increment))"

lemma component_step_split:
  "component_step E st unslashed (get_total_active_balance E st) attesting_balance =
     (\<lambda>index (rewards, penalties).
        (add_at rewards (unat index)
           (if index \<in> set unslashed then component_reward E st attesting_balance index else 0),
         add_at penalties (unat index)
           (if index \<in> set unslashed then 0
            else base_reward E st (integer_squareroot (get_total_active_balance E st)) index)))"
  by (simp add: fun_eq_iff component_step_def component_reward_def Let_def)

lemma eligible_indices_distinct:
  "length (st_validators st) \<le> 2 ^ 64 \<Longrightarrow> distinct (get_eligible_validator_indices E st)"
  unfolding eligible_filter distinct_map
  by (auto simp: inj_on_def dest!: arg_cong [where f = unat] simp: word_of_nat_length_unat)

lemma eligible_indices_iff:
  assumes "i < length (st_validators st)" and "length (st_validators st) \<le> 2 ^ 64"
  shows "word_of_nat i \<in> set (get_eligible_validator_indices E st) \<longleftrightarrow> eligible E st i"
proof -
  have "(word_of_nat i :: u64) = word_of_nat j \<longleftrightarrow> i = j" if "j < length (st_validators st)" for j
    using assms that by (metis less_le_trans word_of_nat_length_unat)
  then show ?thesis using assms(1) by (auto simp: eligible_filter eligible_def)
qed

text \<open>C36: the loop over the eligible validators with its hoisted square root gives every validator
  what the per-validator rule says: an eligible attester earns the component reward and loses
  nothing, an eligible validator that did not attest loses its base reward, nobody else is touched.\<close>

theorem component_deltas_per_validator:
  assumes "get_attestation_component_deltas E sha st attestations = Some (rewards, penalties)"
    and "length (st_validators st) \<le> 2 ^ 63"
  shows "\<exists>unslashed. get_unslashed_attesting_indices E sha st attestations = Some unslashed
    \<and> length rewards = length (st_validators st) \<and> length penalties = length (st_validators st)
    \<and> (\<forall>i<length (st_validators st).
         rewards ! i = (if eligible E st i \<and> word_of_nat i \<in> set unslashed
                        then component_reward E st (get_total_balance E st unslashed) (word_of_nat i) else 0)
       \<and> penalties ! i = (if eligible E st i \<and> word_of_nat i \<notin> set unslashed
                          then base_reward E st (integer_squareroot (get_total_active_balance E st))
                                 (word_of_nat i) else 0))"
proof -
  let ?n = "length (st_validators st)" and ?ixs = "get_eligible_validator_indices E st"
  obtain us where us: "get_unslashed_attesting_indices E sha st attestations = Some us"
    and fold: "fold (component_step E st us (get_total_active_balance E st) (get_total_balance E st us)) ?ixs
                 (replicate ?n 0, replicate ?n 0) = (rewards, penalties)"
    using assms(1) by (auto simp: get_attestation_component_deltas_def Let_def Option.bind_eq_Some_conv)
  define f where "f = (\<lambda>ix. if ix \<in> set us then component_reward E st (get_total_balance E st us) ix else 0)"
  define g where "g = (\<lambda>ix. if ix \<in> set us then 0
                     else base_reward E st (integer_squareroot (get_total_active_balance E st)) ix)"
  have rw: "rewards = fold (\<lambda>ix xs. add_at xs (unat ix) (f ix)) ?ixs (replicate ?n 0)"
    and pn: "penalties = fold (\<lambda>ix xs. add_at xs (unat ix) (g ix)) ?ixs (replicate ?n 0)"
    using fold unfolding component_step_split f_def g_def
    by (simp_all add: fold_pair [where f = "\<lambda>ix xs. add_at xs (unat ix) (f' ix)"
          and g = "\<lambda>ix xs. add_at xs (unat ix) (g' ix)" for f' g'])
  have n: "?n \<le> 2 ^ 64" using assms(2) by simp
  note d = eligible_indices_distinct [OF n, of E]
  have at: "rewards ! i = (if eligible E st i then f (word_of_nat i) else 0)
          \<and> penalties ! i = (if eligible E st i then g (word_of_nat i) else 0)" if i: "i < ?n" for i
  proof -
    have "i < 2 ^ 64" using i n by linarith
    then show ?thesis
      using fold_add_at(2) [OF d, of i "replicate ?n 0"] i eligible_indices_iff [OF i n, of E]
      by (simp add: rw pn)
  qed
  have "length rewards = ?n" "length penalties = ?n"
    using fold_add_at(1) [OF d] by (simp_all add: rw pn)
  then show ?thesis using us at by (auto simp: f_def g_def)
qed

theorem component_deltas_per_validator_witness:
  "\<exists>rewards penalties. get_attestation_component_deltas minimal_preset (\<lambda>_. 0) justifying_state
       [sample_pending 15 1] = Some (rewards, penalties) \<and> 0 < rewards ! 0 \<and> penalties ! 0 = 0"
proof -
  have "case get_attestation_component_deltas minimal_preset (\<lambda>_. 0) justifying_state [sample_pending 15 1]
          of None \<Rightarrow> False | Some (rewards, penalties) \<Rightarrow> 0 < rewards ! 0"
    "get_unslashed_attesting_indices minimal_preset (\<lambda>_. 0) justifying_state [sample_pending 15 1] = Some [0]"
    by code_simp+
  then obtain rewards penalties where
    "get_attestation_component_deltas minimal_preset (\<lambda>_. 0) justifying_state [sample_pending 15 1]
       = Some (rewards, penalties)" "0 < rewards ! 0"
    by (auto split: option.splits)
  moreover have "length (st_validators justifying_state) = 1"
    by (simp add: justifying_state_def sample_state_def)
  ultimately show ?thesis
    using component_deltas_per_validator [of minimal_preset "\<lambda>_. 0" justifying_state "[sample_pending 15 1]"]
      \<open>get_unslashed_attesting_indices minimal_preset (\<lambda>_. 0) justifying_state [sample_pending 15 1] = Some [0]\<close>
    by auto
qed

end
