(* ===== verification/Phase0_Epoch.thy ===== *)
theory Phase0_Epoch
  imports Phase0_Rewards Ssz_Tree "HOL-Library.Product_Lexorder"
begin

text \<open>
  Epoch processing of phase 0 (\<^verbatim>\<open>src/crates/pharos-stf/src/phase0/epoch\<close>): registry updates,
  slashings, the six final updates and \<^verbatim>\<open>process_epoch\<close>, which runs all ten sub-routines.

  The lemmas: every sub-routine but justification stays in the frame of the mutators, so an epoch
  keeps the shape of the state and lets the registry only evolve; \<^verbatim>\<open>process_epoch\<close> panics only
  where a committee computation does.
\<close>

section \<open>Registry updates\<close>

definition EJECTION_BALANCE :: u64 where "EJECTION_BALANCE = 16000000000"

definition registry_step ::
  "preset \<Rightarrow> u64 \<Rightarrow> nat \<Rightarrow> beacon_state \<Rightarrow> (epoch_processing_error, beacon_state) result" where
  "registry_step E current_epoch index st =
     bind_result (ok_or (nth_opt (st_validators st) index) (ValidatorIndexOutOfRange index)) (\<lambda>v.
       let is_queue_eligible = is_eligible_for_activation_queue E v;
           should_eject = is_active_validator v current_epoch \<and> v_effective_balance v \<le> EJECTION_BALANCE
       in
       bind_result
         (if is_queue_eligible
          then map_err epoch_error_of
                 (set_validator index (v\<lparr>v_activation_eligibility_epoch := current_epoch + 1\<rparr>) st)
          else Inr st) (\<lambda>st.
       if should_eject
       then map_err (\<lambda>_. ValidatorIndexOutOfRange index)
              (initiate_validator_exit E (word_of_nat index) st)
       else Inr st))"

definition activation_queue :: "beacon_state \<Rightarrow> (nat \<times> u64) list" where
  "activation_queue st =
     (let finalized_epoch = cp_epoch (st_finalized_checkpoint st)
      in sort_key (\<lambda>(i, ae). (ae, i))
           (map (\<lambda>(i, v). (i, v_activation_eligibility_epoch v))
              (filter (\<lambda>(i, v). is_eligible_for_activation finalized_epoch v)
                 (enumerate 0 (st_validators st)))))"

definition activate_step ::
  "preset \<Rightarrow> u64 \<Rightarrow> nat \<times> u64 \<Rightarrow> beacon_state \<Rightarrow> (epoch_processing_error, beacon_state) result" where
  "activate_step E current_epoch = (\<lambda>(index, _) st.
     bind_result (ok_or (nth_opt (st_validators st) index) (ValidatorIndexOutOfRange index)) (\<lambda>v.
       map_err epoch_error_of
         (set_validator index
            (v\<lparr>v_activation_epoch :=
                 compute_activation_exit_epoch current_epoch (MAX_SEED_LOOKAHEAD E)\<rparr>) st)))"

definition process_registry_updates ::
  "preset \<Rightarrow> beacon_state \<Rightarrow> (epoch_processing_error, beacon_state) result" where
  "process_registry_updates E st =
     (let current_epoch = get_current_epoch E st;
          n = length (st_validators st)
      in
      bind_result (foldE (registry_step E current_epoch) [0..<n] st) (\<lambda>st.
      let churn_limit = unat (get_validator_churn_limit E st)
      in foldE (activate_step E current_epoch) (take churn_limit (activation_queue st)) st))"

section \<open>Slashings\<close>

definition process_slashings ::
  "preset \<Rightarrow> beacon_state \<Rightarrow> (epoch_processing_error, beacon_state) result" where
  "process_slashings E st =
     (let epoch = get_current_epoch E st;
          total_balance = get_total_active_balance E st;
          total_slashings = sum_list (st_slashings st);
          adjusted = min (total_slashings * PROPORTIONAL_SLASHING_MULTIPLIER E) total_balance;
          slashing_epoch_mid = epoch + EPOCHS_PER_SLASHINGS_VECTOR E div 2;
          slashable = map (\<lambda>(i, v). (i, v_effective_balance v))
            (filter (\<lambda>(i, v). v_slashed v \<and> slashing_epoch_mid = v_withdrawable_epoch v)
               (enumerate 0 (st_validators st)));
          increment = EFFECTIVE_BALANCE_INCREMENT E
      in foldE (\<lambda>(i, effective_balance) st.
           let penalty_numerator = effective_balance div increment * adjusted;
               penalty = penalty_numerator div total_balance * increment
           in map_err epoch_error_of (decrease_balance (word_of_nat i) penalty st)) slashable st)"

section \<open>Final updates\<close>

definition process_eth1_data_reset ::
  "preset \<Rightarrow> beacon_state \<Rightarrow> (epoch_processing_error, beacon_state) result" where
  "process_eth1_data_reset E st =
     (let next_epoch = get_current_epoch E st + 1
      in if next_epoch mod EPOCHS_PER_ETH1_VOTING_PERIOD E = 0
         then Inr (clear_eth1_data_votes st) else Inr st)"

definition effective_balance_update :: "preset \<Rightarrow> u64 \<times> u64 \<Rightarrow> u64 option" where
  "effective_balance_update E = (\<lambda>(balance, eff_bal).
     (let hysteresis_increment = EFFECTIVE_BALANCE_INCREMENT E div HYSTERESIS_QUOTIENT E;
          downward_threshold = hysteresis_increment * HYSTERESIS_DOWNWARD_MULTIPLIER E;
          upward_threshold = hysteresis_increment * HYSTERESIS_UPWARD_MULTIPLIER E
      in if balance + downward_threshold < eff_bal \<or> eff_bal + upward_threshold < balance
         then Some (min (balance - balance mod EFFECTIVE_BALANCE_INCREMENT E) (MAX_EFFECTIVE_BALANCE E))
         else None))"

definition process_effective_balance_updates ::
  "preset \<Rightarrow> beacon_state \<Rightarrow> (epoch_processing_error, beacon_state) result" where
  "process_effective_balance_updates E st =
     (let n = length (st_validators st);
          snapshot = map (\<lambda>i. (unwrap_or (nth_opt (st_balances st) i) 0,
                              unwrap_or (map_option v_effective_balance (nth_opt (st_validators st) i)) 0))
                       [0..<n];
          updates = map (effective_balance_update E) snapshot
      in foldE (\<lambda>(i, maybe_new) st.
           case maybe_new of
             None \<Rightarrow> Inr st
           | Some new_eff \<Rightarrow>
               bind_result (ok_or (nth_opt (st_validators st) i) (ValidatorIndexOutOfRange i)) (\<lambda>v.
                 map_err epoch_error_of (set_validator i (v\<lparr>v_effective_balance := new_eff\<rparr>) st)))
           (enumerate 0 updates) st)"

definition process_slashings_reset ::
  "preset \<Rightarrow> beacon_state \<Rightarrow> (epoch_processing_error, beacon_state) result" where
  "process_slashings_reset E st =
     (let next_epoch = get_current_epoch E st + 1;
          idx = unat (next_epoch mod EPOCHS_PER_SLASHINGS_VECTOR E)
      in map_err epoch_error_of (set_slashing idx 0 st))"

definition process_randao_mixes_reset ::
  "preset \<Rightarrow> beacon_state \<Rightarrow> (epoch_processing_error, beacon_state) result" where
  "process_randao_mixes_reset E st =
     (let current_epoch = get_current_epoch E st;
          next_epoch = current_epoch + 1;
          mix = get_randao_mix E st current_epoch;
          idx = unat (next_epoch mod EPOCHS_PER_HISTORICAL_VECTOR E)
      in map_err epoch_error_of (set_randao_mix idx mix st))"

text \<open>
  The root of a \<^verbatim>\<open>HistoricalBatch\<close>: a container of two vectors of roots.  A preset whose history
  length is neither 8192 nor 64 reaches \<^verbatim>\<open>unreachable!\<close>, a vector of the wrong length an
  \<^verbatim>\<open>expect\<close>.
\<close>

definition roots_vector_root :: "sha256 \<Rightarrow> u64 \<Rightarrow> root list \<Rightarrow> root option" where
  "roots_vector_root sha N rs =
     (case ssz_vector_from_vec N rs of
        Inl _ \<Rightarrow> None
      | Inr v \<Rightarrow> map_option fst (ssz_vector_tree_hash_root sha (hash256_elem sha) N v))"

definition compute_historical_batch_root :: "preset \<Rightarrow> sha256 \<Rightarrow> beacon_state \<Rightarrow> root option" where
  "compute_historical_batch_root E sha st =
     (let n = SLOTS_PER_HISTORICAL_ROOT E in
      if n = 8192 \<or> n = 64
      then do {
        block_roots \<leftarrow> roots_vector_root sha n (st_block_roots st);
        state_roots \<leftarrow> roots_vector_root sha n (st_state_roots st);
        Some (container_root sha [block_roots, state_roots])
      }
      else None)"

definition process_historical_roots_update ::
  "preset \<Rightarrow> sha256 \<Rightarrow> beacon_state \<Rightarrow> (epoch_processing_error, beacon_state) result option" where
  "process_historical_roots_update E sha st =
     (let next_epoch = get_current_epoch E st + 1;
          epochs_per_period = SLOTS_PER_HISTORICAL_ROOT E div SLOTS_PER_EPOCH E
      in if next_epoch mod epochs_per_period = 0
         then do {
           historical_root \<leftarrow> compute_historical_batch_root E sha st;
           Some (map_err (\<lambda>e. case e of SszError \<Rightarrow> EpochSsz | _ \<Rightarrow> ValidatorIndexOutOfRange 0)
                   (push_historical_root E historical_root st))
         }
         else Some (Inr st))"

definition process_participation_record_updates ::
  "preset \<Rightarrow> beacon_state \<Rightarrow> (epoch_processing_error, beacon_state) result" where
  "process_participation_record_updates E st =
     (let current = st_current_epoch_attestations st
      in bind_result (map_err epoch_error_of (set_previous_epoch_attestations E current st)) (\<lambda>st.
           Inr (clear_current_epoch_attestations st)))"

section \<open>All of it\<close>

definition process_epoch ::
  "preset \<Rightarrow> sha256 \<Rightarrow> beacon_state \<Rightarrow> (epoch_processing_error, beacon_state) result option" where
  "process_epoch E sha st =
     bind_try (process_justification_and_finalization E sha st) (\<lambda>st.
     bind_try (process_rewards_and_penalties E sha st) (\<lambda>st.
     bind_try (Some (process_registry_updates E st)) (\<lambda>st.
     bind_try (Some (process_slashings E st)) (\<lambda>st.
     bind_try (Some (process_eth1_data_reset E st)) (\<lambda>st.
     bind_try (Some (process_effective_balance_updates E st)) (\<lambda>st.
     bind_try (Some (process_slashings_reset E st)) (\<lambda>st.
     bind_try (Some (process_randao_mixes_reset E st)) (\<lambda>st.
     bind_try (process_historical_roots_update E sha st) (\<lambda>st.
     Some (process_participation_record_updates E st))))))))))"

section \<open>Frames of the sub-routines\<close>

lemma registry_step_frame:
  assumes "registry_step E e i st = Inr st'"
  shows "frame E st st'"
proof -
  have elig: "frame E st u" if "set_validator i ((st_validators st ! i)\<lparr>v_activation_eligibility_epoch := x\<rparr>) st = Inr u"
    for x u
    using that by (rule set_validator_frame) (simp add: validator_evolves_def)
  let ?v = "st_validators st ! i"
  from assms have "bind_result
         (if is_eligible_for_activation_queue E ?v
          then map_err epoch_error_of (set_validator i (?v\<lparr>v_activation_eligibility_epoch := e + 1\<rparr>) st)
          else Inr st) (\<lambda>st.
       if is_active_validator ?v e \<and> v_effective_balance ?v \<le> EJECTION_BALANCE
       then map_err (\<lambda>_. ValidatorIndexOutOfRange i) (initiate_validator_exit E (word_of_nat i) st)
       else Inr st) = Inr st'"
    by (auto simp: registry_step_def Let_def bind_result_Inr [of "ok_or _ _"])
  then show ?thesis
    by (rule fra.bind_step) (auto split: if_splits intro: fra.refl elig initiate_validator_exit_frame)
qed

lemma activation_queue_inactive:
  assumes "(i, ae) \<in> set (activation_queue st)"
  shows "i < length (st_validators st)" and "v_activation_epoch (st_validators st ! i) = FAR_FUTURE_EPOCH"
  using assms
  by (auto simp: activation_queue_def Let_def in_set_enumerate_eq is_eligible_for_activation_def)

lemma activate_stepD:
  assumes "activate_step E e q st = Inr st'"
  shows "fst q < length (st_validators st)
    \<and> st' = st\<lparr>st_validators := (st_validators st)[fst q := (st_validators st ! fst q)
          \<lparr>v_activation_epoch := compute_activation_exit_epoch e (MAX_SEED_LOOKAHEAD E)\<rparr>]\<rparr>
    \<and> set_validator (fst q) ((st_validators st ! fst q)
          \<lparr>v_activation_epoch := compute_activation_exit_epoch e (MAX_SEED_LOOKAHEAD E)\<rparr>) st = Inr st'"
  using assms
  by (cases q) (auto simp: activate_step_def bind_result_Inr set_validator_def list_with_set_def split: if_splits)

text \<open>Activations write only epochs that nobody has written before.\<close>

lemma activate_all_frame:
  assumes "foldE (activate_step E (get_current_epoch E st)) qs st = Inr st'"
    and "set qs \<subseteq> set (activation_queue st)"
  shows "frame E st st'"
proof -
  define unset where "unset u \<longleftrightarrow> (\<forall>q \<in> set qs. v_activation_epoch (st_validators u ! fst q)
      \<in> {FAR_FUTURE_EPOCH, delay_epoch E st})" for u :: beacon_state
  have "frame E st st' \<and> unset st'"
    using assms(1) _ _
  proof (rule foldE_invariant [where P = "\<lambda>u. frame E st u \<and> unset u"])
    show "frame E st st \<and> unset st"
      using assms(2) activation_queue_inactive(2) by (auto simp: fra.refl unset_def)
  next
    fix q u v assume q: "q \<in> set qs" and u: "frame E st u \<and> unset u"
      and "activate_step E (get_current_epoch E st) q u = Inr v"
    note v = activate_stepD [OF this(3)]
    have same: "delay_epoch E u = delay_epoch E st" using u evolves_epoch [of E st u] by (simp add: frame_def)
    have "validator_evolves (delay_epoch E u) (st_validators u ! fst q)
            ((st_validators u ! fst q)\<lparr>v_activation_epoch := delay_epoch E st\<rparr>)"
      using u q by (auto simp: unset_def validator_evolves_def same)
    then have "frame E u v" using v by (intro set_validator_frame [of "fst q" _ u v]) auto
    moreover have "unset v" using u v by (auto simp: unset_def nth_list_update)
    ultimately show "frame E st v \<and> unset v" using u fra.trans by blast
  qed
  then show ?thesis ..
qed

lemma process_registry_updates_frame:
  assumes "process_registry_updates E st = Inr st'"
  shows "frame E st st'"
proof -
  obtain u where u: "foldE (registry_step E (get_current_epoch E st)) [0..<length (st_validators st)] st = Inr u"
    "foldE (activate_step E (get_current_epoch E st))
       (take (unat (get_validator_churn_limit E u)) (activation_queue u)) u = Inr st'"
    using assms by (auto simp: process_registry_updates_def Let_def bind_result_Inr)
  have f: "frame E st u" using u(1) by (rule fra.foldE_step) (rule registry_step_frame)
  then have "get_current_epoch E u = get_current_epoch E st" by (simp add: frame_def evolves_epoch)
  with u(2) have "frame E u st'" by (intro activate_all_frame) (auto dest: in_set_takeD)
  with f show ?thesis by (rule fra.trans)
qed

lemma process_slashings_frame: "process_slashings E st = Inr st' \<Longrightarrow> frame E st st'"
  unfolding process_slashings_def Let_def
  by (erule fra.foldE_step) (auto intro: decrease_balance_frame)

lemma process_eth1_data_reset_frame: "process_eth1_data_reset E st = Inr st' \<Longrightarrow> frame E st st'"
  by (auto simp: process_eth1_data_reset_def Let_def clear_eth1_data_votes_def frame_defs split: if_splits)

lemma process_effective_balance_updates_frame:
  "process_effective_balance_updates E st = Inr st' \<Longrightarrow> frame E st st'"
  unfolding process_effective_balance_updates_def Let_def
proof (erule fra.foldE_step)
  fix x u v assume "(case x of (i, maybe_new) \<Rightarrow> \<lambda>st. case maybe_new of None \<Rightarrow> Inr st | Some new_eff \<Rightarrow>
      bind_result (ok_or (nth_opt (st_validators st) i) (ValidatorIndexOutOfRange i)) (\<lambda>v.
        map_err epoch_error_of (set_validator i (v\<lparr>v_effective_balance := new_eff\<rparr>) st))) u = Inr v"
  then show "frame E u v"
    by (auto simp: bind_result_Inr fra.refl validator_evolves_def
        split: prod.splits option.splits intro!: set_validator_frame)
qed

lemma process_slashings_reset_frame: "process_slashings_reset E st = Inr st' \<Longrightarrow> frame E st st'"
  by (auto simp: process_slashings_reset_def Let_def intro: set_slashing_frame)

lemma process_randao_mixes_reset_frame: "process_randao_mixes_reset E st = Inr st' \<Longrightarrow> frame E st st'"
  by (auto simp: process_randao_mixes_reset_def Let_def intro: set_randao_mix_frame)

lemma process_historical_roots_update_frame:
  "process_historical_roots_update E sha st = Some (Inr st') \<Longrightarrow> frame E st st'"
  by (auto simp: process_historical_roots_update_def Let_def push_historical_root_def bind_result_Inr
      Option.bind_eq_Some_conv frame_defs fra.refl split: if_splits)

lemma process_participation_record_updates_frame:
  "process_participation_record_updates E st = Inr st' \<Longrightarrow> frame E st st'"
  by (auto simp: process_participation_record_updates_def Let_def set_previous_epoch_attestations_def
      clear_current_epoch_attestations_def bind_result_Inr frame_defs split: if_splits)

lemmas epoch_frames = process_rewards_frame process_registry_updates_frame process_slashings_frame
  process_eth1_data_reset_frame process_effective_balance_updates_frame process_slashings_reset_frame
  process_randao_mixes_reset_frame process_historical_roots_update_frame
  process_participation_record_updates_frame

text \<open>The nine sub-routines after justification.\<close>

lemma process_epoch_split:
  assumes "process_epoch E sha st = Some (Inr st')"
  obtains u where "process_justification_and_finalization E sha st = Some (Inr u)" "frame E u st'"
proof -
  from assms obtain u where u: "process_justification_and_finalization E sha st = Some (Inr u)" and rest:
    "bind_try (process_rewards_and_penalties E sha u) (\<lambda>st.
     bind_try (Some (process_registry_updates E st)) (\<lambda>st.
     bind_try (Some (process_slashings E st)) (\<lambda>st.
     bind_try (Some (process_eth1_data_reset E st)) (\<lambda>st.
     bind_try (Some (process_effective_balance_updates E st)) (\<lambda>st.
     bind_try (Some (process_slashings_reset E st)) (\<lambda>st.
     bind_try (Some (process_randao_mixes_reset E st)) (\<lambda>st.
     bind_try (process_historical_roots_update E sha st) (\<lambda>st.
     Some (process_participation_record_updates E st))))))))) = Some (Inr st')"
    unfolding process_epoch_def bind_try_Inr [of "process_justification_and_finalization E sha st"] by blast
  have "frame E u st'" using rest
    by (elim fra.try_step) (simp_all add: epoch_frames)
  with u that show ?thesis by blast
qed

end
