(* ===== verification/Phase0_Operations.thy ===== *)
theory Phase0_Operations
  imports Phase0_Justification
begin

text \<open>
  Block operations of phase 0 (\<^verbatim>\<open>src/crates/pharos-stf/src/phase0/operations\<close>): the block header,
  the randao reveal, eth1 votes, proposer and attester slashings, attestations, deposits and
  voluntary exits, and \<^verbatim>\<open>process_block\<close>, which runs them (\<^verbatim>\<open>block.rs\<close>).

  An operation takes the state and returns an error or the new state; \<open>None\<close> is a panic in the
  proposer or committee computation.  The roots of states, blocks and bodies, which the SSZ derive
  macro generates, are the record \<open>root_service\<close>, a parameter about which nothing is assumed.

  The lemmas: every operation stays in the frame of the mutators; an accepted block extends the
  latest block; the merge loop of attester slashings computes the intersection; a deposit branch
  that is accepted opens the deposit root.
\<close>

record root_service =
  rs_state :: "beacon_state \<Rightarrow> root"
  rs_body :: "beacon_block_body \<Rightarrow> root"
  rs_block :: "beacon_block \<Rightarrow> root"

section \<open>Block header\<close>

definition process_block_header ::
  "preset \<Rightarrow> sha256 \<Rightarrow> root_service \<Rightarrow> beacon_block \<Rightarrow> beacon_state \<Rightarrow>
   (state_transition_error, beacon_state) result option" where
  "process_block_header E sha R block st =
     (if b_slot block \<noteq> st_slot st then Some (Inl (InvalidBlockHeader HeaderSlotMismatch))
      else if b_slot block \<le> bh_slot (st_latest_block_header st)
      then Some (Inl (InvalidBlockHeader SlotNotLater))
      else
        case get_beacon_proposer_index E sha st of
          None \<Rightarrow> None
        | Some proposer_index \<Rightarrow>
            if b_proposer_index block \<noteq> proposer_index
            then Some (Inl (InvalidBlockHeader HeaderProposerIndexMismatch))
            else if b_parent_root block \<noteq> beacon_block_header_root sha (st_latest_block_header st)
            then Some (Inl (InvalidBlockHeader ParentRootMismatch))
            else
              let st = set_latest_block_header
                    \<lparr>bh_slot = b_slot block, bh_proposer_index = b_proposer_index block,
                     bh_parent_root = b_parent_root block, bh_state_root = 0,
                     bh_body_root = rs_body R (b_body block)\<rparr> st;
                  proposer_slashed =
                    unwrap_or (map_option v_slashed (nth_opt (st_validators st) (unat proposer_index))) False
              in if proposer_slashed then Some (Inl (InvalidBlockHeader ProposerSlashed))
                 else Some (Inr st))"

section \<open>Randao and eth1 votes\<close>

definition process_randao ::
  "preset \<Rightarrow> crypto \<Rightarrow> beacon_block_body \<Rightarrow> bool \<Rightarrow> beacon_state \<Rightarrow>
   (state_transition_error, beacon_state) result option" where
  "process_randao E cr body verify_signatures st =
     (let epoch = get_current_epoch E st in
      bind_try
        (if verify_signatures
         then
           case get_beacon_proposer_index E (cr_sha cr) st of
             None \<Rightarrow> None
           | Some proposer_index \<Rightarrow>
               bind_try (Some (ok_or (nth_opt (st_validators st) (unat proposer_index)) InvalidRandaoReveal))
                 (\<lambda>proposer.
                    let domain = get_domain E (cr_sha cr) st DOMAIN_RANDAO (Some epoch);
                        signing_root = compute_signing_root (cr_sha cr) (uint64_root epoch) domain;
                        valid = unwrap_or (cr_bls_verify cr (v_pubkey proposer)
                                  (hash_bytes signing_root) (bb_randao_reveal body)) False
                    in Some (if valid then Inr () else Inl InvalidRandaoReveal))
         else Some (Inr ())) (\<lambda>_.
      let prev_mix = get_randao_mix E st epoch;
          reveal_hash = cr_sha cr (be_bytes 96 (bb_randao_reveal body));
          new_mix = xor_hash prev_mix reveal_hash;
          mix_idx = unat (epoch mod EPOCHS_PER_HISTORICAL_VECTOR E)
      in Some (set_randao_mix mix_idx new_mix st)))"

definition process_eth1_data ::
  "preset \<Rightarrow> beacon_block_body \<Rightarrow> beacon_state \<Rightarrow> (state_transition_error, beacon_state) result" where
  "process_eth1_data E body st =
     (let eth1_data = bb_eth1_data body in
      bind_result (push_eth1_data_vote E eth1_data st) (\<lambda>st.
        let cnt = word_of_nat (eth1_data_votes_count_matching eth1_data st) :: u64;
            threshold = EPOCHS_PER_ETH1_VOTING_PERIOD E * SLOTS_PER_EPOCH E
        in if threshold < cnt * 2 then Inr (set_eth1_data eth1_data st) else Inr st))"

section \<open>Slashings\<close>

definition header_signature_valid ::
  "preset \<Rightarrow> crypto \<Rightarrow> beacon_state \<Rightarrow> validator \<Rightarrow> signed_beacon_block_header \<Rightarrow> bool" where
  "header_signature_valid E cr st proposer signed_header =
     (let slot_epoch = compute_epoch_at_slot (bh_slot (sbh_message signed_header)) (SLOTS_PER_EPOCH E);
          domain = get_domain E (cr_sha cr) st DOMAIN_BEACON_PROPOSER (Some slot_epoch);
          signing_root = compute_signing_root (cr_sha cr)
            (beacon_block_header_root (cr_sha cr) (sbh_message signed_header)) domain
      in unwrap_or (cr_bls_verify cr (v_pubkey proposer) (hash_bytes signing_root)
                      (sbh_signature signed_header)) False)"

definition process_proposer_slashing ::
  "preset \<Rightarrow> crypto \<Rightarrow> bool \<Rightarrow> proposer_slashing \<Rightarrow> beacon_state \<Rightarrow>
   (state_transition_error, beacon_state) result option" where
  "process_proposer_slashing E cr verify_signatures slashing st =
     (let header_1 = sbh_message (ps_signed_header_1 slashing);
          header_2 = sbh_message (ps_signed_header_2 slashing)
      in
      if bh_slot header_1 \<noteq> bh_slot header_2 then Some (Inl (InvalidProposerSlashing PsSlotMismatch))
      else if bh_proposer_index header_1 \<noteq> bh_proposer_index header_2
      then Some (Inl (InvalidProposerSlashing PsProposerIndexMismatch))
      else if header_1 = header_2 then Some (Inl (InvalidProposerSlashing HeadersIdentical))
      else
        case nth_opt (st_validators st) (unat (bh_proposer_index header_1)) of
          None \<Rightarrow> Some (Inl (InvalidProposerSlashing ValidatorNotSlashable))
        | Some proposer \<Rightarrow>
            if \<not> is_slashable_validator proposer (get_current_epoch E st)
            then Some (Inl (InvalidProposerSlashing ValidatorNotSlashable))
            else if verify_signatures \<and>
                    \<not> list_all (header_signature_valid E cr st proposer)
                        [ps_signed_header_1 slashing, ps_signed_header_2 slashing]
            then Some (Inl (InvalidProposerSlashing PsInvalidSignature))
            else slash_validator E (cr_sha cr) (bh_proposer_index header_1) None st)"

text \<open>The two-pointer loop over both sorted index lists.\<close>

fun merge_intersection :: "u64 list \<Rightarrow> u64 list \<Rightarrow> u64 list" where
  "merge_intersection (x # xs) (y # ys) =
     (if x < y then merge_intersection xs (y # ys)
      else if y < x then merge_intersection (x # xs) ys
      else x # merge_intersection xs ys)"
| "merge_intersection _ _ = []"

definition attester_slashing_step ::
  "preset \<Rightarrow> sha256 \<Rightarrow> u64 \<Rightarrow> u64 \<Rightarrow> bool \<times> beacon_state \<Rightarrow>
   (state_transition_error, bool \<times> beacon_state) result option" where
  "attester_slashing_step E sha epoch index = (\<lambda>(slashed_any, st).
     if unwrap_or (map_option (\<lambda>v. is_slashable_validator v epoch)
                     (nth_opt (st_validators st) (unat index))) False
     then bind_try (slash_validator E sha index None st) (\<lambda>st. Some (Inr (True, st)))
     else Some (Inr (slashed_any, st)))"

definition process_attester_slashing ::
  "preset \<Rightarrow> crypto \<Rightarrow> bool \<Rightarrow> attester_slashing \<Rightarrow> beacon_state \<Rightarrow>
   (state_transition_error, beacon_state) result option" where
  "process_attester_slashing E cr verify_signatures slashing st =
     (let att1 = as_attestation_1 slashing; att2 = as_attestation_2 slashing in
      if \<not> is_slashable_attestation_data (ia_data att1) (ia_data att2)
      then Some (Inl (InvalidAttesterSlashing AttestationsNotSlashable))
      else if \<not> is_valid_indexed_attestation E cr st att1 verify_signatures
      then Some (Inl (InvalidAttesterSlashing InvalidIndexedAttestation))
      else if \<not> is_valid_indexed_attestation E cr st att2 verify_signatures
      then Some (Inl (InvalidAttesterSlashing InvalidIndexedAttestation))
      else
        let epoch = get_current_epoch E st;
            intersection = merge_intersection (ia_attesting_indices att1) (ia_attesting_indices att2)
        in bind_try (fold_try (attester_slashing_step E (cr_sha cr) epoch) intersection (False, st))
             (\<lambda>(slashed_any, st).
                Some (if slashed_any then Inr st
                      else Inl (InvalidAttesterSlashing NoSlashableIndices))))"

section \<open>Attestations\<close>

definition process_attestation ::
  "preset \<Rightarrow> crypto \<Rightarrow> bool \<Rightarrow> attestation \<Rightarrow> beacon_state \<Rightarrow>
   (state_transition_error, beacon_state) result option" where
  "process_attestation E cr verify_signatures att st =
     (let data = at_data att;
          current_epoch = get_current_epoch E st;
          previous_epoch = get_previous_epoch E st;
          min_slot = compute_start_slot_at_epoch previous_epoch (SLOTS_PER_EPOCH E);
          max_slot_incl = saturating_add (compute_start_slot_at_epoch current_epoch (SLOTS_PER_EPOCH E))
                            (SLOTS_PER_EPOCH E - 1);
          bad = (\<lambda>reason. Some (Inl (InvalidAttestation reason)))
      in
      if ad_slot data < min_slot then bad SlotTooOld
      else if max_slot_incl < ad_slot data then bad SlotTooNew
      else if st_slot st < ad_slot data + MIN_ATTESTATION_INCLUSION_DELAY E then bad SlotTooNew
      else if ad_slot data + SLOTS_PER_EPOCH E < st_slot st then bad SlotTooOld
      else if cp_epoch (ad_target data) \<noteq> compute_epoch_at_slot (ad_slot data) (SLOTS_PER_EPOCH E)
      then bad TargetEpochMismatch
      else if cp_epoch (ad_target data) \<noteq> current_epoch \<and> cp_epoch (ad_target data) \<noteq> previous_epoch
      then bad TargetEpochMismatch
      else if get_committee_count_per_slot E st (cp_epoch (ad_target data)) \<le> ad_index data
      then bad CommitteeIndexOutOfRange
      else
        case get_beacon_committee E (cr_sha cr) st (ad_slot data) (ad_index data) of
          None \<Rightarrow> None
        | Some committee \<Rightarrow>
            if length (at_aggregation_bits att) \<noteq> length committee then bad AggregationBitsLengthMismatch
            else if ad_source data \<noteq> (if cp_epoch (ad_target data) = current_epoch
                                        then st_current_justified_checkpoint st
                                        else st_previous_justified_checkpoint st)
            then bad InvalidSourceCheckpoint
            else
              case get_indexed_attestation E (cr_sha cr) st att of
                None \<Rightarrow> None
              | Some indexed \<Rightarrow>
                  if ia_attesting_indices indexed = [] then bad EmptyAttestingIndices
                  else if \<not> is_valid_indexed_attestation E cr st indexed verify_signatures
                  then bad AttInvalidSignature
                  else
                    case get_beacon_proposer_index E (cr_sha cr) st of
                      None \<Rightarrow> None
                    | Some proposer_index \<Rightarrow>
                        let pending = \<lparr>pa_aggregation_bits = at_aggregation_bits att, pa_data = data,
                                       pa_inclusion_delay = st_slot st - ad_slot data,
                                       pa_proposer_index = proposer_index\<rparr>
                        in Some (if cp_epoch (ad_target data) = current_epoch
                                 then push_current_epoch_attestation E pending st
                                 else push_previous_epoch_attestation E pending st))"

section \<open>Deposits\<close>

definition deposit_message_root :: "sha256 \<Rightarrow> 384 word \<Rightarrow> hash256 \<Rightarrow> u64 \<Rightarrow> root" where
  "deposit_message_root sha pubkey withdrawal_credentials amount =
     container_root sha
       [bytes_root sha (be_bytes 48 pubkey), withdrawal_credentials, uint64_root amount]"

definition deposit_data_root :: "sha256 \<Rightarrow> deposit_data \<Rightarrow> root" where
  "deposit_data_root sha d =
     container_root sha
       [bytes_root sha (be_bytes 48 (dd_pubkey d)), dd_withdrawal_credentials d,
        uint64_root (dd_amount d), bytes_root sha (be_bytes 96 (dd_signature d))]"

definition merkle_branch_step :: "sha256 \<Rightarrow> hash256 list \<Rightarrow> u64 \<Rightarrow> nat \<Rightarrow> hash256 \<Rightarrow> hash256" where
  "merkle_branch_step sha branch index i value =
     (let branch_hash = branch ! i
      in if drop_bit i index AND 1 = 1
         then sha (hash_bytes branch_hash @ hash_bytes value)
         else sha (hash_bytes value @ hash_bytes branch_hash))"

definition is_valid_merkle_branch :: "sha256 \<Rightarrow> hash256 \<Rightarrow> hash256 list \<Rightarrow> u64 \<Rightarrow> u64 \<Rightarrow> hash256 \<Rightarrow> bool" where
  "is_valid_merkle_branch sha leaf branch depth index rt \<longleftrightarrow>
     unat depth = length branch \<and>
     fold (merkle_branch_step sha branch index) [0..<unat depth] leaf = rt"

definition apply_deposit ::
  "preset \<Rightarrow> crypto \<Rightarrow> 384 word \<Rightarrow> hash256 \<Rightarrow> u64 \<Rightarrow> 768 word \<Rightarrow> bool \<Rightarrow> beacon_state \<Rightarrow>
   (state_transition_error, beacon_state) result" where
  "apply_deposit E cr pubkey withdrawal_credentials amount signature verify_signatures st =
     (case find (\<lambda>(i, v). v_pubkey v = pubkey) (enumerate 0 (st_validators st)) of
        Some (idx, _) \<Rightarrow> increase_balance (word_of_nat idx) amount st
      | None \<Rightarrow>
          let sha = cr_sha cr;
              domain = compute_domain sha DOMAIN_DEPOSIT
                         (from_le_bytes (rev (GENESIS_FORK_VERSION E))) 0;
              signing_root = compute_signing_root sha
                (deposit_message_root sha pubkey withdrawal_credentials amount) domain;
              valid = unwrap_or (cr_bls_verify cr pubkey (hash_bytes signing_root) signature) False
          in
          if verify_signatures \<and> \<not> valid then Inr st
          else
            let effective_balance =
                  min (amount - amount mod EFFECTIVE_BALANCE_INCREMENT E) (MAX_EFFECTIVE_BALANCE E);
                validator = \<lparr>v_pubkey = pubkey, v_withdrawal_credentials = withdrawal_credentials,
                  v_effective_balance = effective_balance, v_slashed = False,
                  v_activation_eligibility_epoch = FAR_FUTURE_EPOCH,
                  v_activation_epoch = FAR_FUTURE_EPOCH, v_exit_epoch = FAR_FUTURE_EPOCH,
                  v_withdrawable_epoch = FAR_FUTURE_EPOCH\<rparr>
            in bind_result (push_validator E validator st) (push_balance E amount))"

definition process_deposit ::
  "preset \<Rightarrow> crypto \<Rightarrow> bool \<Rightarrow> deposit \<Rightarrow> beacon_state \<Rightarrow>
   (state_transition_error, beacon_state) result" where
  "process_deposit E cr verify_signatures dep st =
     (let leaf = deposit_data_root (cr_sha cr) (dp_data dep);
          index = st_eth1_deposit_index st;
          deposit_root = ed_deposit_root (st_eth1_data st);
          depth = DEPOSIT_CONTRACT_TREE_DEPTH E + 1
      in
      if \<not> is_valid_merkle_branch (cr_sha cr) leaf (dp_proof dep) depth index deposit_root
      then Inl (InvalidDeposit InvalidMerkleProof)
      else
        apply_deposit E cr (dd_pubkey (dp_data dep)) (dd_withdrawal_credentials (dp_data dep))
          (dd_amount (dp_data dep)) (dd_signature (dp_data dep)) verify_signatures
          (increment_eth1_deposit_index st))"

section \<open>Voluntary exits\<close>

definition process_voluntary_exit ::
  "preset \<Rightarrow> crypto \<Rightarrow> bool \<Rightarrow> signed_voluntary_exit \<Rightarrow> beacon_state \<Rightarrow>
   (state_transition_error, beacon_state) result" where
  "process_voluntary_exit E cr verify_signatures signed_exit st =
     (let exit = sve_message signed_exit; bad = (\<lambda>reason. Inl (InvalidVoluntaryExit reason)) in
      case nth_opt (st_validators st) (unat (ve_validator_index exit)) of
        None \<Rightarrow> bad ValidatorNotActive
      | Some validator \<Rightarrow>
          let current_epoch = get_current_epoch E st;
              sha = cr_sha cr;
              domain = get_domain E sha st DOMAIN_VOLUNTARY_EXIT (Some (ve_epoch exit));
              signing_root = compute_signing_root sha (voluntary_exit_root sha exit) domain;
              valid = unwrap_or (cr_bls_verify cr (v_pubkey validator) (hash_bytes signing_root)
                                   (sve_signature signed_exit)) False
          in
          if \<not> is_active_validator validator current_epoch then bad ValidatorNotActive
          else if v_exit_epoch validator \<noteq> FAR_FUTURE_EPOCH then bad ExitAlreadyInitiated
          else if current_epoch < ve_epoch exit then bad EpochTooEarly
          else if current_epoch < v_activation_epoch validator + SHARD_COMMITTEE_PERIOD E
          then bad InsufficientActiveEpochs
          else if verify_signatures \<and> \<not> valid then bad VeInvalidSignature
          else initiate_validator_exit E (ve_validator_index exit) st)"

section \<open>Blocks\<close>

definition process_operations ::
  "preset \<Rightarrow> crypto \<Rightarrow> beacon_block_body \<Rightarrow> bool \<Rightarrow> beacon_state \<Rightarrow>
   (state_transition_error, beacon_state) result option" where
  "process_operations E cr body verify_signatures st =
     (let expected_deposits =
            min (MAX_DEPOSITS E)
              (saturating_sub (ed_deposit_count (st_eth1_data st)) (st_eth1_deposit_index st))
      in
      if word_of_nat (length (bb_deposits body)) \<noteq> expected_deposits then Some (Inl InvalidDepositCount)
      else
        bind_try (fold_try (process_proposer_slashing E cr verify_signatures) (bb_proposer_slashings body) st) (\<lambda>st.
        bind_try (fold_try (process_attester_slashing E cr verify_signatures) (bb_attester_slashings body) st) (\<lambda>st.
        bind_try (fold_try (process_attestation E cr verify_signatures) (bb_attestations body) st) (\<lambda>st.
        bind_try (Some (foldE (process_deposit E cr verify_signatures) (bb_deposits body) st)) (\<lambda>st.
        Some (foldE (process_voluntary_exit E cr verify_signatures) (bb_voluntary_exits body) st))))))"

definition process_block ::
  "preset \<Rightarrow> crypto \<Rightarrow> root_service \<Rightarrow> beacon_block \<Rightarrow> bool \<Rightarrow> beacon_state \<Rightarrow>
   (state_transition_error, beacon_state) result option" where
  "process_block E cr R block verify_signatures st =
     bind_try (process_block_header E (cr_sha cr) R block st) (\<lambda>st.
     bind_try (process_randao E cr (b_body block) verify_signatures st) (\<lambda>st.
     bind_try (Some (process_eth1_data E (b_body block) st)) (\<lambda>st.
     process_operations E cr (b_body block) verify_signatures st)))"

section \<open>Every operation stays in the frame\<close>

lemma process_block_headerD:
  assumes "process_block_header E sha R block st = Some (Inr st')"
  shows "b_slot block = st_slot st \<and> bh_slot (st_latest_block_header st) < b_slot block
    \<and> b_parent_root block = beacon_block_header_root sha (st_latest_block_header st)
    \<and> get_beacon_proposer_index E sha st = Some (b_proposer_index block)
    \<and> \<not> unwrap_or (map_option v_slashed (nth_opt (st_validators st) (unat (b_proposer_index block)))) False
    \<and> st' = st\<lparr>st_latest_block_header := \<lparr>bh_slot = b_slot block, bh_proposer_index = b_proposer_index block,
                 bh_parent_root = b_parent_root block, bh_state_root = 0,
                 bh_body_root = rs_body R (b_body block)\<rparr>\<rparr>"
  using assms
  by (auto simp: process_block_header_def set_latest_block_header_def Let_def
      split: if_splits option.splits)

lemma process_block_header_frame:
  "process_block_header E sha R block st = Some (Inr st') \<Longrightarrow> frame E st st'"
  by (drule process_block_headerD) (simp add: frame_defs)

lemma process_randao_frame:
  "process_randao E cr body vs st = Some (Inr st') \<Longrightarrow> frame E st st'"
  unfolding process_randao_def Let_def bind_try_Inr
  by (auto intro: set_randao_mix_frame)

lemma process_eth1_data_frame: "process_eth1_data E body st = Inr st' \<Longrightarrow> frame E st st'"
  by (auto simp: process_eth1_data_def push_eth1_data_vote_def set_eth1_data_def Let_def bind_result_Inr
      frame_defs split: if_splits)

lemma process_proposer_slashing_frame:
  "process_proposer_slashing E cr vs sl st = Some (Inr st') \<Longrightarrow> frame E st st'"
  by (auto simp: process_proposer_slashing_def Let_def split: if_splits option.splits
      intro: slash_validator_frame)

lemma attester_slashing_step_frame:
  assumes "attester_slashing_step E sha e i s = Some (Inr s')"
  shows "frame E (snd s) (snd s')"
  using assms
  by (auto simp: attester_slashing_step_def bind_try_Inr fra.refl split: prod.splits if_splits
      intro: slash_validator_frame)

lemma process_attester_slashing_frame:
  assumes "process_attester_slashing E cr vs sl st = Some (Inr st')"
  shows "frame E st st'"
proof -
  obtain b where "fold_try (attester_slashing_step E (cr_sha cr) (get_current_epoch E st))
      (merge_intersection (ia_attesting_indices (as_attestation_1 sl)) (ia_attesting_indices (as_attestation_2 sl)))
      (False, st) = Some (Inr (b, st'))"
    using assms by (auto simp: process_attester_slashing_def Let_def bind_try_Inr split: if_splits)
  then have "frame E st (snd (b, st'))"
  proof (rule fold_try_invariant [where P = "\<lambda>s. frame E st (snd s)"])
    show "frame E st (snd (False, st))" by (simp add: fra.refl)
  qed (blast intro: fra.trans attester_slashing_step_frame)
  then show ?thesis by simp
qed

lemma process_attestationD:
  assumes "process_attestation E cr vs att st = Some (Inr st')"
  obtains pending where "pa_data pending = at_data att" "pending_ok E st pending"
    "if cp_epoch (ad_target (at_data att)) = get_current_epoch E st
     then push_current_epoch_attestation E pending st = Inr st'
     else push_previous_epoch_attestation E pending st = Inr st'"
proof -
  let ?d = "at_data att"
  from assms have t: "cp_epoch (ad_target ?d) = compute_epoch_at_slot (ad_slot ?d) (SLOTS_PER_EPOCH E)"
    "cp_epoch (ad_target ?d) = get_current_epoch E st \<or> cp_epoch (ad_target ?d) = get_previous_epoch E st"
    "ad_index ?d < get_committee_count_per_slot E st (cp_epoch (ad_target ?d))"
    by (auto simp: process_attestation_def Let_def not_le split: if_splits)
  have "compute_epoch_at_slot (ad_slot ?d) (SLOTS_PER_EPOCH E) \<le> get_current_epoch E st"
    using t previous_epoch_le [of E st] by auto
  then have ok: "pending_ok E st p" if "pa_data p = ?d" for p
    using t that by (simp add: pending_ok_def)
  let ?p = "\<lambda>pi. \<lparr>pa_aggregation_bits = at_aggregation_bits att, pa_data = ?d,
      pa_inclusion_delay = st_slot st - ad_slot ?d, pa_proposer_index = pi\<rparr>"
  from assms have "\<exists>pi. if cp_epoch (ad_target ?d) = get_current_epoch E st
     then push_current_epoch_attestation E (?p pi) st = Inr st'
     else push_previous_epoch_attestation E (?p pi) st = Inr st'"
    by (auto simp: process_attestation_def Let_def split: if_splits option.splits)
  then obtain pi where "if cp_epoch (ad_target ?d) = get_current_epoch E st
     then push_current_epoch_attestation E (?p pi) st = Inr st'
     else push_previous_epoch_attestation E (?p pi) st = Inr st'" ..
  with ok [of "?p pi"] that [of "?p pi"] show ?thesis by simp
qed

lemma process_attestation_frame:
  assumes "process_attestation E cr vs att st = Some (Inr st')"
  shows "frame E st st'"
  using assms
proof (cases rule: process_attestationD)
  case (1 pending)
  then show ?thesis
    by (auto simp: push_current_epoch_attestation_def push_previous_epoch_attestation_def bind_result_Inr
        frame_defs split: if_splits)
qed

lemma apply_deposit_frame:
  assumes "apply_deposit E cr pk wc amount sig vs st = Inr st'"
  shows "frame E st st'"
proof (cases "find (\<lambda>(i, v). v_pubkey v = pk) (enumerate 0 (st_validators st))")
  case None
  have push: "frame E st (st\<lparr>st_validators := st_validators st @ [v], st_balances := st_balances st @ [amount]\<rparr>)"
    if "length (st_validators st) < unat (VALIDATOR_REGISTRY_LIMIT E)"
      "v_activation_epoch v = FAR_FUTURE_EPOCH" for v
  proof -
    have "registry_evolves d (st_validators st) (st_validators st @ [v])" for d
      using that(2) by (auto simp: registry_evolves_def nth_append validator_evolves_refl)
    then show ?thesis using that(1)
      by (simp add: frame_def evolves_def state_shape_def mixes_kept_refl pending_atts_def)
  qed
  from assms None show ?thesis
    by (auto simp: apply_deposit_def Let_def push_validator_def push_balance_def bind_result_Inr
        list_with_push_def fra.refl intro!: push split: if_splits)
qed (use assms in \<open>auto simp: apply_deposit_def intro: increase_balance_frame\<close>)

lemma process_deposit_frame: "process_deposit E cr vs dep st = Inr st' \<Longrightarrow> frame E st st'"
proof -
  assume "process_deposit E cr vs dep st = Inr st'"
  then have "frame E (increment_eth1_deposit_index st) st'"
    by (auto simp: process_deposit_def Let_def split: if_splits intro: apply_deposit_frame)
  moreover have "frame E st (increment_eth1_deposit_index st)"
    by (simp add: increment_eth1_deposit_index_def frame_defs)
  ultimately show ?thesis by (rule fra.trans [rotated])
qed

lemma process_voluntary_exit_frame:
  "process_voluntary_exit E cr vs sx st = Inr st' \<Longrightarrow> frame E st st'"
  by (auto simp: process_voluntary_exit_def Let_def split: if_splits option.splits
      intro: initiate_validator_exit_frame)

lemma process_operations_frame:
  assumes "process_operations E cr body vs st = Some (Inr st')"
  shows "frame E st st'"
proof -
  from assms have
    "bind_try (fold_try (process_proposer_slashing E cr vs) (bb_proposer_slashings body) st) (\<lambda>st.
     bind_try (fold_try (process_attester_slashing E cr vs) (bb_attester_slashings body) st) (\<lambda>st.
     bind_try (fold_try (process_attestation E cr vs) (bb_attestations body) st) (\<lambda>st.
     bind_try (Some (foldE (process_deposit E cr vs) (bb_deposits body) st)) (\<lambda>st.
     Some (foldE (process_voluntary_exit E cr vs) (bb_voluntary_exits body) st))))) = Some (Inr st')"
    by (simp add: process_operations_def Let_def split: if_splits)
  then show ?thesis
    by (elim fra.try_step)
      (auto elim!: fra.fold_try_step fra.foldE_step intro: process_proposer_slashing_frame
        process_attester_slashing_frame process_attestation_frame process_deposit_frame
        process_voluntary_exit_frame)
qed

lemma process_block_frame:
  assumes "process_block E cr R block vs st = Some (Inr st')"
  shows "frame E st st'"
  using assms unfolding process_block_def
  by (elim fra.try_step)
    (auto intro: process_block_header_frame process_randao_frame process_eth1_data_frame process_operations_frame)

section \<open>Who an attester slashing slashes\<close>

lemma set_merge_intersection:
  "sorted_wrt (<) xs \<Longrightarrow> sorted_wrt (<) ys \<Longrightarrow> set (merge_intersection xs ys) = set xs \<inter> set ys"
  by (induction xs ys rule: merge_intersection.induct) (auto dest: less_trans simp: not_less_iff_gr_or_eq)

lemma balance_validators:
  "increase_balance i d st = Inr st' \<Longrightarrow> st_validators st' = st_validators st"
  "decrease_balance i d st = Inr st' \<Longrightarrow> st_validators st' = st_validators st"
  "set_slashing k x st = Inr st' \<Longrightarrow> st_validators st' = st_validators st"
  by (auto simp: increase_balance_def decrease_balance_def set_balance_def set_slashing_def Let_def
      bind_result_Inr split: sum.splits)

lemma slash_validator_validators:
  assumes "slash_validator E sha i wb st = Some (Inr st')"
  obtains v where "unat i < length (st_validators st)" "v_slashed v"
    "st_validators st' = (st_validators st)[unat i := v]"
proof -
  from assms obtain a v w b where a: "initiate_validator_exit E i st = Inr a"
    and b: "set_validator (unat i) (v\<lparr>v_slashed := True, v_withdrawable_epoch := w\<rparr>) a = Inr b"
    and st': "st_validators st' = st_validators b"
    unfolding slash_validator_def Let_def bind_try_Inr
    by (clarsimp split: option.splits simp: bind_try_Inr) (metis balance_validators)
  let ?v = "v\<lparr>v_slashed := True, v_withdrawable_epoch := w\<rparr>"
  have "st_validators b = (st_validators a)[unat i := ?v]"
    using b by (auto simp: set_validator_def bind_result_Inr list_with_set_def split: if_splits)
  moreover have "unat i < length (st_validators st)
      \<and> (st_validators a)[unat i := ?v] = (st_validators st)[unat i := ?v]"
    using a by (cases rule: initiate_validator_exitD) simp_all
  ultimately show ?thesis using that [of ?v] st' by simp
qed

abbreviation slashable_at :: "u64 \<Rightarrow> beacon_state \<Rightarrow> nat \<Rightarrow> bool" where
  "slashable_at epoch st j \<equiv> j < length (st_validators st) \<and> is_slashable_validator (st_validators st ! j) epoch"

lemma attester_slashing_fold:
  assumes "fold_try (attester_slashing_step E sha e) is (b, s) = Some (Inr (b', s'))"
  shows "length (st_validators s') = length (st_validators s)
       \<and> (\<forall>j<length (st_validators s). v_slashed (st_validators s' ! j) \<longleftrightarrow>
            v_slashed (st_validators s ! j) \<or> j \<in> unat ` set is \<and> slashable_at e s j)
       \<and> (b' \<longleftrightarrow> b \<or> (\<exists>j \<in> unat ` set is. slashable_at e s j))"
  using assms
proof (induction "is" arbitrary: b s)
  case (Cons i "is")
  obtain b1 s1 where step: "attester_slashing_step E sha e i (b, s) = Some (Inr (b1, s1))"
    and rest: "fold_try (attester_slashing_step E sha e) is (b1, s1) = Some (Inr (b', s'))"
    using Cons.prems by (auto simp: bind_try_Inr)
  note IH = Cons.IH [OF rest]
  show ?case
  proof (cases "slashable_at e s (unat i)")
    case True
    then have b1: "b1" and "slash_validator E sha i None s = Some (Inr s1)"
      using step by (auto simp: attester_slashing_step_def nth_opt_def unwrap_or_def bind_try_Inr)
    then obtain v where v: "v_slashed v" "st_validators s1 = (st_validators s)[unat i := v]"
      by (auto elim: slash_validator_validators)
    have "slashable_at e s1 j \<longleftrightarrow> j \<noteq> unat i \<and> slashable_at e s j" for j
      using v by (cases "j = unat i") (auto simp: is_slashable_validator_def)
    then show ?thesis using IH b1 v True by (auto simp: nth_list_update)
  next
    case False
    then have "b1 = b" "s1 = s"
      using step by (auto simp: attester_slashing_step_def nth_opt_def unwrap_or_def split: if_splits)
    then show ?thesis using IH False by auto
  qed
qed simp

section \<open>Deposit proofs\<close>

lemma merkle_branch_fold:
  "k \<le> length branch \<Longrightarrow>
   fold (merkle_branch_step sha branch index) [k..<length branch] x = branch_root sha (drop k branch) x (drop_bit k index)"
proof (induction "length branch - k" arbitrary: k x)
  case (Suc n)
  then have k: "k < length branch" by linarith
  then have "drop k branch = branch ! k # drop (Suc k) branch" "[k..<length branch] = k # [Suc k..<length branch]"
    by (simp_all add: Cons_nth_drop_Suc upt_conv_Cons)
  moreover have "drop_bit k index div 2 = drop_bit (Suc k) index" by (simp add: drop_bit_Suc drop_bit_half)
  ultimately show ?case
    using Suc.hyps(1) [of "Suc k"] Suc.hyps(2) k by (simp add: merkle_branch_step_def hash_concat_def Let_def)
qed simp

lemma is_valid_merkle_branch_iff:
  "is_valid_merkle_branch sha leaf branch depth index rt \<longleftrightarrow>
     length branch = unat depth \<and> branch_root sha branch leaf index = rt"
  using merkle_branch_fold [of 0 branch sha index leaf] by (auto simp: is_valid_merkle_branch_def)

section \<open>Properties\<close>

text \<open>C14: an attester slashing slashes exactly the provable offenders.  An accepted slashing holds two
  valid, conflicting attestations; it slashes the validators that signed both and were slashable at the
  current epoch, at least one, and nobody else: the two-pointer merge of the sorted index lists is their
  intersection.\<close>

theorem attester_slashing_exact:
  fixes st :: beacon_state
  assumes "process_attester_slashing E cr verify_signatures sl st = Some (Inr st')"
  defines "both \<equiv> unat ` (set (ia_attesting_indices (as_attestation_1 sl))
                            \<inter> set (ia_attesting_indices (as_attestation_2 sl)))"
  shows "is_slashable_attestation_data (ia_data (as_attestation_1 sl)) (ia_data (as_attestation_2 sl))
       \<and> is_valid_indexed_attestation E cr st (as_attestation_1 sl) verify_signatures
       \<and> is_valid_indexed_attestation E cr st (as_attestation_2 sl) verify_signatures
       \<and> length (st_validators st') = length (st_validators st)
       \<and> (\<forall>j<length (st_validators st). v_slashed (st_validators st' ! j) \<longleftrightarrow>
            v_slashed (st_validators st ! j)
            \<or> j \<in> both \<and> is_slashable_validator (st_validators st ! j) (get_current_epoch E st))
       \<and> (\<exists>j<length (st_validators st). \<not> v_slashed (st_validators st ! j) \<and> v_slashed (st_validators st' ! j))"
proof -
  let ?a = "as_attestation_1 sl" and ?b = "as_attestation_2 sl" and ?e = "get_current_epoch E st"
  let ?m = "merge_intersection (ia_attesting_indices ?a) (ia_attesting_indices ?b)"
  have valid: "is_slashable_attestation_data (ia_data ?a) (ia_data ?b)"
    "is_valid_indexed_attestation E cr st ?a verify_signatures"
    "is_valid_indexed_attestation E cr st ?b verify_signatures"
    and run: "fold_try (attester_slashing_step E (cr_sha cr) ?e) ?m (False, st) = Some (Inr (True, st'))"
    using assms(1) by (auto simp: process_attester_slashing_def Let_def bind_try_Inr split: if_splits)
  have "sorted_wrt (<) (ia_attesting_indices ?a)" "sorted_wrt (<) (ia_attesting_indices ?b)"
    using valid by (auto simp: is_valid_indexed_attestation_def strictly_sorted_iff Let_def split: if_splits)
  then have "unat ` set ?m = both" by (simp add: set_merge_intersection both_def)
  with attester_slashing_fold [OF run] have
    "length (st_validators st') = length (st_validators st)"
    "\<forall>j<length (st_validators st). v_slashed (st_validators st' ! j) \<longleftrightarrow>
       v_slashed (st_validators st ! j) \<or> j \<in> both \<and> slashable_at ?e st j"
    "\<exists>j \<in> both. slashable_at ?e st j" by simp_all
  moreover from this have "\<exists>j<length (st_validators st). \<not> v_slashed (st_validators st ! j)
      \<and> v_slashed (st_validators st' ! j)" unfolding is_slashable_validator_def by blast
  ultimately show ?thesis using valid by blast
qed

definition double_vote :: attester_slashing where
  "double_vote = \<lparr>
     as_attestation_1 = \<lparr>ia_attesting_indices = [0, 1], ia_data = at_data sample_attestation, ia_signature = 0\<rparr>,
     as_attestation_2 = \<lparr>ia_attesting_indices = [1, 2],
       ia_data = (at_data sample_attestation)\<lparr>ad_beacon_block_root := 1\<rparr>, ia_signature = 0\<rparr>\<rparr>"

theorem attester_slashing_exact_witness:
  "\<exists>st'. process_attester_slashing minimal_preset sample_crypto False double_vote
            (sample_state 8 [sample_validator, sample_validator]) = Some (Inr st')
       \<and> v_slashed (st_validators st' ! 1) \<and> \<not> v_slashed (st_validators st' ! 0)"
proof -
  let ?st = "sample_state 8 [sample_validator, sample_validator]"
  have "case process_attester_slashing minimal_preset sample_crypto False double_vote ?st of
          Some (Inr st') \<Rightarrow> True | _ \<Rightarrow> False" by code_simp
  then obtain st' where run: "process_attester_slashing minimal_preset sample_crypto False double_vote ?st
      = Some (Inr st')" by (auto split: option.splits sum.splits)
  have "is_slashable_validator sample_validator (get_current_epoch minimal_preset ?st)" by code_simp
  with attester_slashing_exact [OF run] run show ?thesis
    by (fastforce simp: sample_state_def sample_validator_def double_vote_def)
qed

text \<open>C40: the deposit root fixes every deposit.  When two deposits are accepted on states with one
  deposit root and one deposit index, for example by two nodes or on two branches of the chain, they
  credit the same deposit data root, or their proofs exhibit two byte strings with the same digest.\<close>

theorem accepted_deposits_agree:
  assumes "process_deposit E cr vs1 dep1 st1 = Inr st1'" and "process_deposit E cr vs2 dep2 st2 = Inr st2'"
    and "ed_deposit_root (st_eth1_data st1) = ed_deposit_root (st_eth1_data st2)"
    and "st_eth1_deposit_index st1 = st_eth1_deposit_index st2"
  shows "deposit_data_root (cr_sha cr) (dp_data dep1) = deposit_data_root (cr_sha cr) (dp_data dep2)
       \<or> collision_between (cr_sha cr)
           (branch_inputs (cr_sha cr) (dp_proof dep1) (deposit_data_root (cr_sha cr) (dp_data dep1))
              (st_eth1_deposit_index st1))
           (branch_inputs (cr_sha cr) (dp_proof dep2) (deposit_data_root (cr_sha cr) (dp_data dep2))
              (st_eth1_deposit_index st2))"
proof -
  have "length (dp_proof d) = unat (DEPOSIT_CONTRACT_TREE_DEPTH E + 1) \<and>
      branch_root (cr_sha cr) (dp_proof d) (deposit_data_root (cr_sha cr) (dp_data d)) (st_eth1_deposit_index st)
        = ed_deposit_root (st_eth1_data st)"
    if "process_deposit E cr vs d st = Inr st'" for vs d st st'
    using that by (auto simp: process_deposit_def is_valid_merkle_branch_iff Let_def split: if_splits)
  from this [OF assms(1)] this [OF assms(2)] show ?thesis
    using assms(3,4) branch_root_binding [of "dp_proof dep1" "dp_proof dep2" "cr_sha cr"
        "deposit_data_root (cr_sha cr) (dp_data dep1)" "st_eth1_deposit_index st1"
        "deposit_data_root (cr_sha cr) (dp_data dep2)"] by auto
qed

definition sample_deposit :: "u64 \<Rightarrow> deposit" where
  "sample_deposit amount = \<lparr>dp_proof = replicate 33 0,
     dp_data = \<lparr>dd_pubkey = 0, dd_withdrawal_credentials = 0, dd_amount = amount, dd_signature = 0\<rparr>\<rparr>"

theorem accepted_deposits_agree_witness:
  "\<exists>st1 st2. process_deposit minimal_preset sample_crypto True (sample_deposit 1) (sample_state 0 [sample_validator]) = Inr st1
     \<and> process_deposit minimal_preset sample_crypto True (sample_deposit 2) (sample_state 0 [sample_validator]) = Inr st2
     \<and> (deposit_data_root (\<lambda>_. 0) (dp_data (sample_deposit 1)) = deposit_data_root (\<lambda>_. 0) (dp_data (sample_deposit 2))
        \<or> collision_between (\<lambda>_. 0)
            (branch_inputs (\<lambda>_. 0) (replicate 33 0) (deposit_data_root (\<lambda>_. 0) (dp_data (sample_deposit 1))) 0)
            (branch_inputs (\<lambda>_. 0) (replicate 33 0) (deposit_data_root (\<lambda>_. 0) (dp_data (sample_deposit 2))) 0))"
proof -
  let ?run = "\<lambda>n. process_deposit minimal_preset sample_crypto True (sample_deposit n) (sample_state 0 [sample_validator])"
  have zero: "branch_root (\<lambda>_. 0) bs 0 i = 0" for bs i
    by (induction bs arbitrary: i) (simp_all add: hash_concat_def)
  have "replicate 33 (0 :: hash256) = 0 # replicate 32 0" using replicate_Suc [of 32 "0 :: hash256"] by simp
  then have "branch_root (\<lambda>_. 0) (replicate 33 0) x i = 0" for x i by (simp add: hash_concat_def zero)
  then have "\<exists>s. ?run n = Inr s" for n
    by (simp add: process_deposit_def is_valid_merkle_branch_iff sample_crypto_def sample_deposit_def
        sample_state_def sample_validator_def minimal_preset_def apply_deposit_def increment_eth1_deposit_index_def
        increase_balance_def set_balance_def list_with_set_def Let_def)
  then obtain st1 st2 where run: "?run 1 = Inr st1" "?run 2 = Inr st2" by blast
  from accepted_deposits_agree [OF run refl refl] run show ?thesis
    by (auto simp: sample_crypto_def sample_deposit_def sample_state_def)
qed

end
