(* ===== verification/Phase0_Slots.thy ===== *)
theory Phase0_Slots
  imports Phase0_Epoch Phase0_Operations
begin

text \<open>
  Slot processing of phase 0 (\<^verbatim>\<open>src/crates/pharos-stf/src/phase0/slot.rs\<close>).

  \<^verbatim>\<open>process_slots\<close> is a loop whose bound is the slot of the state itself, so it is a partial
  function: \<open>None\<close> is divergence, or a panic of epoch processing.  The lemmas show that it ends, at
  the target slot, that it panics nowhere as long as every pending attestation names an existing
  committee, and that the invariants of the state survive it: its shape, the order of its
  checkpoints, the pending attestations, and the active set up to the activation delay.
\<close>

section \<open>Definitions\<close>

definition process_slot ::
  "preset \<Rightarrow> sha256 \<Rightarrow> root_service \<Rightarrow> beacon_state \<Rightarrow> (state_transition_error, beacon_state) result" where
  "process_slot E sha R st =
     (let previous_state_root = rs_state R st;
          slot_idx = unat (st_slot st mod SLOTS_PER_HISTORICAL_ROOT E)
      in
      bind_result (set_state_root slot_idx previous_state_root st) (\<lambda>st.
      let (previous_block_root, st) =
            (if bh_state_root (st_latest_block_header st) = 0
             then let updated = (st_latest_block_header st)\<lparr>bh_state_root := previous_state_root\<rparr>
                  in (beacon_block_header_root sha updated, set_latest_block_header updated st)
             else (beacon_block_header_root sha (st_latest_block_header st), st))
      in set_block_root slot_idx previous_block_root st))"

definition slots_epoch_error :: "epoch_processing_error \<Rightarrow> state_transition_error" where
  "slots_epoch_error e = (case e of EpochSsz \<Rightarrow> SszError | other \<Rightarrow> EpochProcessing other)"

text \<open>One iteration: the slot, the epoch at its end, the slot number.\<close>

definition slot_iteration ::
  "preset \<Rightarrow> sha256 \<Rightarrow> root_service \<Rightarrow> beacon_state \<Rightarrow> (state_transition_error, beacon_state) result option"
where
  "slot_iteration E sha R st =
     bind_try (Some (process_slot E sha R st)) (\<lambda>st.
     bind_try
       (if (st_slot st + 1) mod SLOTS_PER_EPOCH E = 0
        then map_option (map_err slots_epoch_error) (process_epoch E sha st)
        else Some (Inr st)) (\<lambda>st.
     Some (Inr (set_slot (st_slot st + 1) st))))"

partial_function (option) process_slots_loop ::
  "preset \<Rightarrow> sha256 \<Rightarrow> root_service \<Rightarrow> u64 \<Rightarrow> beacon_state \<Rightarrow>
   (state_transition_error, beacon_state) result option" where
  "process_slots_loop E sha R target_slot st =
     (if st_slot st < target_slot
      then bind_try (slot_iteration E sha R st) (\<lambda>st. process_slots_loop E sha R target_slot st)
      else Some (Inr st))"

declare process_slots_loop.simps [code]

definition process_slots ::
  "preset \<Rightarrow> sha256 \<Rightarrow> root_service \<Rightarrow> u64 \<Rightarrow> beacon_state \<Rightarrow>
   (state_transition_error, beacon_state) result option" where
  "process_slots E sha R target_slot st =
     (if target_slot < st_slot st then Some (Inl (TargetSlotNotAfterCurrent (st_slot st) target_slot))
      else process_slots_loop E sha R target_slot st)"

section \<open>One slot\<close>

lemma process_slotD:
  assumes "process_slot E sha R st = Inr st'"
  shows "\<exists>h. st' = st\<lparr>st_state_roots := (st_state_roots st)[unat (st_slot st mod SLOTS_PER_HISTORICAL_ROOT E) := rs_state R st],
               st_latest_block_header := h,
               st_block_roots := (st_block_roots st)[unat (st_slot st mod SLOTS_PER_HISTORICAL_ROOT E) :=
                                                      beacon_block_header_root sha h]\<rparr>
    \<and> h = (if bh_state_root (st_latest_block_header st) = 0
           then (st_latest_block_header st)\<lparr>bh_state_root := rs_state R st\<rparr> else st_latest_block_header st)"
  using assms
  by (auto simp: process_slot_def Let_def bind_result_Inr set_state_root_def set_block_root_def
      list_with_set_def set_latest_block_header_def split: if_splits)

lemma process_slot_frame:
  assumes "process_slot E sha R st = Inr st'"
  shows "frame E st st'"
  using process_slotD [OF assms] by (auto simp: frame_defs)

text \<open>A well-shaped state never fails here: both indices are in range.\<close>

lemma process_slot_total:
  assumes "state_shape E st" and "0 < SLOTS_PER_HISTORICAL_ROOT E"
  shows "\<exists>st'. process_slot E sha R st = Inr st'"
proof -
  have "unat (st_slot st mod SLOTS_PER_HISTORICAL_ROOT E) < unat (SLOTS_PER_HISTORICAL_ROOT E)"
    using u64_mod_less [OF assms(2), of "st_slot st"] by (simp only: word_less_nat_alt)
  then show ?thesis using assms(1)
    by (simp add: process_slot_def set_state_root_def set_block_root_def list_with_set_def Let_def
        set_latest_block_header_def state_shape_def)
qed

section \<open>Epoch processing does not panic\<close>

text \<open>What the transition needs of a preset; both presets of the program have it.\<close>

definition wf_stf_preset :: "preset \<Rightarrow> bool" where
  "wf_stf_preset E \<longleftrightarrow>
     wf_preset E \<and> (SLOTS_PER_HISTORICAL_ROOT E = 64 \<or> SLOTS_PER_HISTORICAL_ROOT E = 8192) \<and>
     2 * unat (SLOTS_PER_EPOCH E) \<le> unat (SLOTS_PER_HISTORICAL_ROOT E) \<and>
     unat (MAX_COMMITTEES_PER_SLOT E) * unat (SLOTS_PER_EPOCH E) \<le> 2 ^ 20 \<and>
     unat (VALIDATOR_REGISTRY_LIMIT E) \<le> 2 ^ 40 \<and> 4 \<le> unat (EPOCHS_PER_HISTORICAL_VECTOR E) \<and>
     unat (EPOCHS_PER_HISTORICAL_VECTOR E) \<le> 2 ^ 32 \<and>
     MIN_SEED_LOOKAHEAD E = 1 \<and> 0 < unat (MAX_SEED_LOOKAHEAD E) \<and> unat (MAX_SEED_LOOKAHEAD E) \<le> 4 \<and> 8 \<le> unat (SLOTS_PER_EPOCH E)"

lemma wf_stf_mainnet [simp]: "wf_stf_preset mainnet_preset"
  by (simp add: wf_stf_preset_def) (simp add: mainnet_preset_def)

lemma wf_stf_minimal [simp]: "wf_stf_preset minimal_preset"
  by (simp add: wf_stf_preset_def) (simp add: minimal_preset_def)

definition pendings_ok :: "preset \<Rightarrow> beacon_state \<Rightarrow> bool" where
  "pendings_ok E st \<longleftrightarrow> (\<forall>a \<in> pending_atts st. pending_ok E st a)"

lemma mapM_not_None: "(\<And>x. x \<in> set xs \<Longrightarrow> f x \<noteq> None) \<Longrightarrow> mapM f xs \<noteq> None"
  by (induction xs) (auto split: bind_splits)

lemma foldM_not_None: "(\<And>x s. x \<in> set xs \<Longrightarrow> f x s \<noteq> None) \<Longrightarrow> foldM f xs s \<noteq> None"
  by (induction xs arbitrary: s) (auto split: bind_splits)

lemma filterM_not_None: "(\<And>x. x \<in> set xs \<Longrightarrow> f x \<noteq> None) \<Longrightarrow> filterM f xs \<noteq> None"
  by (induction xs) (auto split: option.splits)

lemma registry_capacity:
  assumes "wf_stf_preset E" and "state_shape E st"
  shows "length (st_validators st) * (unat (MAX_COMMITTEES_PER_SLOT E) * unat (SLOTS_PER_EPOCH E)) < 2 ^ 64"
    and "unat (MAX_COMMITTEES_PER_SLOT E) * unat (SLOTS_PER_EPOCH E) < 2 ^ 64"
    and "length (st_validators st) \<le> 2 ^ 40"
proof -
  have n: "length (st_validators st) \<le> 2 ^ 40"
    using assms by (simp only: wf_stf_preset_def state_shape_def) linarith
  have c: "unat (MAX_COMMITTEES_PER_SLOT E) * unat (SLOTS_PER_EPOCH E) \<le> 2 ^ 20"
    using assms(1) by (simp only: wf_stf_preset_def)
  have "length (st_validators st) * (unat (MAX_COMMITTEES_PER_SLOT E) * unat (SLOTS_PER_EPOCH E))
          \<le> 2 ^ 40 * 2 ^ 20"
    by (rule mult_le_mono [OF n c])
  also have "\<dots> < (2 ^ 64 :: nat)" by simp
  finally show "length (st_validators st) * (unat (MAX_COMMITTEES_PER_SLOT E) * unat (SLOTS_PER_EPOCH E)) < 2 ^ 64" .
  have "(2 ^ 20 :: nat) < 2 ^ 64" by simp
  with c show "unat (MAX_COMMITTEES_PER_SLOT E) * unat (SLOTS_PER_EPOCH E) < 2 ^ 64" by (rule le_less_trans)
  from n show "length (st_validators st) \<le> 2 ^ 40" .
qed

lemma attesting_indices_return:
  assumes "wf_stf_preset E" and "state_shape E st" and "pending_ok E st a"
  shows "get_attesting_indices E sha st (pa_data a) bits \<noteq> None"
proof -
  have "wf_preset E" using assms(1) by (simp add: wf_stf_preset_def)
  moreover have "ad_index (pa_data a) < get_committee_count_per_slot E st
      (compute_epoch_at_slot (ad_slot (pa_data a)) (SLOTS_PER_EPOCH E))"
    using assms(3) by (simp add: pending_ok_def Let_def)
  moreover have "length (st_validators st) \<le> 2 ^ 63"
    using registry_capacity(3) [OF assms(1,2)] by simp
  ultimately obtain c where "get_beacon_committee E sha st (ad_slot (pa_data a)) (ad_index (pa_data a)) = Some c"
    using get_beacon_committee_distinct [OF _ _ registry_capacity(1,2) [OF assms(1,2)]] by blast
  then show ?thesis by (simp add: get_attesting_indices_def)
qed

lemma unslashed_return:
  assumes "wf_stf_preset E" and "state_shape E st" and "pendings_ok E st" and "set atts \<subseteq> pending_atts st"
  shows "get_unslashed_attesting_indices E sha st atts \<noteq> None"
proof -
  have "mapM (\<lambda>a. get_attesting_indices E sha st (pa_data a) (pa_aggregation_bits a)) atts \<noteq> None"
    using assms by (intro mapM_not_None attesting_indices_return) (auto simp: pendings_ok_def)
  then show ?thesis by (auto simp: get_unslashed_attesting_indices_def)
qed

lemma matching_source_subset:
  "get_matching_source_attestations E st e = Inr atts \<Longrightarrow> set atts \<subseteq> pending_atts st"
  by (auto simp: get_matching_source_attestations_def pending_atts_def Let_def split: if_splits)

lemma matching_target_subset:
  "get_matching_target_attestations E st e = Inr atts \<Longrightarrow> set atts \<subseteq> pending_atts st"
  by (auto simp: get_matching_target_attestations_def bind_result_Inr split: if_splits
      dest!: matching_source_subset)

lemma matching_head_subset:
  assumes "get_matching_head_attestations E st e = Inr atts"
  shows "set atts \<subseteq> pending_atts st"
proof -
  obtain target where t: "get_matching_target_attestations E st e = Inr target" and f:
    "foldE (\<lambda>a result. bind_result (map_err (\<lambda>_. BlockRootUnavailable)
        (get_block_root_at_slot E st (ad_slot (pa_data a)))) (\<lambda>slot_root.
        Inr (if ad_beacon_block_root (pa_data a) = slot_root then result @ [a] else result))) target [] = Inr atts"
    using assms unfolding get_matching_head_attestations_def bind_result_Inr [of "get_matching_target_attestations E st e"]
    by blast
  from f show ?thesis
    by (rule foldE_invariant [where P = "\<lambda>r. set r \<subseteq> pending_atts st"])
      (use matching_target_subset [OF t] in \<open>auto simp: bind_result_Inr split: if_splits\<close>)
qed

lemmas matching_subset = matching_source_subset matching_target_subset matching_head_subset

lemma justification_returns:
  assumes "wf_stf_preset E" and "state_shape E st" and "pendings_ok E st"
  shows "process_justification_and_finalization E sha st \<noteq> None"
proof
  assume "process_justification_and_finalization E sha st = None"
  then obtain e atts where "get_matching_target_attestations E st e = Inr atts"
      "get_unslashed_attesting_indices E sha st atts = None"
    by (auto simp: process_justification_and_finalization_def Let_def bind_try_None get_attesting_balance_def
        Option.bind_eq_None_conv split: if_splits)
  then show False using unslashed_return [OF assms matching_target_subset] by blast
qed

lemma component_deltas_return:
  assumes "wf_stf_preset E" and "state_shape E st" and "pendings_ok E st"
    and "\<And>atts. matching = Inr atts \<Longrightarrow> set atts \<subseteq> pending_atts st"
  shows "component_deltas_of E sha st matching \<noteq> None"
proof (cases matching)
  case (Inr atts)
  then obtain us where "get_unslashed_attesting_indices E sha st atts = Some us"
    using unslashed_return [OF assms(1-3) assms(4)] by blast
  then show ?thesis
    by (simp add: component_deltas_of_def Inr get_attestation_component_deltas_def Let_def split: prod.splits)
qed (simp add: component_deltas_of_def)

lemma inclusion_deltas_return:
  assumes "wf_stf_preset E" and "state_shape E st" and "pendings_ok E st"
  shows "get_inclusion_delay_deltas E sha st \<noteq> None"
proof (cases "get_matching_source_attestations E st (get_previous_epoch E st)")
  case (Inr atts)
  note sub = matching_source_subset [OF Inr]
  obtain us where us: "get_unslashed_attesting_indices E sha st atts = Some us"
    using unslashed_return [OF assms sub] by blast
  have "filterM (\<lambda>a. map_option (\<lambda>ixs. index \<in> set ixs)
          (get_attesting_indices E sha st (pa_data a) (pa_aggregation_bits a))) atts \<noteq> None" for index
    using attesting_indices_return [OF assms(1,2)] sub assms(3)
    by (intro filterM_not_None) (auto simp: pendings_ok_def)
  then have "inclusion_step E sha st atts sq index rewards \<noteq> None" for sq index rewards
    unfolding inclusion_step_def by (auto split: bind_splits)
  then have "foldM (inclusion_step E sha st atts sq) us rewards \<noteq> None" for sq rewards
    by (rule foldM_not_None)
  then show ?thesis using us Inr
    by (auto simp: get_inclusion_delay_deltas_def Let_def split: bind_splits)
qed (simp add: get_inclusion_delay_deltas_def)

lemma rewards_return:
  assumes "wf_stf_preset E" and "state_shape E st" and "pendings_ok E st"
  shows "process_rewards_and_penalties E sha st \<noteq> None"
proof -
  have "get_inactivity_penalty_deltas E sha st \<noteq> None"
  proof
    assume "get_inactivity_penalty_deltas E sha st = None"
    then obtain atts where "get_matching_target_attestations E st (get_previous_epoch E st) = Inr atts"
        "get_unslashed_attesting_indices E sha st atts = None"
      by (auto simp: get_inactivity_penalty_deltas_def Let_def bind_try_None Option.bind_eq_None_conv
          split: if_splits)
    then show False using unslashed_return [OF assms matching_target_subset] by blast
  qed
  moreover have "get_source_deltas E sha st \<noteq> None" "get_target_deltas E sha st \<noteq> None"
    "get_head_deltas E sha st \<noteq> None"
    unfolding get_source_deltas_def get_target_deltas_def get_head_deltas_def
    using matching_subset by (intro component_deltas_return [OF assms]; blast)+
  ultimately have "get_attestation_deltas E sha st \<noteq> None"
    using inclusion_deltas_return [OF assms]
    by (auto simp: get_attestation_deltas_def Let_def bind_try_None simp del: not_None_eq)
  then show ?thesis
    by (auto simp: process_rewards_and_penalties_def bind_try_None Let_def simp del: not_None_eq
        split: prod.splits)
qed

lemma length_pack_bytes: "length (pack_bytes_to_chunks bs) \<le> length bs"
proof (induction bs rule: pack_bytes_to_chunks.induct)
  case (2 b bs)
  then show ?case by simp
qed simp

lemma roots_vector_root_returns:
  assumes "length rs = unat N" and "unat N \<le> 8192"
  shows "roots_vector_root sha N rs \<noteq> None"
proof -
  let ?bs = "pack_basic_elems_bytes (hash256_elem sha) rs"
  have "length ?bs = 32 * length rs"
    by (simp add: pack_basic_elems_bytes_def hash256_elem_def length_concat o_def sum_list_triv)
  then have "length (pack_bytes_to_chunks ?bs) \<le> 32 * 8192"
    using length_pack_bytes [of ?bs] assms by linarith
  also have "\<dots> \<le> (2 ^ 63 :: nat)" by simp
  finally obtain r where "merkleize sha (pack_bytes_to_chunks ?bs) = Some r"
    using merkleize_small by blast
  then show ?thesis using assms(1)
    by (simp add: roots_vector_root_def ssz_vector_from_vec_def ssz_vector_tree_hash_root_def hash256_elem_def)
qed

lemma historical_roots_return:
  assumes "wf_stf_preset E" and "state_shape E st"
  shows "process_historical_roots_update E sha st \<noteq> None"
proof -
  let ?n = "SLOTS_PER_HISTORICAL_ROOT E"
  have n: "unat ?n \<le> 8192" "?n = 8192 \<or> ?n = 64"
    using assms(1) by (auto simp: wf_stf_preset_def)
  obtain b where b: "roots_vector_root sha ?n (st_block_roots st) = Some b"
    using roots_vector_root_returns [of "st_block_roots st" ?n sha] n(1) assms(2) by (auto simp: state_shape_def)
  obtain s where s: "roots_vector_root sha ?n (st_state_roots st) = Some s"
    using roots_vector_root_returns [of "st_state_roots st" ?n sha] n(1) assms(2) by (auto simp: state_shape_def)
  have "compute_historical_batch_root E sha st = Some (container_root sha [b, s])"
    using n(2) b s by (simp add: compute_historical_batch_root_def)
  then show ?thesis
    by (auto simp: process_historical_roots_update_def Let_def)
qed

lemma pendings_ok_evolves:
  assumes "evolves E st st'" and "epoch_bound E st" and "pendings_ok E st"
  shows "pendings_ok E st'"
  using assms(3) evolves_pending [OF assms(1,2)] by (auto simp: pendings_ok_def)

lemma frame_evolves: "frame E st st' \<Longrightarrow> evolves E st st'"
  by (simp add: frame_def)

lemma evolves_shape: "evolves E st st' \<Longrightarrow> state_shape E st \<Longrightarrow> state_shape E st'"
  by (simp add: evolves_def)

text \<open>Panics are absent; what remains are errors, which abort the transition.\<close>

lemma process_epoch_returns:
  assumes "wf_stf_preset E" and "state_shape E st" and "pendings_ok E st" and "epoch_bound E st"
  shows "process_epoch E sha st \<noteq> None"
proof
  assume "process_epoch E sha st = None"
  define tail where "tail = (\<lambda>st. bind_try (process_rewards_and_penalties E sha st) (\<lambda>st.
     bind_try (Some (process_registry_updates E st)) (\<lambda>st.
     bind_try (Some (process_slashings E st)) (\<lambda>st.
     bind_try (Some (process_eth1_data_reset E st)) (\<lambda>st.
     bind_try (Some (process_effective_balance_updates E st)) (\<lambda>st.
     bind_try (Some (process_slashings_reset E st)) (\<lambda>st.
     bind_try (Some (process_randao_mixes_reset E st)) (\<lambda>st.
     bind_try (process_historical_roots_update E sha st) (\<lambda>st.
     Some (process_participation_record_updates E st))))))))))"
  have "process_epoch E sha st = bind_try (process_justification_and_finalization E sha st) tail"
    by (simp only: process_epoch_def tail_def)
  with \<open>process_epoch E sha st = None\<close> justification_returns [OF assms(1-3), of sha] obtain u where
    u: "process_justification_and_finalization E sha st = Some (Inr u)" and rest: "tail u = None"
    by (auto simp: bind_try_None simp del: not_None_eq)
  have "length (st_justification_bits st) = 4" using assms(2) by (simp add: state_shape_def)
  note evo = justification_evolves(1) [OF u this]
  note inv = evolves_shape [OF evo assms(2)] pendings_ok_evolves [OF evo assms(4,3)]
  from rest rewards_return [OF assms(1) inv, of sha] obtain v where
    "frame E u v" "process_historical_roots_update E sha v = None"
    unfolding tail_def
    by (auto simp: bind_try_None simp del: not_None_eq dest!: epoch_frames) (meson fra.trans)
  then show False using historical_roots_return [OF assms(1)] evolves_shape [OF frame_evolves inv(1)] by blast
qed

section \<open>The invariant of a state\<close>

definition state_inv :: "preset \<Rightarrow> beacon_state \<Rightarrow> bool" where
  "state_inv E st \<longleftrightarrow> state_shape E st \<and> checkpoints_ordered E st \<and> pendings_ok E st"

text \<open>
  Two states of one chain: the slot and the two checkpoints that matter only grow, the registry
  evolves from the activation delay of the first on, and randao mixes change only at the epochs in
  between.
\<close>

definition mixes_range :: "preset \<Rightarrow> nat \<Rightarrow> nat \<Rightarrow> hash256 list \<Rightarrow> hash256 list \<Rightarrow> bool" where
  "mixes_range E lo hi ms ms' \<longleftrightarrow>
     length ms' = length ms \<and>
     (\<forall>j. (\<forall>x. lo \<le> x \<longrightarrow> x \<le> hi \<longrightarrow> j \<noteq> x mod unat (EPOCHS_PER_HISTORICAL_VECTOR E)) \<longrightarrow> ms' ! j = ms ! j)"

definition advances :: "preset \<Rightarrow> beacon_state \<Rightarrow> beacon_state \<Rightarrow> bool" where
  "advances E st st' \<longleftrightarrow>
     st_slot st \<le> st_slot st' \<and>
     cp_epoch (st_finalized_checkpoint st) \<le> cp_epoch (st_finalized_checkpoint st') \<and>
     cp_epoch (st_current_justified_checkpoint st) \<le> cp_epoch (st_current_justified_checkpoint st') \<and>
     registry_evolves (delay_epoch E st) (st_validators st) (st_validators st') \<and>
     mixes_range E (unat (get_current_epoch E st)) (unat (get_current_epoch E st') + 1)
       (st_randao_mixes st) (st_randao_mixes st')"

lemma mixes_range_trans:
  assumes "mixes_range E a b ls ms" and "mixes_range E c d ms ns" and "a \<le> c" and "b \<le> d"
  shows "mixes_range E a d ls ns"
  using assms unfolding mixes_range_def by (metis le_trans)

lemma validator_evolves_mono: "validator_evolves d' v v' \<Longrightarrow> d \<le> d' \<Longrightarrow> validator_evolves d v v'"
  by (auto simp: validator_evolves_def)

lemma registry_evolves_mono: "registry_evolves d' vs vs' \<Longrightarrow> d \<le> d' \<Longrightarrow> registry_evolves d vs vs'"
  by (fastforce simp: registry_evolves_def intro: validator_evolves_mono)

lemma epoch_mono: "st_slot st \<le> st_slot st' \<Longrightarrow> get_current_epoch E st \<le> get_current_epoch E st'"
  by (simp add: get_current_epoch_def compute_epoch_at_slot_def word_le_nat_alt unat_div div_le_mono)

lemma delay_epoch_mono:
  assumes "st_slot st \<le> st_slot st'" and "epoch_bound E st'"
  shows "delay_epoch E st \<le> delay_epoch E st'"
proof -
  have le: "unat (get_current_epoch E st) \<le> unat (get_current_epoch E st')"
    using epoch_mono [OF assms(1), of E] by (simp only: word_le_nat_alt)
  then have "epoch_bound E st" using assms(2) unfolding epoch_bound_def by linarith
  then show ?thesis using le assms(2) unat_activation_exit_epoch unfolding epoch_bound_def
    by (simp only: word_le_nat_alt)
qed

lemma epoch_bound_mono: "epoch_bound E st' \<Longrightarrow> st_slot st \<le> st_slot st' \<Longrightarrow> epoch_bound E st"
  using epoch_mono [of st st' E] unfolding epoch_bound_def word_le_nat_alt by linarith

lemma advances_trans:
  assumes "advances E r s" and "advances E s t" and "epoch_bound E s"
  shows "advances E r t"
proof -
  have le: "st_slot r \<le> st_slot s" "st_slot s \<le> st_slot t" using assms by (simp_all add: advances_def)
  have "registry_evolves (delay_epoch E r) (st_validators s) (st_validators t)"
    using assms(2) delay_epoch_mono [OF le(1) assms(3)] registry_evolves_mono by (auto simp: advances_def)
  then have "registry_evolves (delay_epoch E r) (st_validators r) (st_validators t)"
    using assms(1) registry_evolves_trans by (auto simp: advances_def)
  moreover have "mixes_range E (unat (get_current_epoch E r)) (unat (get_current_epoch E t) + 1)
      (st_randao_mixes r) (st_randao_mixes t)"
  proof (rule mixes_range_trans)
    show "mixes_range E (unat (get_current_epoch E r)) (unat (get_current_epoch E s) + 1)
        (st_randao_mixes r) (st_randao_mixes s)"
      "mixes_range E (unat (get_current_epoch E s)) (unat (get_current_epoch E t) + 1)
        (st_randao_mixes s) (st_randao_mixes t)" using assms(1,2) by (simp_all only: advances_def)
    show "unat (get_current_epoch E r) \<le> unat (get_current_epoch E s)"
      using epoch_mono [OF le(1), of E] by (simp only: word_le_nat_alt)
    show "unat (get_current_epoch E s) + 1 \<le> unat (get_current_epoch E t) + 1"
      using epoch_mono [OF le(2), of E] by (simp only: word_le_nat_alt add_le_mono1)
  qed
  ultimately show ?thesis using assms(1,2) unfolding advances_def by (auto intro: order_trans)
qed

lemma advances_refl: "advances E st st"
  by (simp add: advances_def registry_evolves_refl mixes_range_def)

lemma mixes_kept_range:
  assumes "mixes_kept E e ms ms'" and "unat e + 1 < 2 ^ 64"
  shows "mixes_range E (unat e) (unat e + 1) ms ms'"
proof -
  have "unat (e + 1) = unat e + 1" using assms(2) by (rule unat_Suc_u64)
  then have m: "unat (e mod N) = unat e mod unat N" "unat ((e + 1) mod N) = (unat e + 1) mod unat N" for N
    by (simp_all only: unat_mod)
  show ?thesis unfolding mixes_range_def
  proof (intro conjI allI impI)
    show "length ms' = length ms" using assms(1) by (simp add: mixes_kept_def)
  next
    fix j assume j: "\<forall>x. unat e \<le> x \<longrightarrow> x \<le> unat e + 1 \<longrightarrow> j \<noteq> x mod unat (EPOCHS_PER_HISTORICAL_VECTOR E)"
    have "j \<noteq> unat e mod unat (EPOCHS_PER_HISTORICAL_VECTOR E)"
      "j \<noteq> (unat e + 1) mod unat (EPOCHS_PER_HISTORICAL_VECTOR E)" using j by simp_all
    then show "ms' ! j = ms ! j" using assms(1) unfolding mixes_kept_def m by blast
  qed
qed

section \<open>One iteration\<close>

lemma evolves_advances:
  assumes "evolves E st u" and "epoch_bound E st"
    and "cp_epoch (st_finalized_checkpoint st) \<le> cp_epoch (st_finalized_checkpoint u)"
    and "cp_epoch (st_current_justified_checkpoint st) \<le> cp_epoch (st_current_justified_checkpoint u)"
  shows "advances E st u"
proof -
  have "unat (get_current_epoch E st) + 1 < 2 ^ 64" using assms(2) unfolding epoch_bound_def by linarith
  then have "mixes_range E (unat (get_current_epoch E st)) (unat (get_current_epoch E st) + 1)
      (st_randao_mixes st) (st_randao_mixes u)"
    using assms(1) by (intro mixes_kept_range) (simp_all add: evolves_def)
  then show ?thesis
    using assms evolves_epoch [OF assms(1)] by (simp add: advances_def evolves_def)
qed

lemma frame_advances: "frame E st u \<Longrightarrow> epoch_bound E st \<Longrightarrow> advances E st u"
  by (rule evolves_advances) (simp_all add: frame_def)

lemma frame_inv:
  assumes "frame E st u" and "epoch_bound E st" and "state_inv E st"
  shows "state_inv E u"
proof -
  have "get_previous_epoch E u = get_previous_epoch E st"
    using evolves_epoch [of E st u] assms(1) by (simp add: frame_def get_previous_epoch_def)
  then show ?thesis
    using assms pendings_ok_evolves [of E st u] evolves_shape [of E st u]
    by (auto simp: state_inv_def checkpoints_ordered_def frame_def)
qed

lemma slot_of_set_slot [simp]: "st_slot (set_slot slot st) = slot"
  by (simp add: set_slot_def)

text \<open>The next slot: its epoch is the next one exactly after a boundary.\<close>

lemma next_slot_epoch:
  assumes "unat (st_slot st) + 1 < 2 ^ 64"
  shows "unat (get_current_epoch E (set_slot (st_slot st + 1) st)) =
           unat (get_current_epoch E st) + (if (st_slot st + 1) mod SLOTS_PER_EPOCH E = 0 then 1 else 0)"
proof -
  let ?n = "unat (SLOTS_PER_EPOCH E)" and ?s = "unat (st_slot st)"
  have s: "unat (st_slot st + 1) = Suc ?s" using unat_Suc_u64 [OF assms] by simp
  have "(st_slot st + 1) mod SLOTS_PER_EPOCH E = 0 \<longleftrightarrow> Suc ?s mod ?n = 0"
    using unat_eq_zero [of "(st_slot st + 1) mod SLOTS_PER_EPOCH E"] unfolding unat_mod s by (rule sym)
  moreover have "unat (get_current_epoch E (set_slot (st_slot st + 1) st)) = Suc ?s div ?n"
    "unat (get_current_epoch E st) = ?s div ?n"
    by (simp_all only: get_current_epoch_def compute_epoch_at_slot_def slot_of_set_slot unat_div s)
  ultimately show ?thesis by (simp add: div_Suc)
qed

lemma set_slot_inv:
  assumes "state_shape E st" and "pendings_ok E st" and "unat (st_slot st) + 1 < 2 ^ 64"
    and "cp_epoch (st_finalized_checkpoint st) \<le> cp_epoch (st_previous_justified_checkpoint st)"
    and "cp_epoch (st_previous_justified_checkpoint st) \<le> cp_epoch (st_current_justified_checkpoint st)"
    and "cp_epoch (st_current_justified_checkpoint st) \<le>
           (if (st_slot st + 1) mod SLOTS_PER_EPOCH E = 0 then get_current_epoch E st else get_previous_epoch E st)"
  shows "state_inv E (set_slot (st_slot st + 1) st)"
proof -
  let ?t = "set_slot (st_slot st + 1) st"
  note e = next_slot_epoch [OF assms(3), of E]
  have le: "get_current_epoch E st \<le> get_current_epoch E ?t" using e by (simp add: word_le_nat_alt)
  have "pendings_ok E ?t" unfolding pendings_ok_def
  proof
    fix a assume "a \<in> pending_atts ?t"
    then have "pending_ok E st a" using assms(2) by (simp add: pendings_ok_def pending_atts_def set_slot_def)
    then show "pending_ok E ?t a" using le
      by (auto simp: pending_ok_def Let_def set_slot_def get_committee_count_per_slot_def
          get_active_validator_indices_def)
  qed
  moreover have "cp_epoch (st_current_justified_checkpoint st) \<le> get_previous_epoch E ?t"
  proof (cases "(st_slot st + 1) mod SLOTS_PER_EPOCH E = 0")
    case True
    then have s: "unat (get_current_epoch E ?t) = unat (get_current_epoch E st) + 1" using e by simp
    then have "get_current_epoch E ?t \<noteq> 0" by auto
    then have "unat (get_previous_epoch E ?t) = unat (get_current_epoch E st)"
      using s unat_minus_one [of "get_current_epoch E ?t"]
      by (simp add: get_previous_epoch_def Let_def GENESIS_EPOCH_def)
    then show ?thesis using assms(6) True by (simp add: word_le_nat_alt)
  next
    case False
    then have "get_current_epoch E ?t = get_current_epoch E st" using e by (simp add: word_unat_eq_iff)
    then show ?thesis using assms(6) False by (simp add: get_previous_epoch_def)
  qed
  ultimately show ?thesis
    using assms(1,4,5) by (simp add: state_inv_def checkpoints_ordered_def set_slot_def state_shape_def)
qed

lemma slot_iterationD:
  assumes "slot_iteration E sha R st = Some (Inr st')"
  obtains a u where "process_slot E sha R st = Inr a" "frame E st a" "st_slot a = st_slot st"
    "if (st_slot st + 1) mod SLOTS_PER_EPOCH E = 0 then process_epoch E sha a = Some (Inr u) else u = a"
    "st' = set_slot (st_slot u + 1) u"
proof -
  from assms obtain a u where a: "process_slot E sha R st = Inr a"
    and u: "(if (st_slot a + 1) mod SLOTS_PER_EPOCH E = 0
             then map_option (map_err slots_epoch_error) (process_epoch E sha a)
             else Some (Inr a)) = Some (Inr u)"
    and st': "st' = set_slot (st_slot u + 1) u"
    by (auto simp: slot_iteration_def bind_try_Inr)
  have f: "frame E st a" using a by (rule process_slot_frame)
  then have "st_slot a = st_slot st" by (simp add: frame_def evolves_def)
  with that [OF a f this _ st'] u show ?thesis by (auto split: if_splits)
qed

lemma process_epoch_evolves:
  assumes "process_epoch E sha st = Some (Inr st')" and "state_inv E st" and "epoch_bound E st"
  shows "evolves E st st'" and "advances E st st'"
    and "cp_epoch (st_finalized_checkpoint st') \<le> cp_epoch (st_previous_justified_checkpoint st')"
    and "cp_epoch (st_previous_justified_checkpoint st') \<le> cp_epoch (st_current_justified_checkpoint st')"
    and "cp_epoch (st_current_justified_checkpoint st') \<le> get_current_epoch E st"
proof -
  obtain u where u: "process_justification_and_finalization E sha st = Some (Inr u)" "frame E u st'"
    using process_epoch_split [OF assms(1)] by blast
  have b: "length (st_justification_bits st) = 4" and o: "checkpoints_ordered E st"
    using assms(2) by (simp_all add: state_inv_def state_shape_def)
  have "evolves E u st'" using u(2) by (rule frame_evolves)
  with justification_evolves(1) [OF u(1) b] show evo: "evolves E st st'" by (rule evo.trans)
  have "cp_epoch (st_finalized_checkpoint st) \<le> cp_epoch (st_finalized_checkpoint u)
    \<and> cp_epoch (st_current_justified_checkpoint st) \<le> cp_epoch (st_current_justified_checkpoint u)
    \<and> cp_epoch (st_finalized_checkpoint u) \<le> cp_epoch (st_previous_justified_checkpoint u)
    \<and> cp_epoch (st_previous_justified_checkpoint u) \<le> cp_epoch (st_current_justified_checkpoint u)
    \<and> cp_epoch (st_current_justified_checkpoint u) \<le> get_current_epoch E st"
    using justification_orders [OF u(1) b o] by blast
  then show "cp_epoch (st_finalized_checkpoint st') \<le> cp_epoch (st_previous_justified_checkpoint st')"
    "cp_epoch (st_previous_justified_checkpoint st') \<le> cp_epoch (st_current_justified_checkpoint st')"
    "cp_epoch (st_current_justified_checkpoint st') \<le> get_current_epoch E st"
    "advances E st st'"
    using u(2) evolves_advances [OF evo assms(3)] by (simp_all add: frame_def)
qed

text \<open>An iteration advances the state by one slot and keeps its invariant.\<close>

lemma slot_iteration_inv:
  assumes "slot_iteration E sha R st = Some (Inr st')" and "state_inv E st" and "epoch_bound E st"
    and "unat (st_slot st) + 1 < 2 ^ 64"
  shows "state_inv E st'" and "st_slot st' = st_slot st + 1" and "advances E st st'"
proof -
  obtain a u where a: "frame E st a" "st_slot a = st_slot st"
    and u: "if (st_slot st + 1) mod SLOTS_PER_EPOCH E = 0 then process_epoch E sha a = Some (Inr u) else u = a"
    and st': "st' = set_slot (st_slot u + 1) u"
    using slot_iterationD [OF assms(1)] by blast
  note ia = frame_inv [OF a(1) assms(3,2)]
  have ea: "epoch_bound E a" using assms(3) a(2) by (simp add: epoch_bound_def get_current_epoch_def)
  have u': "evolves E a u \<and> advances E a u
    \<and> cp_epoch (st_finalized_checkpoint u) \<le> cp_epoch (st_previous_justified_checkpoint u)
    \<and> cp_epoch (st_previous_justified_checkpoint u) \<le> cp_epoch (st_current_justified_checkpoint u)
    \<and> cp_epoch (st_current_justified_checkpoint u) \<le>
        (if (st_slot st + 1) mod SLOTS_PER_EPOCH E = 0 then get_current_epoch E a else get_previous_epoch E a)"
  proof (cases "(st_slot st + 1) mod SLOTS_PER_EPOCH E = 0")
    case True
    then show ?thesis using u process_epoch_evolves [OF _ ia ea] by simp
  next
    case False
    then show ?thesis using u ia by (simp add: evo.refl advances_refl state_inv_def checkpoints_ordered_def)
  qed
  then have su: "st_slot u = st_slot st" using a(2) by (simp add: evolves_def)
  have "get_current_epoch E u = get_current_epoch E a" "get_previous_epoch E u = get_previous_epoch E a"
    using su a(2) by (simp_all add: get_current_epoch_def get_previous_epoch_def)
  moreover have "state_shape E u" "pendings_ok E u"
    using u' ia ea evolves_shape pendings_ok_evolves by (auto simp: state_inv_def)
  ultimately have "state_inv E (set_slot (st_slot u + 1) u)"
    using u' assms(4) su by (intro set_slot_inv) (simp_all split: if_splits)
  then show "state_inv E st'" by (simp add: st')
  show "st_slot st' = st_slot st + 1" by (simp add: st' su)
  have "advances E st u" using frame_advances [OF a(1) assms(3)] u' ea advances_trans by blast
  moreover have "st_slot u \<le> st_slot u + 1"
    using unat_Suc_u64 [of "st_slot u"] assms(4) su by (simp add: word_le_nat_alt)
  ultimately show "advances E st st'"
    using epoch_mono [of u st' E] unfolding st' advances_def
    by (auto simp: set_slot_def mixes_range_def word_le_nat_alt)
qed

lemma slot_iteration_returns:
  assumes "wf_stf_preset E" and "state_inv E st" and "epoch_bound E st"
  shows "slot_iteration E sha R st \<noteq> None"
proof -
  have "0 < SLOTS_PER_HISTORICAL_ROOT E" using assms(1) by (auto simp: wf_stf_preset_def)
  then obtain a where a: "process_slot E sha R st = Inr a"
    using process_slot_total assms(2) unfolding state_inv_def by blast
  then have f: "frame E st a" by (rule process_slot_frame)
  then have "epoch_bound E a" using assms(3) evolves_epoch [of E st a] by (simp add: frame_def epoch_bound_def)
  with frame_inv [OF f assms(3,2)] have "process_epoch E sha a \<noteq> None"
    using assms(1) by (intro process_epoch_returns) (simp_all add: state_inv_def)
  then show ?thesis using a
    by (auto simp: slot_iteration_def map_err_def split: sum.splits)
qed

text \<open>The error of a target in the past is raised by the guard of \<^verbatim>\<open>process_slots\<close> only.\<close>

lemma slot_iteration_error:
  "slot_iteration E sha R st = Some (Inl e) \<Longrightarrow> e \<noteq> TargetSlotNotAfterCurrent a b"
  by (auto simp: slot_iteration_def bind_try_def process_slot_def set_state_root_def set_block_root_def
      list_with_set_def bind_result_def map_err_def slots_epoch_error_def Let_def
      split: if_splits option.splits sum.splits epoch_processing_error.splits)

section \<open>The loop\<close>

definition slot_bound :: "preset \<Rightarrow> u64 \<Rightarrow> bool" where
  "slot_bound E s \<longleftrightarrow> unat (compute_epoch_at_slot s (SLOTS_PER_EPOCH E)) + 1 + unat (MAX_SEED_LOOKAHEAD E) < 2 ^ 64"

text \<open>An epoch has at least eight slots, so the epoch of any 64-bit slot leaves that room.\<close>

lemma epoch_room:
  assumes "wf_stf_preset E"
  shows "unat (compute_epoch_at_slot s (SLOTS_PER_EPOCH E)) < 2 ^ 61"
proof -
  have "unat s div unat (SLOTS_PER_EPOCH E) \<le> unat s div 8"
    using assms by (intro div_le_mono2) (auto simp: wf_stf_preset_def)
  also have "\<dots> < 2 ^ 61" using u64_less_bound [of s] by (simp del: u64_less_bound add: less_mult_imp_div_less)
  finally show ?thesis by (simp only: compute_epoch_at_slot_def unat_div)
qed

lemma slot_bound_all:
  assumes "wf_stf_preset E"
  shows "slot_bound E s"
proof -
  have "unat (MAX_SEED_LOOKAHEAD E) \<le> 4" using assms by (simp add: wf_stf_preset_def)
  then show ?thesis using epoch_room [OF assms, of s] by (simp add: slot_bound_def)
qed

lemma slot_bound_epoch:
  assumes "slot_bound E s" and "st_slot st \<le> s"
  shows "epoch_bound E st"
  using assms epoch_mono [of st "st\<lparr>st_slot := s\<rparr>" E]
  by (simp add: slot_bound_def epoch_bound_def get_current_epoch_def word_le_nat_alt)

lemma process_slots_loop_ends:
  assumes "wf_stf_preset E" and "state_inv E st" and "slot_bound E t" and "st_slot st \<le> t"
  shows "\<exists>r. process_slots_loop E sha R t st = Some r \<and>
           (\<forall>a b. r \<noteq> Inl (TargetSlotNotAfterCurrent a b)) \<and>
           (\<forall>st'. r = Inr st' \<longrightarrow> st_slot st' = t \<and> state_inv E st' \<and> advances E st st')"
  using assms(2,4)
proof (induction "unat t - unat (st_slot st)" arbitrary: st rule: less_induct)
  case less
  note unf = process_slots_loop.simps [of E sha R t st]
  show ?case
  proof (cases "st_slot st < t")
    case False
    then show ?thesis using less.prems unf advances_refl by auto
  next
    case True
    then have lt: "unat (st_slot st) < unat t" by (simp only: word_less_nat_alt)
    have eb: "epoch_bound E st" using assms(3) less.prems(2) by (rule slot_bound_epoch)
    obtain r where r: "slot_iteration E sha R st = Some r"
      using slot_iteration_returns [OF assms(1) less.prems(1) eb] by blast
    show ?thesis
    proof (cases r)
      case (Inl e)
      then show ?thesis using unf r True slot_iteration_error [of E sha R st e] by simp
    next
      case (Inr a)
      have nw: "unat (st_slot st) + 1 < 2 ^ 64" using lt u64_less_bound [of t] by (simp del: u64_less_bound)
      note a = slot_iteration_inv [OF r [unfolded Inr] less.prems(1) eb nw]
      have ua: "unat (st_slot a) = unat (st_slot st) + 1" unfolding a(2) using nw by (rule unat_Suc_u64)
      then have sa: "st_slot a \<le> t" using lt by (simp add: word_le_nat_alt)
      have "unat t - unat (st_slot a) < unat t - unat (st_slot st)" using ua lt by linarith
      from less.hyps [OF this a(1) sa] obtain r' where r': "process_slots_loop E sha R t a = Some r'" "\<forall>a b. r' \<noteq> Inl (TargetSlotNotAfterCurrent a b)"
        "\<forall>st'. r' = Inr st' \<longrightarrow> st_slot st' = t \<and> state_inv E st' \<and> advances E a st'"
        by blast
      have "epoch_bound E a" using assms(3) sa by (rule slot_bound_epoch)
      then have "\<forall>st'. r' = Inr st' \<longrightarrow> advances E st st'"
        using r'(3) a(3) advances_trans by blast
      then show ?thesis using unf r Inr True r' by simp
    qed
  qed
qed

lemma process_slots_ends:
  assumes "wf_stf_preset E" and "state_inv E st"
  shows "process_slots E sha R t st \<noteq> None"
    and "process_slots E sha R t st = Some (Inl (TargetSlotNotAfterCurrent a b)) \<longleftrightarrow>
           t < st_slot st \<and> a = st_slot st \<and> b = t"
    and "process_slots E sha R t st = Some (Inr st') \<Longrightarrow> st_slot st' = t \<and> state_inv E st' \<and> advances E st st'"
  using process_slots_loop_ends [OF assms slot_bound_all [OF assms(1)], of t sha R]
  by (auto simp: process_slots_def not_less split: if_splits)

section \<open>Properties\<close>

text \<open>C3: advancing a state to a slot always ends.  From a state with the invariant, for every target
  slot of 64 bits, \<^verbatim>\<open>process_slots\<close> neither runs forever nor
  panics, in epoch processing or elsewhere: it refuses the target with the error that names both
  slots exactly when it lies before the slot of the state, and a state it accepts is at the target slot, has the
  invariant again, and its finalized and justified checkpoints have not moved back.\<close>

theorem process_slots_terminates:
  assumes "wf_stf_preset E" and "state_inv E st"
  shows "\<exists>r. process_slots E sha R target_slot st = Some r
           \<and> (r = Inl (TargetSlotNotAfterCurrent (st_slot st) target_slot) \<longleftrightarrow> target_slot < st_slot st)
           \<and> (\<forall>st'. r = Inr st' \<longrightarrow> st_slot st' = target_slot \<and> state_inv E st'
                \<and> cp_epoch (st_finalized_checkpoint st) \<le> cp_epoch (st_finalized_checkpoint st')
                \<and> cp_epoch (st_current_justified_checkpoint st) \<le> cp_epoch (st_current_justified_checkpoint st'))"
proof -
  obtain r where r: "process_slots E sha R target_slot st = Some r"
    using process_slots_ends(1) [OF assms, of sha R] by blast
  moreover have "r = Inl (TargetSlotNotAfterCurrent (st_slot st) target_slot) \<longleftrightarrow> target_slot < st_slot st"
    using process_slots_ends(2) [OF assms, of sha R target_slot] r by simp
  ultimately show ?thesis using process_slots_ends(3) [OF assms] unfolding advances_def by blast
qed

definition sample_roots :: root_service where
  "sample_roots = \<lparr>rs_state = (\<lambda>st. ucast (st_slot st) + 1), rs_body = (\<lambda>_. 5), rs_block = (\<lambda>b. ucast (b_slot b))\<rparr>"

lemma sample_state_inv: "state_inv minimal_preset (sample_state 7 [sample_validator])"
proof -
  have "state_shape minimal_preset (sample_state 7 [sample_validator])"
    by (simp add: state_shape_def sample_state_def minimal_preset_def)
  moreover have "checkpoints_ordered minimal_preset (sample_state 7 [sample_validator])" by code_simp
  moreover have "pendings_ok minimal_preset (sample_state 7 [sample_validator])"
    unfolding pendings_ok_def pending_atts_def by code_simp
  ultimately show ?thesis by (simp add: state_inv_def)
qed

theorem process_slots_terminates_witness:
  "\<exists>st'. process_slots minimal_preset (\<lambda>_. 0) sample_roots 9 (sample_state 7 [sample_validator]) = Some (Inr st')
       \<and> st_slot st' = 9 \<and> state_inv minimal_preset st' \<and> st_state_roots st' ! 7 = 8"
proof -
  have "case process_slots minimal_preset (\<lambda>_. 0) sample_roots 9 (sample_state 7 [sample_validator]) of
          Some (Inr st') \<Rightarrow> st_state_roots st' ! 7 = 8 | _ \<Rightarrow> False"
    by code_simp
  then obtain st' where
      st': "process_slots minimal_preset (\<lambda>_. 0) sample_roots 9 (sample_state 7 [sample_validator]) = Some (Inr st')"
      "st_state_roots st' ! 7 = 8"
    by (auto split: option.splits sum.splits)
  from process_slots_terminates [OF wf_stf_minimal sample_state_inv, of "\<lambda>_. 0" sample_roots 9] st'
  show ?thesis by fastforce
qed

end
