(* ===== verification/Phase0_Transition.thy ===== *)
theory Phase0_Transition
  imports Phase0_Slots
begin

text \<open>
  The state transition of phase 0 (\<^verbatim>\<open>phase0_state_transition\<close> of
  \<^verbatim>\<open>src/crates/pharos-stf/src/lib.rs\<close>): slots up to the block, the signature of the proposer, the
  block, the state root.

  The properties are those of whole chains of blocks: the shape of the state, finality, and the
  committees other components may compute one epoch ahead.
\<close>

section \<open>Definitions\<close>

definition phase0_state_transition ::
  "preset \<Rightarrow> crypto \<Rightarrow> root_service \<Rightarrow> bool \<Rightarrow> signed_beacon_block \<Rightarrow> beacon_state \<Rightarrow>
   (state_transition_error, beacon_state) result option" where
  "phase0_state_transition E cr R validate_result signed_block st =
     (let block = sb_message signed_block in
      bind_try (process_slots E (cr_sha cr) R (b_slot block) st) (\<lambda>st.
      bind_try
        (Some (if validate_result
               then bind_result
                 (ok_or (map_option v_pubkey (nth_opt (st_validators st) (unat (b_proposer_index block))))
                    InvalidBlockSignature) (\<lambda>proposer_pubkey.
                 let domain = get_domain E (cr_sha cr) st DOMAIN_BEACON_PROPOSER None;
                     signing_root = compute_signing_root (cr_sha cr) (rs_block R block) domain;
                     valid = unwrap_or (cr_bls_verify cr proposer_pubkey (hash_bytes signing_root)
                               (sb_signature signed_block)) False
                 in if valid then Inr () else Inl InvalidBlockSignature)
               else Inr ())) (\<lambda>_.
      bind_try (process_block E cr R block validate_result st) (\<lambda>st.
      Some (if validate_result \<and> rs_state R st \<noteq> b_state_root block
            then Inl (StateRootMismatch (b_state_root block) (rs_state R st))
            else Inr st)))))"

section \<open>What an accepted block passed\<close>

lemma phase0_state_transitionD:
  assumes "phase0_state_transition E cr R v sb st = Some (Inr st')"
  obtains pre where "process_slots E (cr_sha cr) R (b_slot (sb_message sb)) st = Some (Inr pre)"
    and "process_block E cr R (sb_message sb) v pre = Some (Inr st')"
    and "v \<Longrightarrow> rs_state R st' = b_state_root (sb_message sb)"
    and "v \<Longrightarrow> \<exists>p. nth_opt (st_validators pre) (unat (b_proposer_index (sb_message sb))) = Some p \<and>
           cr_bls_verify cr (v_pubkey p)
             (hash_bytes (compute_signing_root (cr_sha cr) (rs_block R (sb_message sb))
                (get_domain E (cr_sha cr) pre DOMAIN_BEACON_PROPOSER None))) (sb_signature sb) = Some True"
  using assms unfolding phase0_state_transition_def Let_def bind_try_Inr
  by (auto simp: bind_result_Inr ok_or_def unwrap_or_def split: if_splits option.splits)

lemma transition_advances:
  assumes "wf_stf_preset E" and "state_inv E st" and "phase0_state_transition E cr R v sb st = Some (Inr st')"
  shows "state_inv E st'" and "advances E st st'" and "st_slot st' = b_slot (sb_message sb)"
proof -
  obtain pre where pre: "process_slots E (cr_sha cr) R (b_slot (sb_message sb)) st = Some (Inr pre)"
    and blk: "process_block E cr R (sb_message sb) v pre = Some (Inr st')"
    using phase0_state_transitionD [OF assms(3)] by blast
  note slots = process_slots_ends(3) [OF assms(1,2) pre]
  have f: "frame E pre st'" using blk by (rule process_block_frame)
  have eb: "epoch_bound E pre" "epoch_bound E st'"
    using slot_bound_epoch [OF slot_bound_all [OF assms(1)] order_refl] by blast+
  show "state_inv E st'" using f eb(1) slots by (blast intro: frame_inv)
  show "advances E st st'" using slots frame_advances [OF f eb(1)] eb(1) advances_trans by blast
  show "st_slot st' = b_slot (sb_message sb)" using f slots by (simp add: frame_def evolves_def)
qed

lemma transitions_advance:
  assumes "wf_stf_preset E" and "state_inv E st"
    and "fold_try (phase0_state_transition E cr R v) blocks st = Some (Inr st')"
  shows "state_inv E st' \<and> advances E st st'"
  using assms(3)
proof (rule fold_try_invariant [where P = "\<lambda>s. state_inv E s \<and> advances E st s"])
  show "state_inv E st \<and> advances E st st" using assms(2) by (simp add: advances_refl)
next
  fix sb s s'
  assume "phase0_state_transition E cr R v sb s = Some (Inr s')" and s: "state_inv E s \<and> advances E st s"
  with transition_advances [OF assms(1)] have "state_inv E s'" "advances E s s'" by blast+
  moreover have "epoch_bound E s" using slot_bound_epoch [OF slot_bound_all [OF assms(1)] order_refl] by blast
  ultimately show "state_inv E s' \<and> advances E st s'" using s advances_trans by blast
qed

section \<open>Committees one epoch ahead\<close>

lemma unat_seed_epoch:
  assumes "wf_stf_preset E" and "unat e + 2 ^ 32 < 2 ^ 64"
  shows "unat (e + EPOCHS_PER_HISTORICAL_VECTOR E - MIN_SEED_LOOKAHEAD E - 1) =
           unat e + unat (EPOCHS_PER_HISTORICAL_VECTOR E) - 2"
proof -
  let ?N = "EPOCHS_PER_HISTORICAL_VECTOR E"
  have N: "4 \<le> unat ?N" "unat ?N \<le> 2 ^ 32" and L: "MIN_SEED_LOOKAHEAD E = 1"
    using assms(1) by (simp_all add: wf_stf_preset_def)
  have s: "unat (e + ?N) = unat e + unat ?N" using N(2) assms(2) by (intro unat_add_u64) linarith
  then have "unat (2 :: u64) \<le> unat (e + ?N)" using N(1) by simp
  then have "unat (e + ?N - 2) = unat e + unat ?N - 2" using s by (simp add: unat_sub word_le_nat_alt)
  moreover have "e + ?N - MIN_SEED_LOOKAHEAD E - 1 = e + ?N - 2" by (simp add: L)
  ultimately show ?thesis by (simp only:)
qed

text \<open>The mix the seed of epoch \<open>e\<close> reads lies two epochs back, in the part of the vector that the
  epochs from \<open>e - 1\<close> on do not touch before the vector wraps around.\<close>

lemma seed_index_untouched:
  fixes e N lo hi x :: nat
  assumes "4 \<le> N" and "e \<le> lo + 1" and "hi + 3 < e + N" and "lo \<le> x" and "x \<le> hi + 1"
  shows "(e + N - 2) mod N \<noteq> x mod N"
proof
  let ?a = "e + N - 2"
  assume "?a mod N = x mod N"
  then have "?a mod N = (x + N) mod N" by simp
  moreover have "?a < x + N" "x + N - ?a < N" using assms by linarith+
  ultimately have "(x + N - ?a) mod N = 0" by (metis mod_eq_dvd_iff_nat dvd_imp_mod_0 less_imp_le)
  then show False using \<open>?a < x + N\<close> \<open>x + N - ?a < N\<close> by simp
qed

lemma committees_advance:
  assumes "wf_stf_preset E" and "advances E st st'"
    and e: "e = compute_epoch_at_slot slot (SLOTS_PER_EPOCH E)"
    and "unat e \<le> unat (get_current_epoch E st) + 1"
    and "unat (get_current_epoch E st') + 3 < unat e + unat (EPOCHS_PER_HISTORICAL_VECTOR E)"
  shows "get_beacon_committee E sha st' slot index = get_beacon_committee E sha st slot index"
proof -
  let ?N = "EPOCHS_PER_HISTORICAL_VECTOR E"
  have wf: "4 \<le> unat ?N" "0 < unat (MAX_SEED_LOOKAHEAD E)" using assms(1) by (simp_all add: wf_stf_preset_def)
  have sb: "slot_bound E slot" "epoch_bound E st"
    using slot_bound_all [OF assms(1)] slot_bound_epoch [OF _ order_refl] by blast+
  have "unat e < unat (delay_epoch E st)"
    using sb(2) assms(4) wf(2) unat_activation_exit_epoch unfolding epoch_bound_def by simp
  then have act: "get_active_validator_indices E st' e = get_active_validator_indices E st e"
    using assms(2) by (intro active_indices_evolves) (auto simp: advances_def word_less_nat_alt)
  define i where "i = (unat e + unat ?N - 2) mod unat ?N"
  have "\<forall>x. unat (get_current_epoch E st) \<le> x \<longrightarrow> x \<le> unat (get_current_epoch E st') + 1 \<longrightarrow> i \<noteq> x mod unat ?N"
    unfolding i_def using seed_index_untouched [OF wf(1) assms(4,5)] by blast
  then have mix: "st_randao_mixes st' ! i = st_randao_mixes st ! i"
    and len: "length (st_randao_mixes st') = length (st_randao_mixes st)"
    using assms(2) by (auto simp: advances_def mixes_range_def)
  have "unat (e + ?N - MIN_SEED_LOOKAHEAD E - 1) = unat e + unat ?N - 2"
  proof (rule unat_seed_epoch [OF assms(1)])
    show "unat e + 2 ^ 32 < 2 ^ 64" using epoch_room [OF assms(1), of slot] e by simp
  qed
  then have "unat ((e + ?N - MIN_SEED_LOOKAHEAD E - 1) mod ?N) = i" by (simp only: unat_mod i_def)
  then have "get_seed E sha st' e d = get_seed E sha st e d" for d
    using mix len by (simp add: get_seed_def get_randao_mix_def nth_opt_def Let_def)
  then show ?thesis
    using act by (simp add: get_beacon_committee_def get_committee_count_per_slot_def Let_def flip: e)
qed

section \<open>A block on a concrete state\<close>

definition signed_sample_block :: signed_beacon_block where
  "signed_sample_block = \<lparr>sb_message = (sample_block 8 0)\<lparr>b_state_root := 9\<rparr>, sb_signature = 0\<rparr>"

lemma sample_transition:
  obtains st' where "fold_try (phase0_state_transition minimal_preset sample_crypto sample_roots True)
      [signed_sample_block] (sample_state 7 [sample_validator]) = Some (Inr st')" and "st_slot st' = 8"
proof -
  let ?run = "phase0_state_transition minimal_preset sample_crypto sample_roots True signed_sample_block
      (sample_state 7 [sample_validator])"
  have "case ?run of Some (Inr st') \<Rightarrow> st_slot st' = 8 | _ \<Rightarrow> False" by code_simp
  then obtain st' where run: "?run = Some (Inr st')" and st': "st_slot st' = 8"
    by (auto split: option.splits sum.splits)
  show ?thesis
    by (rule that [OF _ st']) (simp only: fold_try.simps run bind_try_simps)
qed

section \<open>Properties\<close>

text \<open>C6: states stay well-formed.  A chain of accepted blocks, validated or not, leads from a state with
  the invariant to a state with the invariant: every vector keeps its length, every list stays below
  its limit with one balance per validator, the checkpoints stay in order, and every pending
  attestation names a committee of its epoch.\<close>

theorem transitions_keep_state_inv:
  assumes "wf_stf_preset E" and "state_inv E st"
    and "fold_try (phase0_state_transition E cr R validate_result) blocks st = Some (Inr st')"
  shows "state_inv E st'"
  using transitions_advance [OF assms] by blast

theorem transitions_keep_state_inv_witness:
  "\<exists>st'. fold_try (phase0_state_transition minimal_preset sample_crypto sample_roots True) [signed_sample_block]
            (sample_state 7 [sample_validator]) = Some (Inr st') \<and> state_inv minimal_preset st'"
proof -
  obtain st' where "fold_try (phase0_state_transition minimal_preset sample_crypto sample_roots True)
      [signed_sample_block] (sample_state 7 [sample_validator]) = Some (Inr st')"
    by (rule sample_transition)
  with transitions_keep_state_inv [OF wf_stf_minimal sample_state_inv this] show ?thesis by blast
qed

text \<open>C5: finality is never reverted on a chain.  Along any chain of accepted blocks the slot, the
  finalized epoch and the justified epoch only grow, no validator leaves the registry, and no slashed
  validator becomes unslashed.\<close>

theorem transitions_never_revert:
  assumes "wf_stf_preset E" and "state_inv E st"
    and "fold_try (phase0_state_transition E cr R validate_result) blocks st = Some (Inr st')"
  shows "st_slot st \<le> st_slot st'
       \<and> cp_epoch (st_finalized_checkpoint st) \<le> cp_epoch (st_finalized_checkpoint st')
       \<and> cp_epoch (st_current_justified_checkpoint st) \<le> cp_epoch (st_current_justified_checkpoint st')
       \<and> length (st_validators st) \<le> length (st_validators st')
       \<and> (\<forall>i<length (st_validators st). v_pubkey (st_validators st' ! i) = v_pubkey (st_validators st ! i)
            \<and> (v_slashed (st_validators st ! i) \<longrightarrow> v_slashed (st_validators st' ! i)))"
  using transitions_advance [OF assms] by (simp add: advances_def registry_evolves_def validator_evolves_def)

theorem transitions_never_revert_witness:
  "\<exists>st'. fold_try (phase0_state_transition minimal_preset sample_crypto sample_roots True) [signed_sample_block]
            (sample_state 7 [sample_validator]) = Some (Inr st') \<and> 7 \<le> st_slot st'"
proof -
  obtain st' where "fold_try (phase0_state_transition minimal_preset sample_crypto sample_roots True)
      [signed_sample_block] (sample_state 7 [sample_validator]) = Some (Inr st')"
    by (rule sample_transition)
  with transitions_never_revert [OF wf_stf_minimal sample_state_inv this] show ?thesis
    by (auto simp: sample_state_def)
qed

text \<open>C8: duties are known one epoch ahead.  The committees of every slot up to the end of the next
  epoch are fixed: whatever blocks follow, with their deposits, exits, slashings and randao reveals,
  the state computes the same committee, up to the point where the vector of randao mixes wraps
  around.  The validator client and the fork choice rely on it when they use the committees of a
  checkpoint state.\<close>

theorem committees_known_ahead:
  assumes "wf_stf_preset E" and "state_inv E st"
    and "fold_try (phase0_state_transition E cr R validate_result) blocks st = Some (Inr st')"
    and "unat (compute_epoch_at_slot slot (SLOTS_PER_EPOCH E)) \<le> unat (get_current_epoch E st) + 1"
    and "unat (get_current_epoch E st') + 3
           < unat (compute_epoch_at_slot slot (SLOTS_PER_EPOCH E)) + unat (EPOCHS_PER_HISTORICAL_VECTOR E)"
  shows "get_beacon_committee E sha st' slot index = get_beacon_committee E sha st slot index"
proof -
  have "advances E st st'" using transitions_advance [OF assms(1-3)] by blast
  then show ?thesis using committees_advance [OF assms(1) _ refl assms(4,5)] by blast
qed

theorem committees_known_ahead_witness:
  "\<exists>st'. fold_try (phase0_state_transition minimal_preset sample_crypto sample_roots True) [signed_sample_block]
            (sample_state 7 [sample_validator]) = Some (Inr st')
       \<and> get_beacon_committee minimal_preset (\<lambda>_. 0) st' 15 0 =
           get_beacon_committee minimal_preset (\<lambda>_. 0) (sample_state 7 [sample_validator]) 15 0"
proof -
  obtain st' where run: "fold_try (phase0_state_transition minimal_preset sample_crypto sample_roots True)
      [signed_sample_block] (sample_state 7 [sample_validator]) = Some (Inr st')" and "st_slot st' = 8"
    by (rule sample_transition)
  then have "get_current_epoch minimal_preset st' = 8 div 8" by (simp add: get_current_epoch_def
    compute_epoch_at_slot_def minimal_preset_def)
  then have "unat (get_current_epoch minimal_preset st') = 1" by simp
  moreover have "compute_epoch_at_slot 15 (SLOTS_PER_EPOCH minimal_preset) = 1"
    "get_current_epoch minimal_preset (sample_state 7 [sample_validator]) = 0"
    "EPOCHS_PER_HISTORICAL_VECTOR minimal_preset = 64" by code_simp+
  ultimately show ?thesis
    using committees_known_ahead [OF wf_stf_minimal sample_state_inv run, of 15 "\<lambda>_. 0" 0] run by auto
qed

text \<open>C13: only the block of the slot's proposer, on top of the latest block, is accepted.  A validated
  block that passes the transition was signed by the validator the state elects for its slot, with the
  key of the registry and under the domain of the current fork; that validator was not slashed; the
  block is later than the latest block and names its root as parent; and the state it leads to has the
  root the block commits to.\<close>

theorem accepted_block_authentic:
  assumes "phase0_state_transition E cr R True sb st = Some (Inr st')"
  shows "\<exists>pre p. process_slots E (cr_sha cr) R (b_slot (sb_message sb)) st = Some (Inr pre)
       \<and> st_slot pre = b_slot (sb_message sb)
       \<and> get_beacon_proposer_index E (cr_sha cr) pre = Some (b_proposer_index (sb_message sb))
       \<and> nth_opt (st_validators pre) (unat (b_proposer_index (sb_message sb))) = Some p
       \<and> \<not> v_slashed p
       \<and> cr_bls_verify cr (v_pubkey p)
           (hash_bytes (compute_signing_root (cr_sha cr) (rs_block R (sb_message sb))
              (get_domain E (cr_sha cr) pre DOMAIN_BEACON_PROPOSER None))) (sb_signature sb) = Some True
       \<and> bh_slot (st_latest_block_header pre) < b_slot (sb_message sb)
       \<and> b_parent_root (sb_message sb) = beacon_block_header_root (cr_sha cr) (st_latest_block_header pre)
       \<and> rs_state R st' = b_state_root (sb_message sb)"
proof -
  obtain pre where pre: "process_slots E (cr_sha cr) R (b_slot (sb_message sb)) st = Some (Inr pre)"
    and blk: "process_block E cr R (sb_message sb) True pre = Some (Inr st')"
    and root: "rs_state R st' = b_state_root (sb_message sb)"
    and sig: "\<exists>p. nth_opt (st_validators pre) (unat (b_proposer_index (sb_message sb))) = Some p \<and>
           cr_bls_verify cr (v_pubkey p)
             (hash_bytes (compute_signing_root (cr_sha cr) (rs_block R (sb_message sb))
                (get_domain E (cr_sha cr) pre DOMAIN_BEACON_PROPOSER None))) (sb_signature sb) = Some True"
    using phase0_state_transitionD [OF assms] by blast
  obtain a where "process_block_header E (cr_sha cr) R (sb_message sb) pre = Some (Inr a)"
    using blk unfolding process_block_def bind_try_Inr by blast
  note hdr = process_block_headerD [OF this]
  from sig obtain p where p: "nth_opt (st_validators pre) (unat (b_proposer_index (sb_message sb))) = Some p"
    "cr_bls_verify cr (v_pubkey p)
       (hash_bytes (compute_signing_root (cr_sha cr) (rs_block R (sb_message sb))
          (get_domain E (cr_sha cr) pre DOMAIN_BEACON_PROPOSER None))) (sb_signature sb) = Some True" by blast
  have "\<not> v_slashed p" using hdr p(1) by (simp add: unwrap_or_def)
  then show ?thesis using pre root p hdr by metis
qed

theorem accepted_block_authentic_witness:
  "\<exists>pre. process_slots minimal_preset (\<lambda>_. 0) sample_roots 8 (sample_state 7 [sample_validator]) = Some (Inr pre)
       \<and> get_beacon_proposer_index minimal_preset (\<lambda>_. 0) pre = Some 0"
proof -
  obtain st' where "fold_try (phase0_state_transition minimal_preset sample_crypto sample_roots True)
      [signed_sample_block] (sample_state 7 [sample_validator]) = Some (Inr st')"
    by (rule sample_transition)
  then have "phase0_state_transition minimal_preset sample_crypto sample_roots True signed_sample_block
      (sample_state 7 [sample_validator]) = Some (Inr st')"
    unfolding fold_try.simps bind_try_Inr by blast
  from accepted_block_authentic [OF this] show ?thesis
    by (auto simp: signed_sample_block_def sample_block_def sample_crypto_def)
qed

end
