(* ===== verification/Spec2Isabelle.thy ===== *)
theory Spec2Isabelle
  imports Ssz_Refine Ssz_Codec Electra_Helpers FC_Steps VC_Signing Phase0_Transition
begin

text \<open>
  \<^bold>\<open>Verification library of pharos, an Ethereum consensus client\<close> (sources under \<^verbatim>\<open>src/crates\<close>).

  \<^bold>\<open>The program.\<close>  A beacon node and a validator client.  The node keeps beacon states as SSZ containers
  (\<^verbatim>\<open>pharos-ssz\<close>, \<^verbatim>\<open>pharos-types\<close>), computes the state after a block with the state transition
  (\<^verbatim>\<open>pharos-stf\<close>) and chooses the chain to follow with the fork-choice store (\<^verbatim>\<open>pharos-fork-choice\<close>), which
  is given the post-state of every block and calls the transition for checkpoint states and unrealized
  justification.  The validator client (\<^verbatim>\<open>pharos-validator\<close>) asks the node for duties and data, its slashing
  protection database for leave, and its signers for signatures.

  \<^bold>\<open>Modelling.\<close>  A function of the source is a function of the state, returning the new state.  An error is
  \<open>Inl\<close> of a result; \<open>None\<close> is a panic or a loop that does not end; loops whose end is not structural are
  partial functions, and that they return is proved.  On an error, what the state transition has
  already written through \<^verbatim>\<open>&mut\<close> is dropped in the model (\<^verbatim>\<open>state_transition\<close> owns its state and drops it too);
  the handlers of fork choice, whose store survives an error, return the store along with the error.  Integers are words of their width, and
  plain arithmetic wraps, as in the release profile (\<^verbatim>\<open>overflow-checks = false\<close>).  The constants of a preset
  are a record, with the mainnet and the minimal preset of \<^verbatim>\<open>eth_spec.rs\<close> as instances.

  \<^bold>\<open>Parameters.\<close>  SHA-256 and BLS (record \<open>crypto\<close>), the roots the SSZ derive macro generates for states,
  bodies and blocks (\<open>root_service\<close>), the state transition as fork choice sees it (\<open>stf\<close>), the execution
  client's proof-of-work blocks, SQLite's failures, the signers, the beacon node and the hex codec are
  arguments of the definitions that use them.  Theorems hold for all of them, or name what they rely on.

  \<^bold>\<open>Theories.\<close>
  \<^item> \<open>Prelude\<close>, \<open>Bytes\<close>, \<open>Pharos_Types\<close>: words, saturating and checked arithmetic, the result and
    outcome types and their folds, bytes of words, presets and containers.
  \<^item> \<open>Ssz_Merkle\<close> (\<^verbatim>\<open>tree_hash.rs\<close>, \<^verbatim>\<open>gindex.rs\<close>, \<^verbatim>\<open>merkle_proof.rs\<close>): lazy merkleization is the root of the padded
    tree; built proofs verify; proofs are binding up to a collision that the two proofs exhibit.
  \<^item> \<open>Ssz_Tree\<close>, \<open>Ssz_Sequence\<close>, \<open>Ssz_Refine\<close> (\<^verbatim>\<open>sequence.rs\<close>): the flat and the copy-on-write tree backend of
    lists and vectors, caches included.  Both refine a bounded list (locale \<open>ssz_sequence\<close>), and cached
    roots equal those computed from scratch.  The root of an element is a function of its value: the cache
    inside \<^verbatim>\<open>Validator\<close> and its invalidation are not part of the model.  A failed operation of a
    program leaves the collection as it was.
  \<^item> \<open>Ssz_Codec\<close> (\<^verbatim>\<open>encode.rs\<close>, \<^verbatim>\<open>decode.rs\<close>, the derive macro): decoding accepts exactly the encodings
    (locale \<open>ssz_codec\<close>, interpreted for numbers, byte arrays, lists, vectors).
  \<^item> \<open>Phase0_Shuffling\<close>, \<open>Phase0_Helpers\<close>, \<open>Phase0_Accessors\<close> (\<^verbatim>\<open>phase0/\<close> of \<^verbatim>\<open>pharos-stf\<close>): the shuffle is a
    permutation and its batched form agrees; committees partition the active validators; the integer
    square root.
  \<^item> \<open>Phase0_Mutators\<close> (\<^verbatim>\<open>state_write.rs\<close>, \<^verbatim>\<open>mutators.rs\<close>): every setter and mutator; the relations \<open>evolves\<close> and
    \<open>frame\<close> between the states before and after, composed by the locale \<open>state_preorder\<close>; the exit queue stays
    within the churn limit.
  \<^item> \<open>Phase0_Justification\<close>, \<open>Phase0_Rewards\<close>, \<open>Phase0_Epoch\<close> (\<^verbatim>\<open>phase0/epoch\<close>): justification and finality move only
    forward and only on supermajorities, and move when the supermajorities are there; reward loops have
    their closed form; all stages stay in the frame.
  \<^item> \<open>Phase0_Operations\<close> (\<^verbatim>\<open>block.rs\<close>, \<^verbatim>\<open>phase0/operations\<close>): all operations of a block; who an attester slashing
    slashes; deposit proofs.
  \<^item> \<open>Phase0_Slots\<close>, \<open>Phase0_Transition\<close> (\<^verbatim>\<open>slot.rs\<close>, \<^verbatim>\<open>phase0_state_transition\<close> of \<^verbatim>\<open>lib.rs\<close>): the slot loop ends without a
    panic; along any chain of blocks the state stays well-formed, finality is not reverted, and committees are
    known one epoch ahead; accepted blocks are authentic.
  \<^item> \<open>Electra_Helpers\<close> (\<^verbatim>\<open>electra/helpers.rs\<close>): the proposers and attesters that fork choice asks for.
  \<^item> \<open>FC_Store\<close>, \<open>FC_Head\<close>, \<open>FC_Pow_Block\<close>, \<open>FC_Handlers\<close>, \<open>FC_Ticks\<close>, \<open>FC_Invariants\<close>, \<open>FC_Optimistic\<close>, \<open>FC_Steps\<close>
    (\<^verbatim>\<open>pharos-fork-choice\<close>): the store and all operations that write it as a step relation; ancestors, the head
    as the end of the greedy path, ticks, the exact effect of blocks, attestations, slashings and verdicts
    on payloads, and the invariant and monotonicity of every reachable store.
  \<^item> \<open>VC_Slashing\<close>, \<open>VC_Interchange\<close>, \<open>VC_Doppelganger\<close>, \<open>VC_Signing\<close> (\<^verbatim>\<open>pharos-validator\<close>): the database and its
    trait (locale \<open>slashing_protection\<close>, interpreted on the SQLite tables), import and export, the guard, and
    the slot loop with the history of its requests and signatures: no slashable pair is ever signed.

  \<^bold>\<open>Bounds.\<close>  No fuel is used.  \<open>wf_preset\<close> and \<open>wf_stf_preset\<close> state what both presets satisfy (an epoch has at
  least eight slots, a history holds two epochs, at most \<open>2 ^ 40\<close> validators).  \<open>epoch_bound\<close> keeps the epoch, with the
  activation delay, below \<open>2 ^ 64\<close>; it holds at every slot of a well-formed preset.  Slashing protection
  relies on epochs below \<open>2 ^ 63\<close> since SQLite compares signed integers.  The slot loop of the validator
  client divides by a configured number of slots per epoch, which is not zero.

  \<^bold>\<open>Not modelled.\<close>
  \<^item> The state transitions, upgrades and light-client code of Altair to Fulu, and genesis, beyond the helpers
    above: they work on other containers (participation flags, payloads, withdrawals, deposit queues).
  \<^item> Bitfields as bytes (lists of booleans here), progressive containers and unions of \<^verbatim>\<open>pharos-ssz\<close>; the later
    containers, configuration files and operation pools of \<^verbatim>\<open>pharos-types\<close>.
  \<^item> Fast confirmation in \<^verbatim>\<open>pharos-fork-choice\<close>.
  \<^item> Keystores, the remote signer, HTTP, aggregation and sync committee duties of \<^verbatim>\<open>pharos-validator\<close>.
  \<^item> \<^verbatim>\<open>pharos-network\<close>, \<^verbatim>\<open>pharos-node\<close>, \<^verbatim>\<open>pharos-api\<close>, \<^verbatim>\<open>pharos-engine\<close>, \<^verbatim>\<open>pharos-storage\<close>: asynchronous input and output
    over libraries for networking and storage.
  \<^item> \<^verbatim>\<open>pharos-kzg\<close> and most of \<^verbatim>\<open>pharos-utils\<close>: wrappers of cryptographic libraries, logging and metrics;
    \<^verbatim>\<open>pharos-conformance\<close>: tests.
\<close>

end
